(* ===== verification/Sync_Prelude.thy ===== *)
theory Sync_Prelude
  imports Complex_Main "HOL-Library.List_Lexorder" "HOL-Library.Char_ord"
begin

text \<open>
  Shared vocabulary of the development: thrown errors as values, the
  exception-and-state composition the asynchronous code is written in,
  JavaScript values as far as the SDK inspects them, and the generic lemmas on
  lists that the components share.
\<close>

section \<open>JavaScript values\<close>

text \<open>
  Numbers. The SDK compares, takes maxima of and increments numbers; all of these are
  exact on the doubles that occur, so a finite double is its exact rational value
  (\<^verbatim>\<open>-0\<close> and \<^verbatim>\<open>0\<close> are not told apart by any operation modelled here).
\<close>

datatype jsnum = NaN | NegInf | PosInf | Fin rat

definition num :: "int \<Rightarrow> jsnum" where
  "num i = Fin (of_int i)"

text \<open>\<^verbatim>\<open>Number.isInteger\<close>, giving the integer.\<close>

fun num_int :: "jsnum \<Rightarrow> int option" where
  "num_int (Fin r) = (if of_int \<lfloor>r\<rfloor> = r then Some \<lfloor>r\<rfloor> else None)"
| "num_int _ = None"

lemma num_int_num [simp]: "num_int (num i) = Some i"
  by (simp add: num_def)

lemma num_int_Some: "num_int n = Some i \<Longrightarrow> n = num i"
  by (cases n) (auto simp: num_def split: if_splits)

definition MAX_SAFE :: int where "MAX_SAFE = 2 ^ 53 - 1"

text \<open>\<^verbatim>\<open>Number.isSafeInteger\<close>, giving the integer.\<close>

definition safe_int :: "jsnum \<Rightarrow> int option" where
  "safe_int n = (case num_int n of None \<Rightarrow> None
     | Some i \<Rightarrow> if \<bar>i\<bar> \<le> MAX_SAFE then Some i else None)"

lemma safe_int_num: "safe_int (num i) = (if \<bar>i\<bar> \<le> MAX_SAFE then Some i else None)"
  by (simp add: safe_int_def)

lemma safe_int_Some: "safe_int n = Some i \<Longrightarrow> n = num i \<and> \<bar>i\<bar> \<le> MAX_SAFE"
  by (auto simp: safe_int_def dest: num_int_Some split: option.splits if_splits)

text \<open>
  Values. An object with a bare prototype is the list of its own enumerable properties in
  the order \<^verbatim>\<open>Object.keys\<close> lists them. Any other object (a \<open>Date\<close>, a \<open>Map\<close>, a class
  instance, a function) is opaque: a name for it, and the value \<^verbatim>\<open>JSON.stringify\<close> puts in
  its place (\<open>JUndef\<close> for one it leaves out).
\<close>

datatype jsval =
    JUndef
  | JNull
  | JBool bool
  | JNum jsnum
  | JStr string
  | is_arr: JArr "jsval list"
  | is_plain: JObj "(string \<times> jsval) list"
  | JOpaque string jsval

type_synonym props = "(string \<times> jsval) list"

text \<open>Reading \<^verbatim>\<open>o[k]\<close> of own properties; a missing one reads as \<open>undefined\<close>.\<close>

definition js_get :: "props \<Rightarrow> string \<Rightarrow> jsval" where
  "js_get o' k = (case map_of o' k of Some v \<Rightarrow> v | None \<Rightarrow> JUndef)"

text \<open>Assigning \<^verbatim>\<open>o[k] = v\<close>: an existing property keeps its place, a new one is appended.\<close>

fun js_set :: "string \<Rightarrow> jsval \<Rightarrow> props \<Rightarrow> props" where
  "js_set k v [] = [(k, v)]"
| "js_set k v ((k', v') # ps) = (if k' = k then (k, v) # ps else (k', v') # js_set k v ps)"

lemma map_of_js_set: "map_of (js_set k v ps) = (map_of ps)(k \<mapsto> v)"
  by (induction ps) auto

lemma js_get_js_set [simp]: "js_get (js_set k v ps) k' = (if k' = k then v else js_get ps k')"
  by (simp add: js_get_def map_of_js_set)

lemma js_get_Nil [simp]: "js_get [] k = JUndef"
  by (simp add: js_get_def)

lemma js_get_Cons [simp]: "js_get ((k, v) # ps) k' = (if k' = k then v else js_get ps k')"
  by (simp add: js_get_def)

lemma keys_js_set: "fst ` set (js_set k v ps) = insert k (fst ` set ps)"
  by (simp add: map_of_js_set flip: dom_map_of_conv_image_fst)

lemma distinct_js_set: "distinct (map fst ps) \<Longrightarrow> distinct (map fst (js_set k v ps))"
proof (induction ps)
  case Nil
  then show ?case by simp
next
  case (Cons p ps)
  then show ?case
    using keys_js_set [of k v ps] by (cases p) auto
qed

lemma js_set_same: "k \<in> fst ` set ps \<Longrightarrow> js_get ps k = v \<Longrightarrow> js_set k v ps = ps"
proof (induction ps)
  case Nil
  then show ?case by simp
next
  case (Cons p ps)
  then show ?case by (cases p) force
qed

text \<open>\<^verbatim>\<open>o?.k\<close> on any value: only objects have properties the SDK reads.\<close>

fun js_field :: "jsval \<Rightarrow> string \<Rightarrow> jsval" where
  "js_field (JObj ps) k = js_get ps k"
| "js_field _ k = JUndef"

text \<open>\<^verbatim>\<open>v == null\<close> and the coalescing operator \<^verbatim>\<open>??\<close>.\<close>

definition is_nullish :: "jsval \<Rightarrow> bool" where
  "is_nullish v \<longleftrightarrow> v = JUndef \<or> v = JNull"

definition coalesce :: "jsval \<Rightarrow> jsval \<Rightarrow> jsval" where
  "coalesce a b = (if is_nullish a then b else a)"

text \<open>Truthiness of a value in a condition.\<close>

fun truthy :: "jsval \<Rightarrow> bool" where
  "truthy JUndef = False"
| "truthy JNull = False"
| "truthy (JBool b) = b"
| "truthy (JNum n) = (n \<noteq> NaN \<and> n \<noteq> Fin 0)"
| "truthy (JStr s) = (s \<noteq> [])"
| "truthy _ = True"

text \<open>\<^verbatim>\<open>typeof\<close>.\<close>

fun typeof :: "jsval \<Rightarrow> string" where
  "typeof JUndef = ''undefined''"
| "typeof (JBool b) = ''boolean''"
| "typeof (JNum n) = ''number''"
| "typeof (JStr s) = ''string''"
| "typeof (JOpaque c j) = (if c = ''Function'' then ''function'' else ''object'')"
| "typeof _ = ''object''"

text \<open>\<^verbatim>\<open>Number.isSafeInteger(v)\<close> for an arbitrary value.\<close>

fun js_safe_int :: "jsval \<Rightarrow> int option" where
  "js_safe_int (JNum n) = safe_int n"
| "js_safe_int _ = None"

text \<open>Decimal digits of an integer, as \<^verbatim>\<open>String(n)\<close> prints integers below \<open>10 ^ 21\<close>.\<close>

definition digit_char :: "nat \<Rightarrow> char" where
  "digit_char d = char_of (48 + d)"

fun nat_digits :: "nat \<Rightarrow> string" where
  "nat_digits n = (if n < 10 then [digit_char n] else nat_digits (n div 10) @ [digit_char (n mod 10)])"

declare nat_digits.simps [simp del]

definition int_digits :: "int \<Rightarrow> string" where
  "int_digits i = (if i < 0 then CHR ''-'' # nat_digits (nat (- i)) else nat_digits (nat i))"

section \<open>Errors and results\<close>

text \<open>
  Every \<^verbatim>\<open>throw\<close> of the sources is a value: an \<open>Error\<close> object by its name and its
  message, an \<open>Error\<close> whose message is a fixed text followed by an interpolated value, or
  a thrown value that is no \<open>Error\<close> at all.
\<close>

datatype js_error =
    JsError string string
  | JsErrorAt string string jsval
  | JsThrown jsval

abbreviation Err :: "string \<Rightarrow> js_error" where
  "Err \<equiv> JsError ''Error''"

abbreviation TypeErr :: "string \<Rightarrow> js_error" where
  "TypeErr \<equiv> JsError ''TypeError''"

abbreviation TypeErrAt :: "string \<Rightarrow> jsval \<Rightarrow> js_error" where
  "TypeErrAt \<equiv> JsErrorAt ''TypeError''"

type_synonym 'a res = "js_error + 'a"

text \<open>
  A storage operation takes the state to a result and the next state. A rejected
  promise still has a next state: what had been committed before the rejection.
\<close>

type_synonym ('s, 'a) op = "'s \<Rightarrow> 'a res \<times> 's"

definition ret :: "'a \<Rightarrow> ('s, 'a) op" where
  "ret v s = (Inr v, s)"

definition raise :: "js_error \<Rightarrow> ('s, 'a) op" where
  "raise e s = (Inl e, s)"

text \<open>\<^verbatim>\<open>await\<close>: continue with the value, or leave with the error.\<close>

definition bindE :: "('s, 'a) op \<Rightarrow> ('a \<Rightarrow> ('s, 'b) op) \<Rightarrow> ('s, 'b) op" where
  "bindE f g s = (case f s of (Inl e, s') \<Rightarrow> (Inl e, s') | (Inr v, s') \<Rightarrow> g v s')"

lemma bindE_Inl [simp]: "f s = (Inl e, s') \<Longrightarrow> bindE f g s = (Inl e, s')"
  by (simp add: bindE_def)

lemma bindE_Inr [simp]: "f s = (Inr v, s') \<Longrightarrow> bindE f g s = g v s'"
  by (simp add: bindE_def)

lemma bindE_eq_Inr:
  "bindE f g s = (Inr v, s') \<longleftrightarrow> (\<exists>u t. f s = (Inr u, t) \<and> g u t = (Inr v, s'))"
  by (auto simp: bindE_def split: prod.splits sum.splits)

lemma bindE_eq_Inl:
  "bindE f g s = (Inl e, s') \<longleftrightarrow>
     f s = (Inl e, s') \<or> (\<exists>u t. f s = (Inr u, t) \<and> g u t = (Inl e, s'))"
  by (auto simp: bindE_def split: prod.splits sum.splits)

lemma ret_eq [simp]: "ret v s = (r, s') \<longleftrightarrow> r = Inr v \<and> s' = s"
  by (auto simp: ret_def)

lemma raise_eq [simp]: "raise e s = (r, s') \<longleftrightarrow> r = Inl e \<and> s' = s"
  by (auto simp: raise_def)

section \<open>Lists keyed by a field\<close>

text \<open>
  Queues and row collections are lists whose elements carry their key. The lemmas
  here say how \<^term>\<open>find\<close>, \<^term>\<open>filter\<close> and \<^term>\<open>map\<close> act on such lists.
\<close>

lemma find_Some_mem: "find P xs = Some x \<Longrightarrow> x \<in> set xs \<and> P x"
  by (induction xs) (auto split: if_splits)

lemma find_None_iff_all: "find P xs = None \<longleftrightarrow> (\<forall>x \<in> set xs. \<not> P x)"
  by (induction xs) auto

lemma find_map_cong:
  "(\<And>x. x \<in> set xs \<Longrightarrow> P (f x) = P x) \<Longrightarrow> find P (map f xs) = map_option f (find P xs)"
  by (induction xs) auto

lemma find_filter_disjoint:
  "(\<And>x. x \<in> set xs \<Longrightarrow> P x \<Longrightarrow> Q x) \<Longrightarrow> find P (filter Q xs) = find P xs"
  by (induction xs) auto

lemma find_key_distinct:
  "distinct (map key xs) \<Longrightarrow> x \<in> set xs \<Longrightarrow> find (\<lambda>y. key y = key x) xs = Some x"
  by (induction xs) (auto simp: image_iff)

lemma sorted_map_key: "sorted_wrt (<) (map key xs) \<Longrightarrow> distinct (map (key :: 'r \<Rightarrow> 'k :: linorder) xs)"
  using strict_sorted_iff by blast

lemma map_key_map [simp]: "(\<And>x. key (f x) = key x) \<Longrightarrow> map key (map f xs) = map key xs"
  by simp

lemma sorted_map_filter:
  "sorted_wrt (<) (map key xs) \<Longrightarrow> sorted_wrt (<) (map key (filter P xs))"
  by (induction xs) auto

end
