(* ===== verification/Write_Policy.thy ===== *)
theory Write_Policy
  imports Sync_Prelude
begin

text \<open>
  Write policies (client.mjs): the enum vocabulary, \<open>validateWritePolicy\<close>, the
  telemetry gate \<open>shouldEmit\<close> and the bounded error classification \<open>errorType\<close>.
\<close>

datatype write_strategy = LocalQueue | Optimistic | Pessimistic
datatype failure_mode = ReturnResult | ThrowError | EmitOnly
datatype telemetry_level = TelOff | TelErrors | TelLifecycle | TelVerbose

record write_policy =
  pol_strategy :: write_strategy
  pol_failure_mode :: failure_mode
  pol_telemetry :: telemetry_level

text \<open>The three sets of accepted enum strings, with the value each stands for.\<close>

definition WRITE_STRATEGIES :: "(string \<times> write_strategy) list" where
  "WRITE_STRATEGIES =
     [(''local_queue'', LocalQueue), (''optimistic'', Optimistic), (''pessimistic'', Pessimistic)]"

definition FAILURE_MODES :: "(string \<times> failure_mode) list" where
  "FAILURE_MODES =
     [(''return_result'', ReturnResult), (''throw_error'', ThrowError), (''emit_only'', EmitOnly)]"

definition TELEMETRY_LEVELS :: "(string \<times> telemetry_level) list" where
  "TELEMETRY_LEVELS =
     [(''off'', TelOff), (''errors'', TelErrors), (''lifecycle'', TelLifecycle),
      (''verbose'', TelVerbose)]"

text \<open>\<^verbatim>\<open>SET.has(v)\<close> for a set of strings.\<close>

fun enum_of :: "(string \<times> 'e) list \<Rightarrow> jsval \<Rightarrow> 'e option" where
  "enum_of es (JStr s) = map_of es s"
| "enum_of es _ = None"

definition DEFAULT_WRITE_POLICY :: jsval where
  "DEFAULT_WRITE_POLICY = JObj
     [(''strategy'', JStr ''optimistic''), (''failure_mode'', JStr ''return_result''),
      (''telemetry'', JStr ''errors'')]"

text \<open>
  The guards in the order of the source: not an object, an unknown strategy, failure mode
  or telemetry level, and the one forbidden combination.
\<close>

definition validateWritePolicy :: "jsval \<Rightarrow> write_policy res" where
  "validateWritePolicy policy =
     (if \<not> truthy policy \<or> typeof policy \<noteq> ''object'' \<or> is_arr policy
      then Inl (TypeErr ''sync write policy must be an object of enum values'')
      else case enum_of WRITE_STRATEGIES (js_field policy ''strategy'') of
        None \<Rightarrow> Inl (TypeErrAt ''unsupported sync write strategy: '' (js_field policy ''strategy''))
      | Some s \<Rightarrow>
      (case enum_of FAILURE_MODES (js_field policy ''failure_mode'') of
        None \<Rightarrow> Inl (TypeErrAt ''unsupported sync write failure mode: '' (js_field policy ''failure_mode''))
      | Some m \<Rightarrow>
      (case enum_of TELEMETRY_LEVELS (js_field policy ''telemetry'') of
        None \<Rightarrow> Inl (TypeErrAt ''unsupported sync write telemetry level: '' (js_field policy ''telemetry''))
      | Some l \<Rightarrow>
        if m = EmitOnly \<and> l = TelOff
        then Inl (TypeErr ''sync write failure mode emit_only requires telemetry errors, lifecycle, or verbose'')
        else Inr \<lparr>pol_strategy = s, pol_failure_mode = m, pol_telemetry = l\<rparr>)))"


text \<open>The lifecycle phases reported to telemetry, and the gate in front of the sink.\<close>

datatype phase =
    LocalQueued | SendStarted | Acknowledged | Failed | RetryScheduled | ConflictResolved

fun shouldEmit :: "telemetry_level \<Rightarrow> phase \<Rightarrow> bool" where
  "shouldEmit TelOff _ = False"
| "shouldEmit TelErrors p = (p = Failed \<or> p = RetryScheduled)"
| "shouldEmit _ _ = True"

text \<open>Error names that may leave the process; anything else is reduced to a type.\<close>

definition SAFE_ERROR_TYPES :: "string list" where
  "SAFE_ERROR_TYPES =
     [''Error'', ''TypeError'', ''RangeError'', ''ReferenceError'', ''SyntaxError'', ''URIError'',
      ''EvalError'', ''AggregateError'', ''AbortError'', ''TimeoutError'', ''NetworkError'',
      ''NotAllowedError'', ''InvalidStateError'', ''QuotaExceededError'', ''ConstraintError'',
      ''DataError'', ''OperationError'', ''UnknownError'']"

definition errorType :: "js_error \<Rightarrow> string" where
  "errorType e =
     (let fallback = (case e of JsThrown v \<Rightarrow> typeof v | _ \<Rightarrow> ''Error'');
          candidate = (case e of JsError n _ \<Rightarrow> n | JsErrorAt n _ _ \<Rightarrow> n | JsThrown _ \<Rightarrow> fallback)
      in if candidate \<in> set SAFE_ERROR_TYPES then candidate else fallback)"

text \<open>The \<^verbatim>\<open>typeof\<close> strings a thrown value can have.\<close>

lemma typeof_cases:
  "typeof v \<in> {''undefined'', ''object'', ''boolean'', ''number'', ''string'', ''function''}"
  by (cases v) auto

text \<open>The raw policy object of a validated policy.\<close>

definition policy_value :: "write_policy \<Rightarrow> jsval" where
  "policy_value p = JObj
     [(''strategy'', JStr (case pol_strategy p of LocalQueue \<Rightarrow> ''local_queue''
         | Optimistic \<Rightarrow> ''optimistic'' | Pessimistic \<Rightarrow> ''pessimistic'')),
      (''failure_mode'', JStr (case pol_failure_mode p of ReturnResult \<Rightarrow> ''return_result''
         | ThrowError \<Rightarrow> ''throw_error'' | EmitOnly \<Rightarrow> ''emit_only'')),
      (''telemetry'', JStr (case pol_telemetry p of TelOff \<Rightarrow> ''off'' | TelErrors \<Rightarrow> ''errors''
         | TelLifecycle \<Rightarrow> ''lifecycle'' | TelVerbose \<Rightarrow> ''verbose''))]"

lemma validateWritePolicy_value:
  "validateWritePolicy (policy_value p) =
     (if pol_failure_mode p = EmitOnly \<and> pol_telemetry p = TelOff
      then Inl (TypeErr ''sync write failure mode emit_only requires telemetry errors, lifecycle, or verbose'')
      else Inr p)"
  by (cases p; cases "pol_strategy p"; cases "pol_failure_mode p"; cases "pol_telemetry p")
    (simp_all add: validateWritePolicy_def policy_value_def WRITE_STRATEGIES_def FAILURE_MODES_def
      TELEMETRY_LEVELS_def)

lemma validateWritePolicy_Inr:
  assumes "validateWritePolicy v = Inr p"
  shows "pol_failure_mode p \<noteq> EmitOnly \<or> pol_telemetry p \<noteq> TelOff"
  using assms
  by (auto simp: validateWritePolicy_def split: if_splits option.splits)

text \<open>
  An error type that reaches telemetry is always one of the listed names or a
  \<^verbatim>\<open>typeof\<close> string: an application's own error name never leaves the process.
\<close>

lemma errorType_bounded:
  "errorType e \<in> set SAFE_ERROR_TYPES \<union>
     {''undefined'', ''object'', ''boolean'', ''number'', ''string'', ''function''}"
proof -
  have "''Error'' \<in> set SAFE_ERROR_TYPES"
    by (simp add: SAFE_ERROR_TYPES_def)
  then show ?thesis
    using typeof_cases by (cases e) (auto simp: errorType_def Let_def)
qed

text \<open>
  A policy value is accepted exactly when it is an object that is no array, each of its
  three fields is one of the enum strings, and it does not ask for emit-only failures with
  telemetry off; the accepted policy is the one those strings name.
\<close>
lemma validateWritePolicy_iff:
  "validateWritePolicy v = Inr p \<longleftrightarrow>
     truthy v \<and> typeof v = ''object'' \<and> \<not> is_arr v \<and>
     enum_of WRITE_STRATEGIES (js_field v ''strategy'') = Some (pol_strategy p) \<and>
     enum_of FAILURE_MODES (js_field v ''failure_mode'') = Some (pol_failure_mode p) \<and>
     enum_of TELEMETRY_LEVELS (js_field v ''telemetry'') = Some (pol_telemetry p) \<and>
     \<not> (pol_failure_mode p = EmitOnly \<and> pol_telemetry p = TelOff)"
proof -
  have eta: "p = \<lparr>pol_strategy = s, pol_failure_mode = m, pol_telemetry = l\<rparr> \<longleftrightarrow>
      pol_strategy p = s \<and> pol_failure_mode p = m \<and> pol_telemetry p = l" for s m l
    by (cases p) simp
  show ?thesis
    unfolding validateWritePolicy_def
    by (auto simp: eta eq_commute [of _ p] split: option.split)
qed

end
