(* ===== verification/Sync_Core.thy ===== *)
theory Sync_Core
  imports Write_Policy
begin

text \<open>
  The reconcile core: the envelopes of src/lib.rs, its decision functions
  \<open>reconcile\<close>, \<open>on_ack\<close> and \<open>is_echo_of\<close>, and the JSON boundary (core.mjs and
  src/wasm.rs) through which the browser client calls them.
\<close>

section \<open>Envelopes\<close>

datatype change_op = Upsert | Delete

text \<open>
  A committed change. Versions are exact integers. \<open>ev_at_ms\<close> stays a raw value: the
  decoders do not inspect it, and the boundary to the core may refuse it.
\<close>

record change_event =
  ev_table :: string
  ev_op :: change_op
  ev_id :: string
  ev_version :: int
  ev_row :: jsval
  ev_at_ms :: jsval
  ev_write_key :: "string option"

record local_row =
  lr_version :: int
  lr_dirty :: bool

text \<open>A write as the client builds it, before the queue numbers it.\<close>

record sync_write =
  qw_id :: string
  qw_table :: string
  qw_op :: change_op
  qw_payload :: jsval
  qw_base_version :: int
  qw_key :: "string option"
  qw_policy :: "write_policy option"

record write_ack =
  ack_id :: string
  ack_version :: int

section \<open>Decisions\<close>

datatype ignore_reason = Stale | AlreadyApplied
datatype reconcile_decision = Apply | Ignore ignore_reason | Conflict
datatype ack_outcome = Adopt int | Superseded

definition reconcile :: "local_row option \<Rightarrow> change_event \<Rightarrow> reconcile_decision" where
  "reconcile loc incoming =
     (case loc of
        None \<Rightarrow> (case ev_op incoming of Upsert \<Rightarrow> Apply | Delete \<Rightarrow> Ignore AlreadyApplied)
      | Some l \<Rightarrow>
          if ev_version incoming < lr_version l then Ignore Stale
          else if ev_version incoming = lr_version l then Ignore AlreadyApplied
          else if lr_dirty l then Conflict
          else Apply)"

datatype conflict_policy = ServerWins | ClientWins
datatype resolution = ApplyServer | KeepLocal

fun resolve_conflict :: "conflict_policy \<Rightarrow> resolution" where
  "resolve_conflict ServerWins = ApplyServer"
| "resolve_conflict ClientWins = KeepLocal"

definition I64_MAX :: int where "I64_MAX = 2 ^ 63 - 1"
definition I64_MIN :: int where "I64_MIN = - (2 ^ 63)"

definition i64_ok :: "int \<Rightarrow> bool" where
  "i64_ok i \<longleftrightarrow> I64_MIN \<le> i \<and> i \<le> I64_MAX"

text \<open>\<^verbatim>\<open>i64::saturating_add(1)\<close> and \<^verbatim>\<open>i64::checked_add(1)\<close> of a value in range.\<close>

definition expected_version :: "('a) sync_write_scheme \<Rightarrow> int" where
  "expected_version w = min (qw_base_version w + 1) I64_MAX"

definition checked_succ :: "int \<Rightarrow> int option" where
  "checked_succ i = (if i + 1 \<le> I64_MAX then Some (i + 1) else None)"

definition is_echo_of :: "('a) sync_write_scheme \<Rightarrow> change_event \<Rightarrow> bool" where
  "is_echo_of w incoming =
     (if ev_table incoming \<noteq> qw_table w \<or> ev_id incoming \<noteq> qw_id w \<or> ev_op incoming \<noteq> qw_op w
      then False
      else case qw_key w of
        Some mine \<Rightarrow> ev_write_key incoming = Some mine
      | None \<Rightarrow> (case checked_succ (qw_base_version w) of
                  Some expected \<Rightarrow> ev_version incoming = expected
                | None \<Rightarrow> False))"

definition on_ack :: "local_row \<Rightarrow> write_ack \<Rightarrow> ack_outcome" where
  "on_ack loc ack =
     (if lr_version loc \<le> ack_version ack then Adopt (ack_version ack) else Superseded)"

section \<open>The JSON boundary\<close>

text \<open>
  \<^verbatim>\<open>wrapCore\<close> passes every argument as JSON text. The core parses versions and \<open>at_ms\<close> as
  64-bit integers (an absent \<open>at_ms\<close> defaults to 0) and rejects anything else, which
  reaches the client as a thrown \<open>Error\<close>.
\<close>

fun wasm_at_ms_ok :: "jsval \<Rightarrow> bool" where
  "wasm_at_ms_ok JUndef = True"
| "wasm_at_ms_ok (JNum n) = (case num_int n of Some i \<Rightarrow> i64_ok i | None \<Rightarrow> False)"
| "wasm_at_ms_ok (JOpaque c j) = wasm_at_ms_ok j"
| "wasm_at_ms_ok _ = False"

definition wasm_event_ok :: "change_event \<Rightarrow> bool" where
  "wasm_event_ok ev \<longleftrightarrow> i64_ok (ev_version ev) \<and> wasm_at_ms_ok (ev_at_ms ev)"

abbreviation wasm_error :: js_error where
  "wasm_error \<equiv> Err ''invalid sync core argument''"

definition core_reconcile ::
    "local_row option \<Rightarrow> change_event \<Rightarrow> reconcile_decision res" where
  "core_reconcile loc ev =
     (if (case loc of Some l \<Rightarrow> i64_ok (lr_version l) | None \<Rightarrow> True) \<and> wasm_event_ok ev
      then Inr (reconcile loc ev) else Inl wasm_error)"

definition core_onAck :: "local_row \<Rightarrow> write_ack \<Rightarrow> ack_outcome res" where
  "core_onAck loc ack =
     (if i64_ok (lr_version loc) \<and> i64_ok (ack_version ack)
      then Inr (on_ack loc ack) else Inl wasm_error)"

definition core_isOwnEcho :: "('a) sync_write_scheme \<Rightarrow> change_event \<Rightarrow> bool res" where
  "core_isOwnEcho w ev =
     (if i64_ok (qw_base_version w) \<and> wasm_event_ok ev
      then Inr (is_echo_of w ev) else Inl wasm_error)"

section \<open>What the decisions mean\<close>

lemma reconcile_None [simp]:
  "reconcile None ev = (if ev_op ev = Upsert then Apply else Ignore AlreadyApplied)"
  by (cases "ev_op ev") (auto simp: reconcile_def)

lemma reconcile_Some:
  "reconcile (Some l) ev =
     (if ev_version ev < lr_version l then Ignore Stale
      else if ev_version ev = lr_version l then Ignore AlreadyApplied
      else if lr_dirty l then Conflict else Apply)"
  by (simp add: reconcile_def)

lemma is_echo_of_row:
  "is_echo_of w ev \<Longrightarrow> qw_table w = ev_table ev \<and> qw_id w = ev_id ev \<and> qw_op w = ev_op ev"
  by (auto simp: is_echo_of_def split: if_splits)

lemma is_echo_of_keyed:
  "qw_key w = Some k \<Longrightarrow>
     is_echo_of w ev \<longleftrightarrow>
       ev_table ev = qw_table w \<and> ev_id ev = qw_id w \<and> ev_op ev = qw_op w \<and> ev_write_key ev = Some k"
  by (auto simp: is_echo_of_def)

text \<open>
  The decision table read backwards: what each answer says about the local row and
  the incoming version. The client relies on these facts only.
\<close>

lemma reconcile_ApplyD:
  "reconcile loc ev = Apply \<Longrightarrow>
     loc = None \<and> ev_op ev = Upsert \<or>
     (\<exists>l. loc = Some l \<and> lr_version l < ev_version ev \<and> \<not> lr_dirty l)"
  by (cases loc) (auto simp: reconcile_Some split: if_splits)

lemma reconcile_ConflictD:
  "reconcile loc ev = Conflict \<Longrightarrow>
     \<exists>l. loc = Some l \<and> lr_version l < ev_version ev \<and> lr_dirty l"
  by (cases loc) (auto simp: reconcile_Some split: if_splits)

lemma reconcile_AlreadyAppliedD:
  "reconcile loc ev = Ignore AlreadyApplied \<Longrightarrow>
     loc = None \<and> ev_op ev = Delete \<or> (\<exists>l. loc = Some l \<and> lr_version l = ev_version ev)"
  by (cases loc; cases "ev_op ev") (auto simp: reconcile_Some split: if_splits)

lemma reconcile_StaleD:
  "reconcile loc ev = Ignore Stale \<Longrightarrow> \<exists>l. loc = Some l \<and> ev_version ev < lr_version l"
  by (cases loc) (auto simp: reconcile_Some split: if_splits)

lemmas reconcileD =
  reconcile_ApplyD reconcile_ConflictD reconcile_AlreadyAppliedD reconcile_StaleD

end
