(* ===== verification/Replica.thy ===== *)
theory Replica
  imports Sync_Core
begin

text \<open>
  The durable records both persistence adapters keep (a replica of a row, a queued
  write) with the helpers that stamp them, and the abstract state of one plane with the
  operation each adapter promises on it. The adapters are shown to implement these
  operations in Idb_Store and Local_Storage; the sync client is verified against them.
\<close>

section \<open>Records\<close>

record replica =
  r_id :: string
  r_row :: jsval
  r_version :: int
  r_dirty :: bool
  r_created_at :: "int option"
  r_updated_at :: "int option"
  r_synced_at :: "int option"

record queued_write = sync_write +
  qw_attempts :: "nat option"
  qw_superseded :: "int option"
  qw_seq :: nat

definition MIN_SAFE :: int where "MIN_SAFE = - (2 ^ 53 - 1)"

definition replicaRecord ::
    "replica option \<Rightarrow> string \<Rightarrow> jsval \<Rightarrow> int \<Rightarrow> bool \<Rightarrow> bool \<Rightarrow> int \<Rightarrow> replica" where
  "replicaRecord existing i row version dirty synced now =
     \<lparr>r_id = i, r_row = row, r_version = version, r_dirty = dirty,
      r_created_at = Some (case Option.bind existing r_created_at of Some c \<Rightarrow> c | None \<Rightarrow> now),
      r_updated_at = Some now,
      r_synced_at = (if synced then Some now else Option.bind existing r_synced_at)\<rparr>"

definition touchReplicaRecord ::
    "replica \<Rightarrow> int option \<Rightarrow> bool option \<Rightarrow> bool \<Rightarrow> int \<Rightarrow> replica" where
  "touchReplicaRecord rec version dirty synced now =
     rec\<lparr>r_version := (case version of Some v \<Rightarrow> v | None \<Rightarrow> r_version rec),
         r_dirty := (case dirty of Some d \<Rightarrow> d | None \<Rightarrow> r_dirty rec),
         r_created_at := Some (case r_created_at rec of Some c \<Rightarrow> c | None \<Rightarrow> now),
         r_updated_at := Some now,
         r_synced_at := (if synced then Some now else r_synced_at rec)\<rparr>"

lemma replicaRecord_sel [simp]:
  "r_id (replicaRecord e i row v d s now) = i"
  "r_row (replicaRecord e i row v d s now) = row"
  "r_version (replicaRecord e i row v d s now) = v"
  "r_dirty (replicaRecord e i row v d s now) = d"
  by (simp_all add: replicaRecord_def)

lemma touchReplicaRecord_sel [simp]:
  "r_id (touchReplicaRecord r v d s now) = r_id r"
  "r_row (touchReplicaRecord r v d s now) = r_row r"
  "r_version (touchReplicaRecord r v d s now) = (case v of Some x \<Rightarrow> x | None \<Rightarrow> r_version r)"
  "r_dirty (touchReplicaRecord r v d s now) = (case d of Some x \<Rightarrow> x | None \<Rightarrow> r_dirty r)"
  by (simp_all add: touchReplicaRecord_def)

text \<open>\<^verbatim>\<open>{ ...write, attempts: 0 }\<close> under its assigned sequence number.\<close>

definition queue_record :: "sync_write \<Rightarrow> nat \<Rightarrow> queued_write" where
  "queue_record w s =
     \<lparr>qw_id = qw_id w, qw_table = qw_table w, qw_op = qw_op w, qw_payload = qw_payload w,
      qw_base_version = qw_base_version w, qw_key = qw_key w, qw_policy = qw_policy w,
      qw_attempts = Some 0, qw_superseded = None, qw_seq = s\<rparr>"

definition on_row :: "string \<Rightarrow> string \<Rightarrow> ('a) sync_write_scheme \<Rightarrow> bool" where
  "on_row t i w \<longleftrightarrow> qw_table w = t \<and> qw_id w = i"

text \<open>\<^verbatim>\<open>candidate.superseded_version = Math.max(candidate.superseded_version ?? MIN, v)\<close>.\<close>

definition mark_superseded :: "int \<Rightarrow> queued_write \<Rightarrow> queued_write" where
  "mark_superseded v c =
     c\<lparr>qw_superseded := Some (max (case qw_superseded c of Some x \<Rightarrow> x | None \<Rightarrow> MIN_SAFE) v)\<rparr>"

lemma mark_superseded_sel [simp]:
  "qw_seq (mark_superseded v c) = qw_seq c"
  "qw_table (mark_superseded v c) = qw_table c"
  "qw_id (mark_superseded v c) = qw_id c"
  "qw_op (mark_superseded v c) = qw_op c"
  "qw_key (mark_superseded v c) = qw_key c"
  "qw_payload (mark_superseded v c) = qw_payload c"
  "qw_base_version (mark_superseded v c) = qw_base_version c"
  "on_row t i (mark_superseded v c) = on_row t i c"
  by (simp_all add: mark_superseded_def on_row_def)

lemma queue_record_sel [simp]:
  "qw_seq (queue_record w s) = s"
  "qw_table (queue_record w s) = qw_table w"
  "qw_id (queue_record w s) = qw_id w"
  "qw_op (queue_record w s) = qw_op w"
  "qw_key (queue_record w s) = qw_key w"
  "qw_payload (queue_record w s) = qw_payload w"
  "qw_base_version (queue_record w s) = qw_base_version w"
  "qw_attempts (queue_record w s) = Some 0"
  "qw_superseded (queue_record w s) = None"
  "on_row t i (queue_record w s) = on_row t i w"
  by (simp_all add: queue_record_def on_row_def)

definition bump_record :: "queued_write \<Rightarrow> queued_write" where
  "bump_record w =
     w\<lparr>qw_attempts := Some ((case qw_attempts w of Some n \<Rightarrow> n | None \<Rightarrow> 0) + 1)\<rparr>"

lemma bump_record_sel [simp]:
  "qw_seq (bump_record c) = qw_seq c"
  "qw_table (bump_record c) = qw_table c"
  "qw_id (bump_record c) = qw_id c"
  "qw_op (bump_record c) = qw_op c"
  "qw_key (bump_record c) = qw_key c"
  "qw_payload (bump_record c) = qw_payload c"
  "qw_base_version (bump_record c) = qw_base_version c"
  "on_row t i (bump_record c) = on_row t i c"
  by (simp_all add: bump_record_def on_row_def)

text \<open>\<^verbatim>\<open>Number.isSafeInteger(w.superseded_version) && w.superseded_version >= v\<close>.\<close>

definition superseded_at :: "queued_write \<Rightarrow> int \<Rightarrow> bool" where
  "superseded_at w v \<longleftrightarrow>
     (case qw_superseded w of Some x \<Rightarrow> \<bar>x\<bar> \<le> MAX_SAFE \<and> v \<le> x | None \<Rightarrow> False)"

datatype settle_outcome = Missing | Settled ack_outcome

section \<open>The abstract plane\<close>

text \<open>
  Rows by table and id, the queue in sequence order, the next sequence number and the
  catch-up cursors by scope.
\<close>

record plane =
  p_rows :: "string \<Rightarrow> string \<Rightarrow> replica option"
  p_queue :: "queued_write list"
  p_next_seq :: nat
  p_cursor :: "string \<Rightarrow> int option"

definition set_row :: "string \<Rightarrow> string \<Rightarrow> replica option \<Rightarrow> plane \<Rightarrow> plane" where
  "set_row t i r P = P\<lparr>p_rows := (p_rows P)(t := (p_rows P t)(i := r))\<rparr>"

lemma set_row_sel [simp]:
  "p_rows (set_row t i r P) t' i' = (if t' = t \<and> i' = i then r else p_rows P t' i')"
  "p_queue (set_row t i r P) = p_queue P"
  "p_next_seq (set_row t i r P) = p_next_seq P"
  "p_cursor (set_row t i r P) = p_cursor P"
  by (simp_all add: set_row_def)

lemma set_row_queue [simp]:
  "set_row t i r (P\<lparr>p_queue := q\<rparr>) = (set_row t i r P)\<lparr>p_queue := q\<rparr>"
  "set_row t i r (P\<lparr>p_next_seq := n\<rparr>) = (set_row t i r P)\<lparr>p_next_seq := n\<rparr>"
  by (simp_all add: set_row_def)

lemma set_row_same: "p_rows P t i = r \<Longrightarrow> set_row t i r P = P"
  by (cases P) (simp add: set_row_def fun_upd_idem)

definition find_seq :: "nat \<Rightarrow> queued_write list \<Rightarrow> queued_write option" where
  "find_seq s q = find (\<lambda>w. qw_seq w = s) q"

definition drop_seq :: "nat \<Rightarrow> queued_write list \<Rightarrow> queued_write list" where
  "drop_seq s q = filter (\<lambda>w. qw_seq w \<noteq> s) q"

text \<open>The queue's other writes on a row, and marking those older than \<open>s\<close>.\<close>

definition other_writes :: "string \<Rightarrow> string \<Rightarrow> nat \<Rightarrow> queued_write list \<Rightarrow> queued_write list" where
  "other_writes t i s q = filter (\<lambda>c. qw_seq c \<noteq> s \<and> on_row t i c) q"

definition mark_older :: "string \<Rightarrow> string \<Rightarrow> nat \<Rightarrow> int \<Rightarrow> queued_write list \<Rightarrow> queued_write list" where
  "mark_older t i s v q =
     map (\<lambda>c. if qw_seq c < s \<and> on_row t i c then mark_superseded v c else c) q"

subsection \<open>Operations\<close>

text \<open>
  \<open>clone\<close> is what storing does to a value (nothing in IndexedDB, a JSON round trip in
  localStorage), \<open>view\<close> what \<^verbatim>\<open>get\<close> makes of a stored row.
\<close>

definition spec_get :: "(jsval \<Rightarrow> jsval) \<Rightarrow> string \<Rightarrow> string \<Rightarrow> (plane, jsval) op" where
  "spec_get view t i P =
     (Inr (case p_rows P t i of Some r \<Rightarrow> view (r_row r) | None \<Rightarrow> JNull), P)"

definition meta_of :: "replica option \<Rightarrow> local_row option" where
  "meta_of r = map_option (\<lambda>r. \<lparr>lr_version = r_version r, lr_dirty = r_dirty r\<rparr>) r"

definition spec_meta :: "string \<Rightarrow> string \<Rightarrow> (plane, local_row option) op" where
  "spec_meta t i P = (Inr (meta_of (p_rows P t i)), P)"

definition spec_put ::
    "(jsval \<Rightarrow> jsval) \<Rightarrow> string \<Rightarrow> string \<Rightarrow> jsval \<Rightarrow> int \<Rightarrow> bool \<Rightarrow> int \<Rightarrow> (plane, unit) op" where
  "spec_put clone t i row version dirty now P =
     (Inr (), set_row t i
        (Some (replicaRecord (p_rows P t i) i (clone row) version dirty (\<not> dirty) now)) P)"

definition spec_setMeta ::
    "string \<Rightarrow> string \<Rightarrow> int option \<Rightarrow> bool option \<Rightarrow> int \<Rightarrow> (plane, bool) op" where
  "spec_setMeta t i version dirty now P =
     (case p_rows P t i of
        None \<Rightarrow> (Inr False, P)
      | Some rec \<Rightarrow>
          (Inr True, set_row t i
             (Some (touchReplicaRecord rec version dirty (dirty = Some False) now)) P))"

definition spec_del :: "string \<Rightarrow> string \<Rightarrow> (plane, unit) op" where
  "spec_del t i P = (Inr (), set_row t i None P)"

definition spec_getCursor :: "string \<Rightarrow> (plane, int) op" where
  "spec_getCursor scope P = (Inr (case p_cursor P scope of Some c \<Rightarrow> c | None \<Rightarrow> 0), P)"

abbreviation cursor_invalid :: js_error where
  "cursor_invalid \<equiv> Err ''sync cursor must be a non-negative safe integer''"

abbreviation cursor_backwards :: js_error where
  "cursor_backwards \<equiv> Err ''sync cursor cannot move backwards''"

definition spec_setCursor :: "int \<Rightarrow> string \<Rightarrow> (plane, int) op" where
  "spec_setCursor cursor scope P =
     (if \<not> (\<bar>cursor\<bar> \<le> MAX_SAFE) \<or> cursor < 0 then (Inl cursor_invalid, P)
      else if (case p_cursor P scope of Some c \<Rightarrow> cursor < c | None \<Rightarrow> False)
      then (Inl cursor_backwards, P)
      else (Inr cursor, P\<lparr>p_cursor := (p_cursor P)(scope \<mapsto> cursor)\<rparr>))"

definition clone_write :: "(jsval \<Rightarrow> jsval) \<Rightarrow> sync_write \<Rightarrow> sync_write" where
  "clone_write clone w = w\<lparr>qw_payload := clone (qw_payload w)\<rparr>"

lemma clone_write_sel [simp]:
  "qw_table (clone_write n w) = qw_table w" "qw_id (clone_write n w) = qw_id w"
  "qw_op (clone_write n w) = qw_op w" "qw_key (clone_write n w) = qw_key w"
  "qw_base_version (clone_write n w) = qw_base_version w" "qw_policy (clone_write n w) = qw_policy w"
  "qw_payload (clone_write n w) = n (qw_payload w)" "on_row t i (clone_write n w) = on_row t i w"
  by (simp_all add: clone_write_def on_row_def)

lemma clone_write_id [simp]: "clone_write (\<lambda>x. x) w = w"
  by (simp add: clone_write_def)

definition push_write :: "(jsval \<Rightarrow> jsval) \<Rightarrow> sync_write \<Rightarrow> plane \<Rightarrow> plane" where
  "push_write clone w P =
     P\<lparr>p_queue := p_queue P @ [queue_record (clone_write clone w) (p_next_seq P)],
       p_next_seq := p_next_seq P + 1\<rparr>"

definition spec_enqueue :: "(jsval \<Rightarrow> jsval) \<Rightarrow> sync_write \<Rightarrow> (plane, nat) op" where
  "spec_enqueue clone w P = (Inr (p_next_seq P), push_write clone w P)"

definition spec_enqueueOptimistic ::
    "(jsval \<Rightarrow> jsval) \<Rightarrow> sync_write \<Rightarrow> jsval \<Rightarrow> int \<Rightarrow> (plane, nat) op" where
  "spec_enqueueOptimistic clone w row now P =
     (let r = (case qw_op w of Delete \<Rightarrow> None
               | Upsert \<Rightarrow> Some (replicaRecord (p_rows P (qw_table w) (qw_id w)) (qw_id w) (clone row)
                                  (qw_base_version w) True False now))
      in (Inr (p_next_seq P), push_write clone w (set_row (qw_table w) (qw_id w) r P)))"

definition spec_list :: "(plane, queued_write list) op" where
  "spec_list P = (Inr (p_queue P), P)"

definition spec_remove :: "nat \<Rightarrow> (plane, unit) op" where
  "spec_remove s P = (Inr (), P\<lparr>p_queue := drop_seq s (p_queue P)\<rparr>)"

abbreviation ack_identity_changed :: js_error where
  "ack_identity_changed \<equiv> Err ''queued write identity changed before acknowledgement''"

abbreviation echo_identity_changed :: js_error where
  "echo_identity_changed \<equiv> Err ''queued echo identity changed before reconciliation''"

text \<open>
  What each settling operation makes of the row: the record kept with its bookkeeping
  refreshed, the record raised to a version while a newer local value stays on top, and
  the four outcomes built from them.
\<close>

definition keep_row :: "bool \<Rightarrow> int \<Rightarrow> replica \<Rightarrow> replica" where
  "keep_row pending now rec = touchReplicaRecord rec None (Some pending) True now"

definition raise_row :: "int \<Rightarrow> int \<Rightarrow> replica \<Rightarrow> replica" where
  "raise_row v now rec = touchReplicaRecord rec (Some (max (r_version rec) v)) (Some True) True now"

definition server_row ::
    "(jsval \<Rightarrow> jsval) \<Rightarrow> change_event \<Rightarrow> bool \<Rightarrow> int \<Rightarrow> replica option \<Rightarrow> replica option" where
  "server_row clone ev pending now rec =
     (case ev_op ev of
        Delete \<Rightarrow> None
      | Upsert \<Rightarrow> Some (replicaRecord rec (ev_id ev) (clone (ev_row ev)) (ev_version ev) pending True now))"

definition ack_row :: "int \<Rightarrow> bool \<Rightarrow> int \<Rightarrow> replica \<Rightarrow> replica" where
  "ack_row v pending now rec =
     keep_row pending now (if r_version rec \<le> v then rec\<lparr>r_version := v\<rparr> else rec)"

definition echo_row ::
    "(jsval \<Rightarrow> jsval) \<Rightarrow> change_event \<Rightarrow> bool \<Rightarrow> bool \<Rightarrow> bool \<Rightarrow> int \<Rightarrow> replica option \<Rightarrow> replica option" where
  "echo_row clone ev superseded newer pending now rec =
     (if superseded then map_option (keep_row pending now) rec
      else if newer then map_option (raise_row (ev_version ev) now) rec
      else if (case rec of None \<Rightarrow> True | Some r \<Rightarrow> r_version r \<le> ev_version ev)
      then server_row clone ev pending now rec
      else map_option (keep_row pending now) rec)"

definition conflict_row ::
    "(jsval \<Rightarrow> jsval) \<Rightarrow> change_event \<Rightarrow> bool \<Rightarrow> int \<Rightarrow> replica option \<Rightarrow> replica option" where
  "conflict_row clone ev newer now rec =
     (if newer then map_option (raise_row (ev_version ev) now) rec
      else server_row clone ev False now rec)"

definition pessimistic_row ::
    "(jsval \<Rightarrow> jsval) \<Rightarrow> queued_write \<Rightarrow> int \<Rightarrow> bool \<Rightarrow> bool \<Rightarrow> int \<Rightarrow> replica option \<Rightarrow> replica option" where
  "pessimistic_row clone w v preserve pending now rec =
     (if preserve then map_option (raise_row v now) rec
      else case qw_op w of
        Delete \<Rightarrow> None
      | Upsert \<Rightarrow> Some (replicaRecord rec (qw_id w) (clone (qw_payload w)) v pending True now))"

lemma row_outcome_sel [simp]:
  "r_id (keep_row pending now r) = r_id r" "r_row (keep_row pending now r) = r_row r"
  "r_version (keep_row pending now r) = r_version r" "r_dirty (keep_row pending now r) = pending"
  "r_id (raise_row v now r) = r_id r" "r_row (raise_row v now r) = r_row r"
  "r_version (raise_row v now r) = max (r_version r) v" "r_dirty (raise_row v now r)"
  "r_id (ack_row v pending now r) = r_id r" "r_row (ack_row v pending now r) = r_row r"
  "r_version (ack_row v pending now r) = max (r_version r) v"
  "r_dirty (ack_row v pending now r) = pending"
  by (simp_all add: keep_row_def raise_row_def ack_row_def)

definition spec_settleAck ::
    "string \<Rightarrow> string \<Rightarrow> nat \<Rightarrow> int \<Rightarrow> int \<Rightarrow> (plane, settle_outcome) op" where
  "spec_settleAck t i s v now P =
     (case find_seq s (p_queue P) of
        None \<Rightarrow> (Inr Missing, P)
      | Some w \<Rightarrow>
        if \<not> on_row t i w then (Inl ack_identity_changed, P)
        else
          let pending = (other_writes t i s (p_queue P) \<noteq> []);
              rec = p_rows P t i;
              outcome = (case rec of Some r \<Rightarrow> if r_version r \<le> v then Adopt v else Superseded
                         | None \<Rightarrow> Superseded)
          in (Inr (Settled outcome),
              (set_row t i (map_option (ack_row v pending now) rec) P)
                \<lparr>p_queue := drop_seq s (mark_older t i s v (p_queue P))\<rparr>))"

definition spec_adoptEcho :: "(jsval \<Rightarrow> jsval) \<Rightarrow> change_event \<Rightarrow> nat \<Rightarrow> int \<Rightarrow> (plane, bool) op" where
  "spec_adoptEcho clone ev s now P =
     (let t = ev_table ev; i = ev_id ev in
      case find_seq s (p_queue P) of
        None \<Rightarrow> (Inr False, P)
      | Some echo \<Rightarrow>
        if \<not> on_row t i echo then (Inl echo_identity_changed, P)
        else
          let other = other_writes t i s (p_queue P);
              row = echo_row clone ev (superseded_at echo (ev_version ev))
                      (list_ex (\<lambda>c. s < qw_seq c) other) (other \<noteq> []) now (p_rows P t i)
          in (Inr True, (set_row t i row P)
                \<lparr>p_queue := drop_seq s (mark_older t i s (ev_version ev) (p_queue P))\<rparr>))"

definition spec_resolveConflict ::
    "(jsval \<Rightarrow> jsval) \<Rightarrow> change_event \<Rightarrow> nat list \<Rightarrow> int \<Rightarrow> (plane, unit) op" where
  "spec_resolveConflict clone ev seqs now P =
     (let t = ev_table ev; i = ev_id ev;
          newer = list_ex (\<lambda>w. qw_seq w \<notin> set seqs \<and> on_row t i w) (p_queue P)
      in (Inr (), (set_row t i (conflict_row clone ev newer now (p_rows P t i)) P)
            \<lparr>p_queue := filter (\<lambda>w. qw_seq w \<notin> set seqs) (p_queue P)\<rparr>))"

definition spec_settlePessimistic ::
    "(jsval \<Rightarrow> jsval) \<Rightarrow> string \<Rightarrow> string \<Rightarrow> nat \<Rightarrow> int \<Rightarrow> int \<Rightarrow> (plane, settle_outcome) op" where
  "spec_settlePessimistic clone t i s v now P =
     (case find_seq s (p_queue P) of
        None \<Rightarrow> (Inr Missing, P)
      | Some w \<Rightarrow>
        if \<not> on_row t i w then (Inl ack_identity_changed, P)
        else
          let other = other_writes t i s (p_queue P);
              preserve = ((case p_rows P t i of Some rec \<Rightarrow> r_dirty rec | None \<Rightarrow> False)
                          \<and> list_ex (\<lambda>c. s < qw_seq c) other)
          in (Inr (Settled (if preserve then Superseded else Adopt v)),
              (set_row t i (pessimistic_row clone w v preserve (other \<noteq> []) now (p_rows P t i)) P)
                \<lparr>p_queue := drop_seq s (mark_older t i s v (p_queue P))\<rparr>))"

definition spec_bumpAttempts :: "nat \<Rightarrow> (plane, nat) op" where
  "spec_bumpAttempts s P =
     (case find_seq s (p_queue P) of
        None \<Rightarrow> (Inr 0, P)
      | Some w \<Rightarrow>
          (Inr (the (qw_attempts (bump_record w))),
           P\<lparr>p_queue := map (\<lambda>c. if qw_seq c = s then bump_record c else c) (p_queue P)\<rparr>))"

lemmas spec_defs =
  spec_get_def spec_meta_def spec_put_def spec_setMeta_def spec_del_def spec_getCursor_def
  spec_setCursor_def spec_enqueue_def spec_enqueueOptimistic_def spec_list_def spec_remove_def
  spec_settleAck_def spec_adoptEcho_def spec_resolveConflict_def spec_settlePessimistic_def
  spec_bumpAttempts_def

end
