(* ===== verification/Store_Contract.thy ===== *)
theory Store_Contract
  imports Replica
begin

text \<open>
  The interface between the sync client and a persistence adapter. \<open>makeSyncClient\<close> is
  handed a store and a queue object; \<open>store_api\<close> is the record of the methods it calls on
  them. The locales say what an adapter promises: every operation implements the abstract
  one of theory Replica or fails without effect (\<open>store_contract\<close>), and in a state with
  no storage fault ahead it does exactly what the abstract one does (\<open>reliable_store\<close>).
\<close>

section \<open>Implementing an abstract operation\<close>

text \<open>
  A transactional operation either succeeds, with the abstract operation's value and
  effect, or rejects and leaves the abstract state as it was.
\<close>

definition implements ::
    "('s \<Rightarrow> bool) \<Rightarrow> ('s \<Rightarrow> 'p) \<Rightarrow> ('s, 'a) op \<Rightarrow> ('p, 'a) op \<Rightarrow> bool" where
  "implements invar plane_of f g \<longleftrightarrow>
     (\<forall>s. invar s \<longrightarrow>
        (case f s of
           (Inl e, s') \<Rightarrow> invar s' \<and> plane_of s' = plane_of s
         | (Inr v, s') \<Rightarrow> invar s' \<and> g (plane_of s) = (Inr v, plane_of s')))"

definition implements_exactly ::
    "('s \<Rightarrow> bool) \<Rightarrow> ('s \<Rightarrow> bool) \<Rightarrow> ('s \<Rightarrow> 'p) \<Rightarrow> ('s, 'a) op \<Rightarrow> ('p, 'a) op \<Rightarrow> bool" where
  "implements_exactly invar ready plane_of f g \<longleftrightarrow>
     (\<forall>s. invar s \<longrightarrow> ready s \<longrightarrow>
        (case f s of (r, s') \<Rightarrow> invar s' \<and> ready s' \<and> g (plane_of s) = (r, plane_of s')))"

lemma implementsI:
  assumes "\<And>s e s'. invar s \<Longrightarrow> f s = (Inl e, s') \<Longrightarrow> invar s' \<and> plane_of s' = plane_of s"
    and "\<And>s v s'. invar s \<Longrightarrow> f s = (Inr v, s') \<Longrightarrow> invar s' \<and> g (plane_of s) = (Inr v, plane_of s')"
  shows "implements invar plane_of f g"
  unfolding implements_def
proof (intro allI impI)
  fix s
  assume inv: "invar s"
  obtain r s' where eq: "f s = (r, s')" by (cases "f s")
  then show "case f s of (Inl e, s') \<Rightarrow> invar s' \<and> plane_of s' = plane_of s
      | (Inr v, s') \<Rightarrow> invar s' \<and> g (plane_of s) = (Inr v, plane_of s')"
    using assms(1) [OF inv] assms(2) [OF inv] by (cases r) simp_all
qed

lemma implements_Inl:
  "implements invar plane_of f g \<Longrightarrow> invar s \<Longrightarrow> f s = (Inl e, s') \<Longrightarrow> invar s' \<and> plane_of s' = plane_of s"
  by (auto simp: implements_def)

lemma implements_Inr:
  "implements invar plane_of f g \<Longrightarrow> invar s \<Longrightarrow> f s = (Inr v, s') \<Longrightarrow>
     invar s' \<and> g (plane_of s) = (Inr v, plane_of s')"
  by (force simp: implements_def)

lemma implements_exactlyD:
  "implements_exactly invar ready plane_of f g \<Longrightarrow> invar s \<Longrightarrow> ready s \<Longrightarrow> f s = (r, s') \<Longrightarrow>
     invar s' \<and> ready s' \<and> g (plane_of s) = (r, plane_of s')"
  by (force simp: implements_exactly_def)

lemma implements_exactlyI:
  assumes "\<And>s r s'. invar s \<Longrightarrow> ready s \<Longrightarrow> f s = (r, s') \<Longrightarrow>
    invar s' \<and> ready s' \<and> g (plane_of s) = (r, plane_of s')"
  shows "implements_exactly invar ready plane_of f g"
  unfolding implements_exactly_def
proof (intro allI impI)
  fix s
  assume inv: "invar s" "ready s"
  obtain r s' where eq: "f s = (r, s')" by (cases "f s")
  then show "case f s of (r, s') \<Rightarrow> invar s' \<and> ready s' \<and> g (plane_of s) = (r, plane_of s')"
    using assms [OF inv eq] by simp
qed

text \<open>
  Reads first, one transaction last: the composition of an operation that leaves the
  abstract state alone with one that implements its continuation.
\<close>

definition reads :: "('p, 'a) op \<Rightarrow> bool" where
  "reads g \<longleftrightarrow> (\<forall>P. snd (g P) = P)"

lemma implements_bindE:
  assumes f: "implements invar plane_of f g" and rd: "reads g"
    and k: "\<And>v. implements invar plane_of (f' v) (g' v)"
  shows "implements invar plane_of (bindE f f') (bindE g g')"
proof (rule implementsI)
  fix s e s'
  assume invar: "invar s" and eq: "bindE f f' s = (Inl e, s')"
  consider "f s = (Inl e, s')" | u t where "f s = (Inr u, t)" "f' u t = (Inl e, s')"
    using eq by (auto simp: bindE_eq_Inl)
  then show "invar s' \<and> plane_of s' = plane_of s"
  proof cases
    case 1
    then show ?thesis by (rule implements_Inl [OF f invar])
  next
    case 2
    have g: "g (plane_of s) = (Inr u, plane_of t)" and t: "invar t"
      using implements_Inr [OF f invar 2(1)] by auto
    then have "plane_of t = plane_of s"
      using rd by (metis reads_def snd_conv)
    then show ?thesis
      using implements_Inl [OF k t 2(2)] by simp
  qed
next
  fix s v s'
  assume invar: "invar s" and eq: "bindE f f' s = (Inr v, s')"
  then obtain u t where ut: "f s = (Inr u, t)" "f' u t = (Inr v, s')"
    by (auto simp: bindE_eq_Inr)
  have g: "g (plane_of s) = (Inr u, plane_of t)" and t: "invar t"
    using implements_Inr [OF f invar ut(1)] by auto
  show "invar s' \<and> bindE g g' (plane_of s) = (Inr v, plane_of s')"
    using implements_Inr [OF k t ut(2)] g by simp
qed

lemma implements_ret: "implements invar plane_of (ret v) (ret v)"
  by (rule implementsI) auto

lemma implements_raise: "implements invar plane_of (raise e) g"
  by (rule implementsI) auto

lemma implements_exactly_bindE:
  assumes f: "implements_exactly invar ready plane_of f g"
    and k: "\<And>v. implements_exactly invar ready plane_of (f' v) (g' v)"
  shows "implements_exactly invar ready plane_of (bindE f f') (bindE g g')"
proof (rule implements_exactlyI)
  fix s r s'
  assume invar: "invar s" "ready s" and eq: "bindE f f' s = (r, s')"
  obtain q t where ft: "f s = (q, t)"
    by (cases "f s")
  then have t: "invar t" "ready t" "g (plane_of s) = (q, plane_of t)"
    using implements_exactlyD [OF f invar] by auto
  show "invar s' \<and> ready s' \<and> bindE g g' (plane_of s) = (r, plane_of s')"
  proof (cases q)
    case (Inl e)
    then show ?thesis using eq ft t by simp
  next
    case (Inr v)
    then have "f' v t = (r, s')"
      using eq ft by simp
    with implements_exactlyD [OF k t(1,2)] t(3) Inr show ?thesis by simp
  qed
qed

lemma implements_exactly_ret: "implements_exactly invar ready plane_of (ret v) (ret v)"
  by (rule implements_exactlyI) auto

lemma implements_exactly_raise: "implements_exactly invar ready plane_of (raise e) (raise e)"
  by (rule implements_exactlyI) auto

lemma reads_spec [simp]:
  "reads (spec_get view t i)" "reads (spec_meta t i)" "reads spec_list"
  by (simp_all add: reads_def spec_defs)

section \<open>The methods the client calls\<close>

record 's store_api =
  api_kind :: string
  api_get :: "string \<Rightarrow> string \<Rightarrow> ('s, jsval) op"
  api_meta :: "string \<Rightarrow> string \<Rightarrow> ('s, local_row option) op"
  api_put :: "string \<Rightarrow> string \<Rightarrow> jsval \<Rightarrow> int \<Rightarrow> bool \<Rightarrow> int \<Rightarrow> ('s, unit) op"
  api_del :: "string \<Rightarrow> string \<Rightarrow> ('s, unit) op"
  api_all :: "string \<Rightarrow> ('s, jsval list) op"
  api_get_cursor :: "string \<Rightarrow> ('s, int) op"
  api_set_cursor :: "int \<Rightarrow> string \<Rightarrow> ('s, int) op"
  api_enqueue :: "sync_write \<Rightarrow> ('s, nat) op"
  api_enqueue_optimistic :: "sync_write \<Rightarrow> jsval \<Rightarrow> int \<Rightarrow> ('s, nat) op"
  api_list :: "('s, queued_write list) op"
  api_settle_ack :: "string \<Rightarrow> string \<Rightarrow> nat \<Rightarrow> int \<Rightarrow> int \<Rightarrow> ('s, settle_outcome) op"
  api_settle_pessimistic :: "string \<Rightarrow> string \<Rightarrow> nat \<Rightarrow> int \<Rightarrow> int \<Rightarrow> ('s, settle_outcome) op"
  api_adopt_echo :: "change_event \<Rightarrow> nat \<Rightarrow> int \<Rightarrow> ('s, bool) op"
  api_resolve_conflict :: "change_event \<Rightarrow> nat list \<Rightarrow> int \<Rightarrow> ('s, unit) op"
  api_bump_attempts :: "nat \<Rightarrow> ('s, nat) op"

section \<open>The contract\<close>

locale store_contract =
  fixes api :: "'s store_api"
    and clone :: "jsval \<Rightarrow> jsval"
    and view :: "jsval \<Rightarrow> jsval"
    and invar :: "'s \<Rightarrow> bool"
    and plane_of :: "'s \<Rightarrow> plane"
  assumes get_ok: "implements invar plane_of (api_get api t i) (spec_get view t i)"
    and meta_ok: "implements invar plane_of (api_meta api t i) (spec_meta t i)"
    and put_ok: "implements invar plane_of (api_put api t i row v d now) (spec_put clone t i row v d now)"
    and del_ok: "implements invar plane_of (api_del api t i) (spec_del t i)"
    and get_cursor_ok: "implements invar plane_of (api_get_cursor api sc) (spec_getCursor sc)"
    and set_cursor_ok: "implements invar plane_of (api_set_cursor api c sc) (spec_setCursor c sc)"
    and enqueue_ok: "implements invar plane_of (api_enqueue api w) (spec_enqueue clone w)"
    and enqueue_optimistic_ok:
      "implements invar plane_of (api_enqueue_optimistic api w row now)
         (spec_enqueueOptimistic clone w row now)"
    and list_ok: "implements invar plane_of (api_list api) spec_list"
    and settle_ack_ok:
      "implements invar plane_of (api_settle_ack api t i s v now) (spec_settleAck t i s v now)"
    and settle_pessimistic_ok:
      "implements invar plane_of (api_settle_pessimistic api t i s v now)
         (spec_settlePessimistic clone t i s v now)"
    and adopt_echo_ok:
      "implements invar plane_of (api_adopt_echo api ev s now) (spec_adoptEcho clone ev s now)"
    and resolve_conflict_ok:
      "implements invar plane_of (api_resolve_conflict api ev ss now) (spec_resolveConflict clone ev ss now)"
    and bump_attempts_ok: "implements invar plane_of (api_bump_attempts api s) (spec_bumpAttempts s)"
    and all_ok: "invar st \<Longrightarrow> api_all api t st = (res, st') \<Longrightarrow> invar st' \<and> plane_of st' = plane_of st"
    and clone_idem: "clone (clone x) = clone x"
begin

lemmas store_ok =
  get_ok meta_ok put_ok del_ok get_cursor_ok set_cursor_ok enqueue_ok enqueue_optimistic_ok
  list_ok settle_ack_ok settle_pessimistic_ok adopt_echo_ok resolve_conflict_ok bump_attempts_ok

end

locale reliable_store = store_contract api clone view invar plane_of
  for api :: "'s store_api" and clone view :: "jsval \<Rightarrow> jsval"
    and invar :: "'s \<Rightarrow> bool" and plane_of :: "'s \<Rightarrow> plane" +
  fixes tables :: "string set"
    and ready :: "'s \<Rightarrow> bool"
  assumes get_exact: "t \<in> tables \<Longrightarrow>
      implements_exactly invar ready plane_of (api_get api t i) (spec_get view t i)"
    and meta_exact: "t \<in> tables \<Longrightarrow>
      implements_exactly invar ready plane_of (api_meta api t i) (spec_meta t i)"
    and put_exact: "t \<in> tables \<Longrightarrow>
      implements_exactly invar ready plane_of (api_put api t i row v d now) (spec_put clone t i row v d now)"
    and del_exact: "t \<in> tables \<Longrightarrow>
      implements_exactly invar ready plane_of (api_del api t i) (spec_del t i)"
    and get_cursor_exact: "implements_exactly invar ready plane_of (api_get_cursor api sc) (spec_getCursor sc)"
    and set_cursor_exact:
      "implements_exactly invar ready plane_of (api_set_cursor api c sc) (spec_setCursor c sc)"
    and enqueue_exact: "implements_exactly invar ready plane_of (api_enqueue api w) (spec_enqueue clone w)"
    and enqueue_optimistic_exact: "qw_table w \<in> tables \<Longrightarrow>
      implements_exactly invar ready plane_of (api_enqueue_optimistic api w row now)
         (spec_enqueueOptimistic clone w row now)"
    and list_exact: "implements_exactly invar ready plane_of (api_list api) spec_list"
    and settle_ack_exact: "t \<in> tables \<Longrightarrow>
      implements_exactly invar ready plane_of (api_settle_ack api t i s v now) (spec_settleAck t i s v now)"
    and settle_pessimistic_exact: "t \<in> tables \<Longrightarrow>
      implements_exactly invar ready plane_of (api_settle_pessimistic api t i s v now)
         (spec_settlePessimistic clone t i s v now)"
    and adopt_echo_exact: "ev_table ev \<in> tables \<Longrightarrow>
      implements_exactly invar ready plane_of (api_adopt_echo api ev s now) (spec_adoptEcho clone ev s now)"
    and resolve_conflict_exact: "ev_table ev \<in> tables \<Longrightarrow>
      implements_exactly invar ready plane_of (api_resolve_conflict api ev ss now)
         (spec_resolveConflict clone ev ss now)"
    and bump_attempts_exact:
      "implements_exactly invar ready plane_of (api_bump_attempts api s) (spec_bumpAttempts s)"
begin

lemmas store_exact =
  get_exact meta_exact put_exact del_exact get_cursor_exact set_cursor_exact enqueue_exact
  enqueue_optimistic_exact list_exact settle_ack_exact settle_pessimistic_exact adopt_echo_exact
  resolve_conflict_exact bump_attempts_exact

end

end
