(* ===== verification/Deep_Merge.thy ===== *)
theory Deep_Merge
  imports Sync_Prelude
begin

text \<open>
  The patch merge of merge.mjs: \<open>deepMerge\<close> with its depth cap and its list of keys that
  are never merged. Shown: what the result holds under every key, that merging is
  idempotent and keeps objects well-formed, and that below the cap it is the plain
  recursive merge.
\<close>

definition POLLUTING_KEYS :: "string list" where
  "POLLUTING_KEYS = [''__proto__'', ''constructor'', ''prototype'']"

definition MAX_DEPTH :: nat where "MAX_DEPTH = 64"

definition isPlainObject :: "jsval \<Rightarrow> bool" where
  "isPlainObject v \<longleftrightarrow> is_plain v"

text \<open>
  \<open>merge_keys\<close> is the loop over \<^verbatim>\<open>Object.keys(patch)\<close>; its first argument is \<open>out\<close>.
\<close>

fun mergeInto :: "jsval \<Rightarrow> jsval \<Rightarrow> nat \<Rightarrow> jsval"
  and merge_keys :: "props \<Rightarrow> props \<Rightarrow> nat \<Rightarrow> props" where
  "mergeInto base (JObj patch) depth =
     (case base of
        JObj b \<Rightarrow> if MAX_DEPTH \<le> depth then JObj patch else JObj (merge_keys b patch depth)
      | _ \<Rightarrow> JObj patch)"
| "mergeInto base patch depth = (if patch = JUndef then base else patch)"
| "merge_keys out [] depth = out"
| "merge_keys out ((key, nxt) # rest) depth =
     merge_keys
       (if key \<in> set POLLUTING_KEYS \<or> nxt = JUndef then out
        else js_set key
          (if isPlainObject nxt \<and> isPlainObject (js_get out key)
           then mergeInto (js_get out key) nxt (depth + 1) else nxt) out)
       rest depth"

definition deepMerge :: "jsval \<Rightarrow> jsval \<Rightarrow> jsval" where
  "deepMerge base patch = mergeInto base patch 0"

section \<open>Well-formed values\<close>

text \<open>An object has each of its keys once, at every level.\<close>

fun wf_val :: "jsval \<Rightarrow> bool" and wf_vals :: "jsval list \<Rightarrow> bool" and wf_props :: "props \<Rightarrow> bool" where
  "wf_val (JArr xs) = wf_vals xs"
| "wf_val (JObj ps) = (distinct (map fst ps) \<and> wf_props ps)"
| "wf_val (JOpaque c j) = wf_val j"
| "wf_val _ = True"
| "wf_vals [] = True"
| "wf_vals (x # xs) = (wf_val x \<and> wf_vals xs)"
| "wf_props [] = True"
| "wf_props ((k, v) # ps) = (wf_val v \<and> wf_props ps)"

lemma wf_props_iff: "wf_props ps \<longleftrightarrow> (\<forall>(k, v) \<in> set ps. wf_val v)"
  by (induction ps) auto

lemma wf_js_get: "wf_props ps \<Longrightarrow> wf_val (js_get ps k)"
  by (induction ps) auto

lemma wf_props_js_set: "wf_props ps \<Longrightarrow> wf_val v \<Longrightarrow> wf_props (js_set k v ps)"
  by (induction ps) auto

lemma js_get_absent: "k \<notin> fst ` set ps \<Longrightarrow> js_get ps k = JUndef"
  by (induction ps) auto

text \<open>The result is well-formed again, in whichever order the keys come.\<close>

lemma merge_wf:
  "wf_val base \<Longrightarrow> wf_val patch \<Longrightarrow> wf_val (mergeInto base patch depth)"
  "wf_val (JObj out) \<Longrightarrow> wf_val (JObj ps) \<Longrightarrow> wf_val (JObj (merge_keys out ps depth))"
proof (induction base patch depth and out ps depth rule: mergeInto_merge_keys.induct)
  case (1 base patch depth)
  then show ?case by (cases base) auto
qed (auto simp: distinct_js_set wf_props_js_set wf_js_get)

section \<open>What the result holds\<close>

text \<open>
  One key of the result, as the header of merge.mjs describes it: the base's value for a
  key the patch leaves alone, the recursive merge of two objects, the patch's value
  otherwise.
\<close>

definition merged_value :: "props \<Rightarrow> props \<Rightarrow> nat \<Rightarrow> string \<Rightarrow> jsval" where
  "merged_value b p depth k =
     (if k \<in> set POLLUTING_KEYS \<or> js_get p k = JUndef then js_get b k
      else if isPlainObject (js_get p k) \<and> isPlainObject (js_get b k)
      then mergeInto (js_get b k) (js_get p k) (depth + 1)
      else js_get p k)"

lemma merge_keys_get:
  "distinct (map fst p) \<Longrightarrow> js_get (merge_keys b p depth) k = merged_value b p depth k"
proof (induction p arbitrary: b)
  case Nil
  then show ?case by (simp add: merged_value_def)
next
  case (Cons kv p)
  obtain key nxt where kv: "kv = (key, nxt)" by (cases kv)
  have "js_get p key = JUndef"
    using Cons.prems kv by (intro js_get_absent) auto
  with Cons show ?case by (auto simp: kv merged_value_def)
qed

text \<open>Merging a value into itself, and merging a patch twice.\<close>

lemma merge_self:
  "wf_val v \<Longrightarrow> mergeInto v v depth = v"
  "wf_vals xs \<Longrightarrow> True"
  "distinct (map fst ps) \<Longrightarrow> wf_props ps \<Longrightarrow>
     \<forall>(k, v) \<in> set ps. \<forall>d. mergeInto v v d = v"
proof (induction v and xs and ps arbitrary: depth and depth and depth rule: wf_val_wf_vals_wf_props.induct)
  case (2 ps)
  have sub: "merge_keys out qs d = out"
    if "set qs \<subseteq> set ps" "\<forall>(k, v) \<in> set qs. js_get out k = v" for qs out d
    using that
  proof (induction qs)
    case Nil
    then show ?case by simp
  next
    case (Cons kv qs)
    obtain k v where kv: "kv = (k, v)" by (cases kv)
    have v: "mergeInto v v (Suc d) = v" "js_get out k = v"
      using 2 Cons.prems kv by auto
    have "k \<in> fst ` set out" if "v \<noteq> JUndef"
      using v(2) js_get_absent [of k out] that by auto
    then have "js_set k v out = out" if "v \<noteq> JUndef"
      using js_set_same v(2) that by blast
    then show ?case
      using Cons v by (auto simp: kv)
  qed
  have "\<forall>(k, v) \<in> set ps. js_get ps k = v"
    using 2(2) by (auto simp: js_get_def)
  then show ?case using sub [of ps ps] by simp
qed auto

text \<open>A patch whose every key already reads as the loop would leave it changes nothing.\<close>

definition key_merged :: "props \<Rightarrow> nat \<Rightarrow> string \<Rightarrow> jsval \<Rightarrow> bool" where
  "key_merged out depth k v \<longleftrightarrow> k \<in> set POLLUTING_KEYS \<or> v = JUndef \<or>
     js_get out k \<noteq> JUndef \<and>
     (if isPlainObject v \<and> isPlainObject (js_get out k)
      then mergeInto (js_get out k) v (depth + 1) else v) = js_get out k"

lemma merge_keys_fix:
  "\<forall>(k, v) \<in> set ps. key_merged out depth k v \<Longrightarrow> merge_keys out ps depth = out"
proof (induction ps)
  case Nil
  then show ?case by simp
next
  case (Cons kv ps)
  obtain k v where kv: "kv = (k, v)" by (cases kv)
  have IH: "merge_keys out ps depth = out" and m: "key_merged out depth k v"
    using Cons by (simp_all add: kv)
  show ?case
  proof (cases "k \<in> set POLLUTING_KEYS \<or> v = JUndef")
    case True
    then show ?thesis using IH by (simp add: kv)
  next
    case False
    let ?x = "if isPlainObject v \<and> isPlainObject (js_get out k)
      then mergeInto (js_get out k) v (depth + 1) else v"
    have x: "js_get out k \<noteq> JUndef" "?x = js_get out k"
      using m False by (simp_all add: key_merged_def)
    have "k \<in> fst ` set out"
      using x(1) js_get_absent [of k out] by blast
    then have same: "js_set k ?x out = out"
      using js_set_same x(2) by simp
    have "merge_keys out (kv # ps) depth = merge_keys (js_set k ?x out) ps depth"
      using False by (simp add: kv)
    then show ?thesis unfolding same by (simp only: IH)
  qed
qed

lemma plain_merge: "isPlainObject p \<Longrightarrow> isPlainObject (mergeInto b p depth)"
  by (cases p; cases b) (auto simp: isPlainObject_def)

lemma merge_again:
  "wf_val b \<Longrightarrow> wf_val p \<Longrightarrow> mergeInto (mergeInto b p depth) p depth = mergeInto b p depth"
proof (induction p arbitrary: b depth)
  case (JObj ps)
  show ?case
  proof (cases "isPlainObject b \<and> depth < MAX_DEPTH")
    case False
    then have "mergeInto b (JObj ps) depth = JObj ps"
      by (cases b) (auto simp: isPlainObject_def)
    then show ?thesis using merge_self(1) [OF JObj.prems(2)] by simp
  next
    case True
    then obtain bs where b: "b = JObj bs" and d: "\<not> MAX_DEPTH \<le> depth"
      by (cases b) (auto simp: isPlainObject_def)
    define out where "out = merge_keys bs ps depth"
    have dist: "distinct (map fst ps)" and wfp: "wf_props ps" and wfb: "wf_props bs"
      using JObj.prems by (auto simp: b)
    have "key_merged out depth k v" if kv: "(k, v) \<in> set ps" for k v
    proof (cases "k \<in> set POLLUTING_KEYS \<or> v = JUndef")
      case True
      then show ?thesis by (auto simp: key_merged_def)
    next
      case False
      have v: "js_get ps k = v"
        using dist kv by (simp add: js_get_def)
      have out: "js_get out k = (if isPlainObject v \<and> isPlainObject (js_get bs k)
          then mergeInto (js_get bs k) v (depth + 1) else v)"
        using merge_keys_get [OF dist] False by (simp add: out_def merged_value_def v)
      have wfv: "wf_val v" using wfp kv by (auto simp: wf_props_iff)
      have IH: "mergeInto (mergeInto (js_get bs k) v (depth + 1)) v (depth + 1) =
          mergeInto (js_get bs k) v (depth + 1)"
        by (rule JObj.IH [of "(k, v)" v]) (use kv wfv wfb in \<open>auto simp: wf_js_get\<close>)
      show ?thesis
      proof (cases "isPlainObject v \<and> isPlainObject (js_get bs k)")
        case True
        then have "js_get out k = mergeInto (js_get bs k) v (depth + 1)"
          using out by simp
        then show ?thesis
          using IH plain_merge [of v "js_get bs k" "depth + 1"] True
          by (auto simp: key_merged_def isPlainObject_def)
      next
        case no: False
        then have "js_get out k = v" using out by auto
        then show ?thesis using merge_self(1) [OF wfv] False by (simp add: key_merged_def)
      qed
    qed
    then have "merge_keys out ps depth = out"
      by (intro merge_keys_fix) blast
    then show ?thesis using d by (simp add: b out_def)
  qed
qed simp_all

section \<open>The object the loop builds\<close>

text \<open>
  The base's properties keep their places; what the patch adds follows in its own order.
\<close>

definition merge_object :: "props \<Rightarrow> props \<Rightarrow> nat \<Rightarrow> props" where
  "merge_object b p depth =
     map (\<lambda>(k, _). (k, merged_value b p depth k)) b @
     filter (\<lambda>(k, v). k \<notin> fst ` set b \<and> k \<notin> set POLLUTING_KEYS \<and> v \<noteq> JUndef) p"

lemma js_set_map:
  "k \<in> fst ` set b \<Longrightarrow> distinct (map fst b) \<Longrightarrow> js_set k x b = map (\<lambda>(k', v). (k', if k' = k then x else v)) b"
proof (induction b)
  case Nil
  then show ?case by simp
next
  case (Cons kv b)
  have "map (\<lambda>(k', v). (k', if k' = k then x else v)) b = b" if "k \<notin> fst ` set b"
    by (rule map_idI) (use that in force)
  with Cons show ?case by (cases kv) auto
qed

lemma js_set_append: "k \<notin> fst ` set b \<Longrightarrow> js_set k x b = b @ [(k, x)]"
  by (induction b) auto

lemma map_get: "distinct (map fst b) \<Longrightarrow> map (\<lambda>(k, _). (k, js_get b k)) b = b"
  by (rule map_idI) (auto simp: js_get_def)

lemma merged_value_Cons:
  assumes "key \<notin> fst ` set p"
  shows "merged_value b ((key, nxt) # p) depth k =
    (if k \<noteq> key then merged_value b p depth k
     else if key \<in> set POLLUTING_KEYS \<or> nxt = JUndef then js_get b key
     else if isPlainObject nxt \<and> isPlainObject (js_get b key)
     then mergeInto (js_get b key) nxt (depth + 1) else nxt)"
  by (auto simp: merged_value_def)

lemma merge_keys_object:
  "distinct (map fst b) \<Longrightarrow> distinct (map fst p) \<Longrightarrow> merge_keys b p depth = merge_object b p depth"
proof (induction p arbitrary: b)
  case Nil
  then show ?case by (simp add: merge_object_def merged_value_def map_get)
next
  case (Cons kv p)
  obtain key nxt where kv: "kv = (key, nxt)" by (cases kv)
  have new: "key \<notin> fst ` set p" and dp: "distinct (map fst p)"
    using Cons.prems kv by auto
  have absent: "js_get p key = JUndef" by (rule js_get_absent [OF new])
  show ?case
  proof (cases "key \<in> set POLLUTING_KEYS \<or> nxt = JUndef")
    case True
    have "merged_value b (kv # p) depth k = merged_value b p depth k" for k
      using True absent by (auto simp: kv merged_value_def)
    then have "merge_object b (kv # p) depth = merge_object b p depth"
      using True by (auto simp: merge_object_def kv)
    then show ?thesis using True Cons.IH [OF Cons.prems(1) dp] by (auto simp: kv)
  next
    case False
    let ?x = "if isPlainObject nxt \<and> isPlainObject (js_get b key)
        then mergeInto (js_get b key) nxt (depth + 1) else nxt"
    let ?b = "js_set key ?x b"
    have mv: "merged_value ?b p depth k = merged_value b (kv # p) depth k" for k
      using False absent by (auto simp: kv merged_value_def)
    have tail: "filter (\<lambda>(k, v). k \<notin> fst ` set ?b \<and> k \<notin> set POLLUTING_KEYS \<and> v \<noteq> JUndef) p =
        filter (\<lambda>(k, v). k \<notin> fst ` set b \<and> k \<notin> set POLLUTING_KEYS \<and> v \<noteq> JUndef) p"
    proof (rule filter_cong [OF refl])
      fix e assume "e \<in> set p"
      then have "fst e \<noteq> key" using new by force
      then show "(case e of (k, v) \<Rightarrow> k \<notin> fst ` set ?b \<and> k \<notin> set POLLUTING_KEYS \<and> v \<noteq> JUndef) =
          (case e of (k, v) \<Rightarrow> k \<notin> fst ` set b \<and> k \<notin> set POLLUTING_KEYS \<and> v \<noteq> JUndef)"
        unfolding keys_js_set by (cases e) simp
    qed
    have "merge_keys b (kv # p) depth = merge_object ?b p depth"
      using False Cons.IH [of ?b] Cons.prems(1) dp by (simp add: kv distinct_js_set)
    also have "\<dots> = merge_object b (kv # p) depth"
    proof (cases "key \<in> fst ` set b")
      case True
      have keep: "map (\<lambda>(k, _). (k, f k)) ?b = map (\<lambda>(k, _). (k, f k)) b" for f
        unfolding js_set_map [OF True Cons.prems(1)] by (induction b) auto
      show ?thesis unfolding merge_object_def mv tail keep using True by (simp add: kv)
    next
      case new_key: False
      have "merged_value b (kv # p) depth key = nxt"
        using False js_get_absent [OF new_key] by (simp add: kv merged_value_def isPlainObject_def)
      with new_key False show ?thesis
        unfolding merge_object_def mv tail by (simp add: kv js_set_append)
    qed
    finally show ?thesis .
  qed
qed

section \<open>The depth cap\<close>

text \<open>The merge without a cap, and how deeply a patch nests objects.\<close>

fun plainMerge :: "jsval \<Rightarrow> jsval \<Rightarrow> jsval" and plain_keys :: "props \<Rightarrow> props \<Rightarrow> props" where
  "plainMerge base (JObj patch) = (case base of JObj b \<Rightarrow> JObj (plain_keys b patch) | _ \<Rightarrow> JObj patch)"
| "plainMerge base patch = (if patch = JUndef then base else patch)"
| "plain_keys out [] = out"
| "plain_keys out ((key, nxt) # rest) =
     plain_keys
       (if key \<in> set POLLUTING_KEYS \<or> nxt = JUndef then out
        else js_set key
          (if isPlainObject nxt \<and> isPlainObject (js_get out key)
           then plainMerge (js_get out key) nxt else nxt) out)
       rest"

fun nesting :: "jsval \<Rightarrow> nat" and nesting_props :: "props \<Rightarrow> nat" where
  "nesting (JObj ps) = Suc (nesting_props ps)"
| "nesting v = 0"
| "nesting_props [] = 0"
| "nesting_props ((k, v) # ps) = max (nesting v) (nesting_props ps)"

lemma merge_uncapped:
  "nesting p + depth \<le> MAX_DEPTH \<Longrightarrow> mergeInto b p depth = plainMerge b p"
  "nesting_props ps + depth < MAX_DEPTH \<Longrightarrow> merge_keys out ps depth = plain_keys out ps"
proof (induction b p depth and out ps depth rule: mergeInto_merge_keys.induct)
  case (1 base patch depth)
  then show ?case by (cases base) auto
next
  case (4 out key nxt rest depth)
  have n: "nesting nxt + (depth + 1) \<le> MAX_DEPTH" "nesting_props rest + depth < MAX_DEPTH"
    using 4(3) by simp_all
  note rest = 4(2) [OF n(2)]
  show ?case
  proof (cases "key \<in> set POLLUTING_KEYS \<or> nxt = JUndef")
    case True
    then show ?thesis using rest by simp
  next
    case False
    then show ?thesis
      using rest 4(1) [OF False _ n(1)] by (cases "isPlainObject nxt \<and> isPlainObject (js_get out key)") auto
  qed
qed auto

section \<open>Properties\<close>



text \<open>
  Applying the same patch twice is applying it once, at any nesting: a retried patch
  cannot drift.
\<close>
lemma deepMerge_idempotent:
  assumes "wf_val b" and "wf_val p"
  shows "deepMerge (deepMerge b p) p = deepMerge b p"
  using assms unfolding deepMerge_def by (rule merge_again)

text \<open>
  C25. The depth cap is invisible for patches that nest objects at most 64 deep: there the
  merge is the plain recursive merge, whatever the base.
\<close>
theorem deepMerge_uncapped:
  assumes "nesting p \<le> MAX_DEPTH"
  shows "deepMerge b p = plainMerge b p"
  using assms by (simp add: deepMerge_def merge_uncapped)

theorem deepMerge_uncapped_witness:
  "deepMerge (JObj [(''a'', JObj [])]) (JObj [(''a'', JObj [(''b'', JNull)])]) =
   plainMerge (JObj [(''a'', JObj [])]) (JObj [(''a'', JObj [(''b'', JNull)])])"
  by (rule deepMerge_uncapped) code_simp

text \<open>
  The polluting keys are skipped only where the merge descends: a nested object that
  replaces a missing value is taken over whole, its polluting keys included.
\<close>
lemma deepMerge_adopts_nested:
  "deepMerge (JObj []) (JObj [(''a'', JObj [(''__proto__'', JBool True)])]) =
   JObj [(''a'', JObj [(''__proto__'', JBool True)])]"
  by code_simp

end
