(* ===== verification/Telemetry.thy ===== *)
theory Telemetry
  imports Sync_Core
begin

text \<open>
  Observability: what the client offers to an injected telemetry object (client.mjs,
  \<open>beginTelemetry\<close>, \<open>reportTelemetry\<close> and the span calls), and the OpenTelemetry
  adapter of telemetry.mjs.
\<close>

section \<open>The hooks the client calls\<close>

record tel_context =
  tc_table :: string
  tc_op :: change_op
  tc_strategy :: write_strategy
  tc_storage :: string

record tel_event =
  te_phase :: phase
  te_strategy :: write_strategy
  te_table :: string
  te_op :: change_op
  te_at_ms :: int
  te_attempts :: "nat option"
  te_error_type :: "string option"

text \<open>
  The injected object is application code. What the client relies on is which of its
  calls throw: \<open>sk_start\<close> gives the span, or none where the hook is missing, throws or
  returns nothing; \<open>sk_emit\<close> tells whether \<^verbatim>\<open>emit\<close> returns; a span's \<^verbatim>\<open>error\<close> and \<^verbatim>\<open>end\<close>
  are given by the error they throw, if any. The log holds the calls in order.
\<close>

record span =
  sp_error :: "string \<Rightarrow> js_error option"
  sp_end :: "js_error option"

record sink =
  sk_start :: "tel_context \<Rightarrow> span option"
  sk_emit :: "tel_event \<Rightarrow> bool"

datatype tel_item =
    Tel_start tel_context
  | Tel_emit tel_event tel_context
  | Tel_span_event phase "nat option" "string option"
  | Tel_span_error string
  | Tel_span_end

text \<open>A sink whose spans never throw.\<close>

definition quiet_span :: "span option \<Rightarrow> bool" where
  "quiet_span sp \<longleftrightarrow>
     (case sp of None \<Rightarrow> True | Some x \<Rightarrow> sp_end x = None \<and> (\<forall>n. sp_error x n = None))"

definition quiet_sink :: "sink \<Rightarrow> bool" where
  "quiet_sink sk \<longleftrightarrow> (\<forall>ctx. quiet_span (sk_start sk ctx))"

section \<open>The OpenTelemetry adapter\<close>

type_synonym attrs = "(string \<times> jsval) list"

definition op_name :: "change_op \<Rightarrow> string" where
  "op_name p = (case p of Upsert \<Rightarrow> ''upsert'' | Delete \<Rightarrow> ''delete'')"

definition strategy_name :: "write_strategy \<Rightarrow> string" where
  "strategy_name s = (case s of LocalQueue \<Rightarrow> ''local_queue'' | Optimistic \<Rightarrow> ''optimistic''
     | Pessimistic \<Rightarrow> ''pessimistic'')"

definition phase_name :: "phase \<Rightarrow> string" where
  "phase_name p = (case p of LocalQueued \<Rightarrow> ''local_queued'' | SendStarted \<Rightarrow> ''send_started''
     | Acknowledged \<Rightarrow> ''acknowledged'' | Failed \<Rightarrow> ''failed'' | RetryScheduled \<Rightarrow> ''retry_scheduled''
     | ConflictResolved \<Rightarrow> ''conflict_resolved'')"

definition attributes :: "tel_context \<Rightarrow> attrs" where
  "attributes context =
     [(''db.system.name'', JStr (tc_storage context)),
      (''db.collection.name'', JStr (tc_table context)),
      (''db.operation.name'', JStr (op_name (tc_op context))),
      (''fiducia.sync.strategy'', JStr (strategy_name (tc_strategy context)))]"

fun severityFor :: "phase \<Rightarrow> nat \<times> string" where
  "severityFor Failed = (17, ''ERROR'')"
| "severityFor RetryScheduled = (13, ''WARN'')"
| "severityFor ConflictResolved = (13, ''WARN'')"
| "severityFor _ = (9, ''INFO'')"

text \<open>The attributes \<^verbatim>\<open>emit\<close> sends to the counter and the logger; an empty type is left out.\<close>

definition eventAttributes :: "tel_event \<Rightarrow> tel_context \<Rightarrow> attrs" where
  "eventAttributes event context =
     attributes context @
     [(''fiducia.sync.phase'', JStr (phase_name (te_phase event))),
      (''fiducia.sync.attempts'', JNum (num (int (case te_attempts event of Some n \<Rightarrow> n | None \<Rightarrow> 0))))] @
     (case te_error_type event of
        Some t \<Rightarrow> if t = [] then [] else [(''error.type'', JStr t)]
      | None \<Rightarrow> [])"

record otel_log =
  ol_severity :: "nat \<times> string"
  ol_body :: string
  ol_attributes :: attrs

definition otel_emit :: "tel_event \<Rightarrow> tel_context \<Rightarrow> attrs \<times> otel_log" where
  "otel_emit event context =
     (eventAttributes event context,
      \<lparr>ol_severity = severityFor (te_phase event),
       ol_body = ''fiducia.sync.'' @ phase_name (te_phase event),
       ol_attributes = eventAttributes event context\<rparr>)"

lemma phase_name_inj: "phase_name p = phase_name q \<Longrightarrow> p = q"
  by (cases p; cases q) (simp_all add: phase_name_def)

text \<open>
  What reaches OpenTelemetry names the storage, table, operation, strategy, phase,
  attempts and error type only: the attribute keys are fixed, every string value is one of
  the given names, and neither row ids, payloads nor error messages occur.
\<close>
lemma otel_emit_bounded:
  "fst (otel_emit event context) = ol_attributes (snd (otel_emit event context)) \<and>
   map fst (fst (otel_emit event context)) \<in>
     {[''db.system.name'', ''db.collection.name'', ''db.operation.name'', ''fiducia.sync.strategy'',
       ''fiducia.sync.phase'', ''fiducia.sync.attempts''],
      [''db.system.name'', ''db.collection.name'', ''db.operation.name'', ''fiducia.sync.strategy'',
       ''fiducia.sync.phase'', ''fiducia.sync.attempts'', ''error.type'']} \<and>
   {s. JStr s \<in> snd ` set (fst (otel_emit event context))} \<subseteq>
     {tc_storage context, tc_table context, op_name (tc_op context),
      strategy_name (tc_strategy context), phase_name (te_phase event)} \<union> set_option (te_error_type event) \<and>
   fst (ol_severity (snd (otel_emit event context))) \<in> {9, 13, 17}"
  by (cases "te_error_type event"; cases "te_phase event")
    (auto simp: otel_emit_def eventAttributes_def attributes_def)

end
