(* ===== verification/Sync_Client.thy ===== *)
theory Sync_Client
  imports Store_Contract Deep_Merge Telemetry
begin

text \<open>
  The sync client (client.mjs, \<open>makeSyncClient\<close>) over any adapter: reconciling an incoming
  change, policy-driven writes, flushing the queue and hydrating a snapshot. A gate body
  (\<open>mutate\<close>) is one operation; sends run between gate bodies and are operations of their
  own, so whatever lands while a request is in flight is part of the send.
\<close>

section \<open>State and configuration\<close>

record 's client =
  cl_store :: 's
  cl_log :: "tel_item list"

datatype mutation = Replace | Merge

record write_context =
  wc_table :: string
  wc_op :: change_op
  wc_mutation :: mutation

text \<open>
  \<open>cfg_resolve\<close> is \<open>resolveWritePolicy\<close>, application code that may throw; it gives
  \<open>JUndef\<close> where none is configured.
\<close>

record config =
  cfg_default :: write_policy
  cfg_resolve :: "write_context \<Rightarrow> jsval res"
  cfg_sink :: sink

definition makeSyncClient :: "jsval \<Rightarrow> (write_context \<Rightarrow> jsval res) \<Rightarrow> sink \<Rightarrow> config res" where
  "makeSyncClient writePolicy resolveWritePolicy telemetry =
     (case validateWritePolicy (if writePolicy = JUndef then DEFAULT_WRITE_POLICY else writePolicy) of
        Inl e \<Rightarrow> Inl e
      | Inr p \<Rightarrow> Inr \<lparr>cfg_default = p, cfg_resolve = resolveWritePolicy, cfg_sink = telemetry\<rparr>)"

definition policyFor :: "config \<Rightarrow> write_context \<Rightarrow> jsval \<Rightarrow> write_policy res" where
  "policyFor cfg context override =
     (if \<not> is_nullish override then validateWritePolicy override
      else case cfg_resolve cfg context of
        Inl e \<Rightarrow> Inl e
      | Inr v \<Rightarrow> validateWritePolicy (coalesce v (policy_value (cfg_default cfg))))"

section \<open>Operations on the client's state\<close>

definition on_store :: "('s, 'a) op \<Rightarrow> ('s client, 'a) op" where
  "on_store f c = (case f (cl_store c) of (r, s) \<Rightarrow> (r, c\<lparr>cl_store := s\<rparr>))"

definition lift_res :: "'a res \<Rightarrow> ('s, 'a) op" where
  "lift_res r s = (r, s)"

definition tell :: "tel_item list \<Rightarrow> ('s client, unit) op" where
  "tell xs c = (Inr (), c\<lparr>cl_log := cl_log c @ xs\<rparr>)"

text \<open>\<^verbatim>\<open>try { f } catch (err) { h(err) }\<close>: the state keeps what \<open>f\<close> had done.\<close>

definition catchE :: "('s, 'a) op \<Rightarrow> (js_error \<Rightarrow> ('s, 'a) op) \<Rightarrow> ('s, 'a) op" where
  "catchE f h s = (case f s of (Inl e, s') \<Rightarrow> h e s' | (Inr v, s') \<Rightarrow> (Inr v, s'))"

definition telemetryContext :: "'s store_api \<Rightarrow> write_context \<Rightarrow> write_policy \<Rightarrow> tel_context" where
  "telemetryContext api context policy =
     \<lparr>tc_table = wc_table context, tc_op = wc_op context, tc_strategy = pol_strategy policy,
      tc_storage = api_kind api\<rparr>"

definition beginTelemetry ::
    "config \<Rightarrow> 's store_api \<Rightarrow> write_context \<Rightarrow> write_policy \<Rightarrow> ('s client, span option) op" where
  "beginTelemetry cfg api context policy =
     (if pol_telemetry policy \<noteq> TelLifecycle \<and> pol_telemetry policy \<noteq> TelVerbose then ret None
      else bindE (tell [Tel_start (telemetryContext api context policy)])
             (\<lambda>_. ret (sk_start (cfg_sink cfg) (telemetryContext api context policy))))"

text \<open>Errors of the hooks end the report; the caller goes on.\<close>

definition reportTelemetry ::
    "config \<Rightarrow> 's store_api \<Rightarrow> write_context \<Rightarrow> write_policy \<Rightarrow> phase \<Rightarrow> nat option \<Rightarrow> string option \<Rightarrow>
     span option \<Rightarrow> int \<Rightarrow> ('s client, unit) op" where
  "reportTelemetry cfg api context policy ph attempts error_type sp now =
     (if \<not> shouldEmit (pol_telemetry policy) ph then ret ()
      else
        let event = \<lparr>te_phase = ph, te_strategy = pol_strategy policy, te_table = wc_table context,
              te_op = wc_op context, te_at_ms = now, te_attempts = attempts, te_error_type = error_type\<rparr>
        in tell (Tel_emit event (telemetryContext api context policy) #
             (if sk_emit (cfg_sink cfg) event \<and> sp \<noteq> None
              then [Tel_span_event ph attempts error_type] else [])))"

text \<open>\<^verbatim>\<open>span?.end?.()\<close> and \<^verbatim>\<open>span?.error?.(type)\<close>; these calls are not guarded.\<close>

definition span_end :: "span option \<Rightarrow> ('s client, unit) op" where
  "span_end sp =
     (case sp of None \<Rightarrow> ret ()
      | Some x \<Rightarrow> bindE (tell [Tel_span_end]) (\<lambda>_. case sp_end x of None \<Rightarrow> ret () | Some e \<Rightarrow> raise e))"

definition span_error :: "span option \<Rightarrow> string \<Rightarrow> ('s client, unit) op" where
  "span_error sp ty =
     (case sp of None \<Rightarrow> ret ()
      | Some x \<Rightarrow> bindE (tell [Tel_span_error ty])
          (\<lambda>_. case sp_error x ty of None \<Rightarrow> ret () | Some e \<Rightarrow> raise e))"

section \<open>Reconciling an incoming change\<close>

datatype change_outcome =
    Echo_adopted | Change_applied | Conflict_resolved | Change_refreshed | Change_ignored

definition applyServer :: "'s store_api \<Rightarrow> change_event \<Rightarrow> int \<Rightarrow> ('s, unit) op" where
  "applyServer api event now =
     (case ev_op event of
        Delete \<Rightarrow> api_del api (ev_table event) (ev_id event)
      | Upsert \<Rightarrow> api_put api (ev_table event) (ev_id event) (ev_row event) (ev_version event) False now)"

text \<open>\<^verbatim>\<open>rowWrites.find((write) => core.isOwnEcho(write, event))\<close>.\<close>

fun find_echo :: "change_event \<Rightarrow> queued_write list \<Rightarrow> queued_write option res" where
  "find_echo event [] = Inr None"
| "find_echo event (w # ws) =
     (case core_isOwnEcho w event of
        Inl e \<Rightarrow> Inl e
      | Inr b \<Rightarrow> if b then Inr (Some w) else find_echo event ws)"

definition row_writes :: "change_event \<Rightarrow> queued_write list \<Rightarrow> queued_write list" where
  "row_writes event items = filter (on_row (ev_table event) (ev_id event)) items"

text \<open>The row reconciliation sees: dirty as long as a write for it is queued.\<close>

definition reconcile_local :: "local_row option \<Rightarrow> queued_write list \<Rightarrow> local_row option" where
  "reconcile_local loc rowWrites =
     (case rowWrites of
        [] \<Rightarrow> loc
      | w # _ \<Rightarrow> Some \<lparr>lr_version =
            (case loc of Some l \<Rightarrow> lr_version l
             | None \<Rightarrow> foldl (\<lambda>latest x. max latest (qw_base_version x)) (qw_base_version w) rowWrites),
          lr_dirty = True\<rparr>)"

text \<open>What follows the queue snapshot when no queued write is echoed.\<close>

definition reconcile_step ::
    "config \<Rightarrow> 's store_api \<Rightarrow> change_event \<Rightarrow> int \<Rightarrow> local_row option \<Rightarrow> queued_write list \<Rightarrow>
     ('s client, change_outcome) op" where
  "reconcile_step cfg api event now loc rowWrites =
     bindE (lift_res (core_reconcile (reconcile_local loc rowWrites) event)) (\<lambda>decision.
       case decision of
         Apply \<Rightarrow> bindE (on_store (applyServer api event now)) (\<lambda>_. ret Change_applied)
       | Conflict \<Rightarrow>
           bindE (on_store (api_resolve_conflict api event (map qw_seq rowWrites) now)) (\<lambda>_.
             let context = \<lparr>wc_table = ev_table event, wc_op = ev_op event, wc_mutation = Replace\<rparr> in
             case policyFor cfg context JUndef of
               Inl e \<Rightarrow> ret Conflict_resolved
             | Inr policy \<Rightarrow>
                 bindE (reportTelemetry cfg api context policy ConflictResolved None None None now)
                   (\<lambda>_. ret Conflict_resolved))
       | Ignore reason \<Rightarrow>
           if reason = AlreadyApplied \<and> rowWrites = [] \<and>
              (case loc of None \<Rightarrow> True | Some l \<Rightarrow> \<not> lr_dirty l)
           then bindE (on_store (applyServer api event now)) (\<lambda>_. ret Change_refreshed)
           else ret Change_ignored)"

text \<open>
  \<open>_applyChange\<close>. The source retries when the echoed sequence was retired between the
  snapshot and \<open>adoptEcho\<close>; \<open>fuel\<close> bounds the retries, and theory Client_Contract shows
  that one attempt is enough.
\<close>

abbreviation retries_exhausted :: js_error where
  "retries_exhausted \<equiv> JsThrown (JStr ''retries exhausted'')"

fun applyChange ::
    "nat \<Rightarrow> config \<Rightarrow> 's store_api \<Rightarrow> change_event \<Rightarrow> int \<Rightarrow> ('s client, change_outcome) op" where
  "applyChange 0 cfg api event now = raise retries_exhausted"
| "applyChange (Suc fuel) cfg api event now =
     bindE (on_store (api_meta api (ev_table event) (ev_id event))) (\<lambda>loc.
     bindE (on_store (api_list api)) (\<lambda>items.
     bindE (lift_res (find_echo event (row_writes event items))) (\<lambda>echo.
       case echo of
         Some w \<Rightarrow>
           bindE (on_store (api_adopt_echo api event (qw_seq w) now)) (\<lambda>adopted.
             if adopted then ret Echo_adopted else applyChange fuel cfg api event now)
       | None \<Rightarrow> reconcile_step cfg api event now loc (row_writes event items))))"

section \<open>Writes\<close>

definition validateAck :: "sync_write \<Rightarrow> jsval \<Rightarrow> write_ack res" where
  "validateAck w ack =
     (if \<not> truthy ack \<or> typeof ack \<noteq> ''object''
      then Inl (Err ''sync write acknowledgement is not an object'')
      else if js_field ack ''id'' \<noteq> JStr (qw_id w)
      then Inl (Err ''sync write acknowledgement id does not match the queued write'')
      else case js_safe_int (js_field ack ''committed_version'') of
        None \<Rightarrow> Inl (Err ''sync write acknowledgement has an invalid committed_version'')
      | Some v \<Rightarrow>
          if v < 0 then Inl (Err ''sync write acknowledgement has an invalid committed_version'')
          else Inr \<lparr>ack_id = qw_id w, ack_version = v\<rparr>)"

definition applyAck ::
    "'s store_api \<Rightarrow> string \<Rightarrow> string \<Rightarrow> write_ack \<Rightarrow> nat \<Rightarrow> write_strategy \<Rightarrow> int \<Rightarrow> ('s, settle_outcome) op" where
  "applyAck api table i ack settledSeq strategy now =
     (if strategy = Pessimistic
      then api_settle_pessimistic api table i settledSeq (ack_version ack) now
      else api_settle_ack api table i settledSeq (ack_version ack) now)"

text \<open>\<^verbatim>\<open>op\<close> and \<^verbatim>\<open>mutation\<close> with their defaults.\<close>

definition parse_op :: "jsval \<Rightarrow> change_op res" where
  "parse_op v =
     (if v = JUndef \<or> v = JStr ''upsert'' then Inr Upsert
      else if v = JStr ''delete'' then Inr Delete
      else Inl (TypeErrAt ''unsupported sync write operation: '' v))"

definition parse_mutation :: "jsval \<Rightarrow> mutation res" where
  "parse_mutation v =
     (if v = JUndef \<or> v = JStr ''replace'' then Inr Replace
      else if v = JStr ''merge'' then Inr Merge
      else Inl (TypeErrAt ''unsupported sync mutation mode: '' v))"

text \<open>The first gate body: the row to show, the payload to send, both made durable.\<close>

definition persist_intent ::
    "'s store_api \<Rightarrow> write_context \<Rightarrow> write_policy \<Rightarrow> string \<Rightarrow> jsval \<Rightarrow> string \<Rightarrow> int \<Rightarrow>
     ('s, sync_write \<times> nat) op" where
  "persist_intent api context policy i row key now =
     bindE (api_meta api (wc_table context) i) (\<lambda>meta.
     bindE (if wc_mutation context = Merge \<and> wc_op context \<noteq> Delete
            then bindE (api_get api (wc_table context) i) (\<lambda>held. ret (deepMerge held row))
            else ret row) (\<lambda>localRow.
     let w = \<lparr>qw_id = i, qw_table = wc_table context, qw_op = wc_op context,
              qw_payload = (if wc_op context = Delete then JNull else localRow),
              qw_base_version = (case meta of Some m \<Rightarrow> lr_version m | None \<Rightarrow> 0),
              qw_key = Some key, qw_policy = Some policy\<rparr>
     in bindE (if pol_strategy policy = Pessimistic then api_enqueue api w
               else api_enqueue_optimistic api w localRow now) (\<lambda>s. ret (w, s))))"

text \<open>
  What a write resolves to: queued with its attempts and, unless the mode hides it, the
  error; acknowledged with the adopted version; acknowledged through its own echo.
\<close>

datatype write_result =
    Write_queued nat "js_error option"
  | Write_acked "int option"
  | Write_acked_via_echo

definition adopted_version :: "settle_outcome \<Rightarrow> int option" where
  "adopted_version out = (case out of Settled (Adopt v) \<Rightarrow> Some v | _ \<Rightarrow> None)"

abbreviation not_durable :: js_error where
  "not_durable \<equiv> Err ''sync write failed and retry state was not durable''"

abbreviation sync_write_error :: js_error where
  "sync_write_error \<equiv> JsError ''SyncWriteError'' ''sync write failed; retry remains durable''"

type_synonym 's sender = "sync_write \<Rightarrow> ('s client, jsval) op"

text \<open>The guarded part: send, check the acknowledgement, settle it.\<close>

definition attempt_send ::
    "config \<Rightarrow> 's store_api \<Rightarrow> write_context \<Rightarrow> write_policy \<Rightarrow> span option \<Rightarrow> 's sender \<Rightarrow>
     string \<Rightarrow> sync_write \<Rightarrow> nat \<Rightarrow> int \<Rightarrow> ('s client, write_result) op" where
  "attempt_send cfg api context policy sp send i w s now =
     bindE (reportTelemetry cfg api context policy SendStarted None None sp now) (\<lambda>_.
     bindE (send w) (\<lambda>raw.
     bindE (lift_res (validateAck w raw)) (\<lambda>ack.
     bindE (on_store (applyAck api (wc_table context) i ack s (pol_strategy policy) now)) (\<lambda>outcome.
     bindE (reportTelemetry cfg api context policy Acknowledged None None sp now) (\<lambda>_.
     bindE (span_end sp) (\<lambda>_. ret (Write_acked (adopted_version outcome))))))))"

text \<open>The catch block.\<close>

definition record_failure ::
    "config \<Rightarrow> 's store_api \<Rightarrow> write_context \<Rightarrow> write_policy \<Rightarrow> span option \<Rightarrow> nat \<Rightarrow> int \<Rightarrow>
     js_error \<Rightarrow> ('s client, write_result) op" where
  "record_failure cfg api context policy sp s now err =
     bindE (catchE (on_store (api_bump_attempts api s)) (\<lambda>_. raise not_durable)) (\<lambda>attempts.
       if attempts = 0 then
         bindE (reportTelemetry cfg api context policy Acknowledged None None sp now) (\<lambda>_.
         bindE (span_end sp) (\<lambda>_. ret Write_acked_via_echo))
       else
         bindE (reportTelemetry cfg api context policy Failed (Some attempts) (Some (errorType err)) sp now) (\<lambda>_.
         bindE (reportTelemetry cfg api context policy RetryScheduled (Some attempts) (Some (errorType err)) sp now) (\<lambda>_.
         bindE (span_error sp (errorType err)) (\<lambda>_.
         bindE (span_end sp) (\<lambda>_.
           if pol_failure_mode policy = ThrowError then raise sync_write_error
           else ret (Write_queued attempts
                  (if pol_failure_mode policy = EmitOnly then None else Some err)))))))"

definition write_with ::
    "config \<Rightarrow> 's store_api \<Rightarrow> write_context \<Rightarrow> write_policy \<Rightarrow> string \<Rightarrow> jsval \<Rightarrow> 's sender option \<Rightarrow>
     string \<Rightarrow> int \<Rightarrow> int \<Rightarrow> ('s client, write_result) op" where
  "write_with cfg api context policy i row send key now later =
     (if pol_strategy policy \<noteq> LocalQueue \<and> send = None
      then raise (TypeErrAt ''sync write strategy requires a send function: ''
                   (JStr (strategy_name (pol_strategy policy))))
      else
        bindE (beginTelemetry cfg api context policy) (\<lambda>sp.
        bindE (on_store (persist_intent api context policy i row key now)) (\<lambda>ws.
        bindE (reportTelemetry cfg api context policy LocalQueued None None sp now) (\<lambda>_.
          case send of
            Some snd_fn \<Rightarrow>
              if pol_strategy policy = LocalQueue
              then bindE (span_end sp) (\<lambda>_. ret (Write_queued 0 None))
              else catchE (attempt_send cfg api context policy sp snd_fn i (fst ws) (snd ws) later)
                     (record_failure cfg api context policy sp (snd ws) later)
          | None \<Rightarrow> bindE (span_end sp) (\<lambda>_. ret (Write_queued 0 None))))))"

definition write_row ::
    "config \<Rightarrow> 's store_api \<Rightarrow> string \<Rightarrow> string \<Rightarrow> jsval \<Rightarrow> 's sender option \<Rightarrow> jsval \<Rightarrow> jsval \<Rightarrow> jsval \<Rightarrow>
     string \<Rightarrow> int \<Rightarrow> int \<Rightarrow> ('s client, write_result) op" where
  "write_row cfg api table i row send op_arg mutation_arg override key now later =
     bindE (lift_res (parse_op op_arg)) (\<lambda>p.
     bindE (lift_res (parse_mutation mutation_arg)) (\<lambda>m.
     let context = \<lparr>wc_table = table, wc_op = p, wc_mutation = m\<rparr> in
     bindE (lift_res (policyFor cfg context override)) (\<lambda>policy.
       write_with cfg api context policy i row send key now later)))"

text \<open>\<open>optimisticWrite\<close> and its wrappers: the configured policy, but optimistic.\<close>

definition optimisticWrite ::
    "config \<Rightarrow> 's store_api \<Rightarrow> string \<Rightarrow> string \<Rightarrow> jsval \<Rightarrow> 's sender option \<Rightarrow> change_op \<Rightarrow> bool \<Rightarrow>
     string \<Rightarrow> int \<Rightarrow> int \<Rightarrow> ('s client, write_result) op" where
  "optimisticWrite cfg api table i row send p merge key now later =
     (let context = \<lparr>wc_table = table, wc_op = p, wc_mutation = (if merge then Merge else Replace)\<rparr> in
      bindE (lift_res (policyFor cfg context JUndef)) (\<lambda>configured.
        write_row cfg api table i row send (JStr (op_name p))
          (JStr (if merge then ''merge'' else ''replace''))
          (policy_value (configured\<lparr>pol_strategy := Optimistic\<rparr>)) key now later))"

definition optimisticDelete ::
    "config \<Rightarrow> 's store_api \<Rightarrow> string \<Rightarrow> string \<Rightarrow> 's sender option \<Rightarrow> string \<Rightarrow> int \<Rightarrow> int \<Rightarrow>
     ('s client, write_result) op" where
  "optimisticDelete cfg api table i send = optimisticWrite cfg api table i JNull send Delete False"

definition optimisticPatch ::
    "config \<Rightarrow> 's store_api \<Rightarrow> string \<Rightarrow> string \<Rightarrow> jsval \<Rightarrow> 's sender option \<Rightarrow> string \<Rightarrow> int \<Rightarrow> int \<Rightarrow>
     ('s client, write_result) op" where
  "optimisticPatch cfg api table i patch send = optimisticWrite cfg api table i patch send Upsert True"

section \<open>Flushing the queue\<close>

record flush_failure =
  ff_write :: queued_write
  ff_error :: js_error
  ff_attempts :: "nat option"

abbreviation retry_not_durable :: js_error where
  "retry_not_durable \<equiv> Err ''queue retry attempt could not be persisted''"

definition settle_strategy :: "queued_write \<Rightarrow> write_strategy" where
  "settle_strategy w = (case qw_policy w of Some p \<Rightarrow> pol_strategy p | None \<Rightarrow> Optimistic)"

definition flush_send ::
    "'s store_api \<Rightarrow> (queued_write \<Rightarrow> ('s client, jsval) op) \<Rightarrow> int \<Rightarrow> queued_write \<Rightarrow> ('s client, settle_outcome) op" where
  "flush_send api send now w =
     bindE (send w) (\<lambda>raw.
     bindE (lift_res (validateAck (sync_write.truncate w) raw)) (\<lambda>ack.
       on_store (applyAck api (qw_table w) (qw_id w) ack (qw_seq w) (settle_strategy w) now)))"

text \<open>
  One write of the batch: \<open>None\<close> when it counts as flushed. \<open>onError\<close> is a callback of the
  application; the error it throws, if any, leaves the flush.
\<close>

definition flush_one ::
    "'s store_api \<Rightarrow> (queued_write \<Rightarrow> ('s client, jsval) op) \<Rightarrow> int \<Rightarrow> queued_write \<Rightarrow>
     ('s client, flush_failure option) op" where
  "flush_one api send now w =
     catchE (bindE (flush_send api send now w) (\<lambda>_. ret None)) (\<lambda>error.
       catchE
         (bindE (on_store (api_bump_attempts api (qw_seq w))) (\<lambda>attempts.
            if attempts = 0 then ret None
            else ret (Some \<lparr>ff_write = w, ff_error = error, ff_attempts = Some attempts\<rparr>)))
         (\<lambda>_. ret (Some \<lparr>ff_write = w, ff_error = retry_not_durable, ff_attempts = None\<rparr>)))"

fun flush_loop ::
    "'s store_api \<Rightarrow> (queued_write \<Rightarrow> ('s client, jsval) op) \<Rightarrow> (flush_failure \<Rightarrow> js_error option) \<Rightarrow> int \<Rightarrow>
     queued_write list \<Rightarrow> nat \<Rightarrow> flush_failure list \<Rightarrow> ('s client, nat \<times> flush_failure list) op" where
  "flush_loop api send onError now [] flushed failures = ret (flushed, failures)"
| "flush_loop api send onError now (w # ws) flushed failures =
     bindE (flush_one api send now w) (\<lambda>res.
       case res of
         None \<Rightarrow> flush_loop api send onError now ws (flushed + 1) failures
       | Some failure \<Rightarrow>
           (case onError failure of
              Some e \<Rightarrow> raise e
            | None \<Rightarrow> flush_loop api send onError now ws flushed (failures @ [failure])))"

definition queue_flush_error :: "nat \<Rightarrow> nat \<Rightarrow> js_error" where
  "queue_flush_error failed flushed =
     JsError ''QueueFlushError''
       (''queue flush failed for '' @ nat_digits failed @ '' write(s); '' @ nat_digits flushed @ '' flushed'')"

definition flushQueue ::
    "'s store_api \<Rightarrow> (queued_write \<Rightarrow> ('s client, jsval) op) \<Rightarrow> (flush_failure \<Rightarrow> js_error option) \<Rightarrow> int \<Rightarrow>
     ('s client, nat) op" where
  "flushQueue api send onError now =
     bindE (on_store (api_list api)) (\<lambda>ws.
     bindE (flush_loop api send onError now ws 0 []) (\<lambda>(flushed, failures).
       if failures \<noteq> [] then raise (queue_flush_error (length failures) flushed) else ret flushed))"

section \<open>Hydrating a snapshot\<close>

record hydrate_result =
  hr_applied :: nat
  hr_ignored :: nat
  hr_conflicts :: nat
  hr_pruned :: nat

text \<open>
  \<^verbatim>\<open>String\<close> and \<^verbatim>\<open>Number\<close> as functions of values: how they render and parse non-integral
  numbers and decimal text is the engine's.
\<close>

record conv =
  cv_String :: "jsval \<Rightarrow> string"
  cv_Number :: "jsval \<Rightarrow> jsnum"

text \<open>\<^verbatim>\<open>for (const row of rows ?? [])\<close>; the characters of a string have no \<^verbatim>\<open>id\<close>.\<close>

fun rows_of :: "jsval \<Rightarrow> jsval list res" where
  "rows_of JUndef = Inr []"
| "rows_of JNull = Inr []"
| "rows_of (JArr xs) = Inr xs"
| "rows_of (JStr s) = Inr (map (\<lambda>c. JStr [c]) s)"
| "rows_of v = Inl (TypeErr ''rows is not iterable'')"

text \<open>
  A row whose version is no integer makes an event the core cannot parse: the reads of
  \<open>_applyChange\<close> happen, then the call into the core throws.
\<close>

definition hydrate_change ::
    "nat \<Rightarrow> config \<Rightarrow> 's store_api \<Rightarrow> string \<Rightarrow> string \<Rightarrow> jsnum \<Rightarrow> jsval \<Rightarrow> int \<Rightarrow>
     ('s client, change_outcome) op" where
  "hydrate_change fuel cfg api table i version row now =
     (case num_int version of
        Some v \<Rightarrow> applyChange fuel cfg api
          \<lparr>ev_table = table, ev_op = Upsert, ev_id = i, ev_version = v, ev_row = row,
           ev_at_ms = JNum (num 0), ev_write_key = None\<rparr> now
      | None \<Rightarrow>
          bindE (on_store (api_meta api table i)) (\<lambda>_.
          bindE (on_store (api_list api)) (\<lambda>_. raise wasm_error)))"

definition count_outcome :: "change_outcome \<Rightarrow> hydrate_result \<Rightarrow> hydrate_result" where
  "count_outcome outcome res =
     (case outcome of
        Change_applied \<Rightarrow> res\<lparr>hr_applied := hr_applied res + 1\<rparr>
      | Echo_adopted \<Rightarrow> res\<lparr>hr_applied := hr_applied res + 1\<rparr>
      | Change_refreshed \<Rightarrow> res\<lparr>hr_applied := hr_applied res + 1\<rparr>
      | Conflict_resolved \<Rightarrow> res\<lparr>hr_conflicts := hr_conflicts res + 1\<rparr>
      | Change_ignored \<Rightarrow> res\<lparr>hr_ignored := hr_ignored res + 1\<rparr>)"

fun hydrate_rows ::
    "nat \<Rightarrow> config \<Rightarrow> 's store_api \<Rightarrow> conv \<Rightarrow> string \<Rightarrow> int \<Rightarrow> jsval list \<Rightarrow> hydrate_result \<Rightarrow> string list \<Rightarrow>
     ('s client, hydrate_result \<times> string list) op" where
  "hydrate_rows fuel cfg api cv table now [] res seen = ret (res, seen)"
| "hydrate_rows fuel cfg api cv table now (row # rows) res seen =
     (if is_nullish row \<or> is_nullish (js_field row ''id'')
      then hydrate_rows fuel cfg api cv table now rows res seen
      else
        let i = cv_String cv (js_field row ''id'') in
        bindE (hydrate_change fuel cfg api table i
                 (cv_Number cv (coalesce (js_field row ''version'') (JNum (num 0)))) row now) (\<lambda>outcome.
          hydrate_rows fuel cfg api cv table now rows (count_outcome outcome res) (i # seen)))"

definition prune_one :: "'s store_api \<Rightarrow> string \<Rightarrow> string \<Rightarrow> ('s, bool) op" where
  "prune_one api table i =
     bindE (api_meta api table i) (\<lambda>meta.
       if (case meta of Some m \<Rightarrow> \<not> lr_dirty m | None \<Rightarrow> False)
       then bindE (api_del api table i) (\<lambda>_. ret True)
       else ret False)"

fun prune_rows ::
    "'s store_api \<Rightarrow> conv \<Rightarrow> string \<Rightarrow> jsval list \<Rightarrow> string list \<Rightarrow> hydrate_result \<Rightarrow>
     ('s client, hydrate_result) op" where
  "prune_rows api cv table [] seen res = ret res"
| "prune_rows api cv table (row # rows) seen res =
     (let i = (if is_nullish (js_field row ''id'') then [] else cv_String cv (js_field row ''id'')) in
      if i = [] \<or> i \<in> set seen then prune_rows api cv table rows seen res
      else
        bindE (on_store (prune_one api table i)) (\<lambda>pruned.
          prune_rows api cv table rows seen
            (if pruned then res\<lparr>hr_pruned := hr_pruned res + 1\<rparr> else res)))"

definition hydrate ::
    "nat \<Rightarrow> config \<Rightarrow> 's store_api \<Rightarrow> conv \<Rightarrow> string \<Rightarrow> jsval \<Rightarrow> bool \<Rightarrow> int \<Rightarrow> ('s client, hydrate_result) op" where
  "hydrate fuel cfg api cv table rows prune now =
     bindE (lift_res (rows_of rows)) (\<lambda>xs.
     bindE (hydrate_rows fuel cfg api cv table now xs
              \<lparr>hr_applied = 0, hr_ignored = 0, hr_conflicts = 0, hr_pruned = 0\<rparr> []) (\<lambda>(res, seen).
       if prune
       then bindE (on_store (api_all api table)) (\<lambda>held. prune_rows api cv table held seen res)
       else ret res))"

end
