(* ===== verification/Client_Contract.thy ===== *)
theory Client_Contract
  imports Sync_Client
begin

text \<open>
  The client over the contract: run over any adapter that meets Store_Contract, the
  client does to the abstract plane what the same client does over the abstract
  operations. Everything proved about the client over \<open>spec_api\<close> therefore holds over
  each adapter.
\<close>

section \<open>The abstract adapter\<close>

definition spec_api :: "string \<Rightarrow> (jsval \<Rightarrow> jsval) \<Rightarrow> (jsval \<Rightarrow> jsval) \<Rightarrow> plane store_api" where
  "spec_api kind clone view =
     \<lparr>api_kind = kind, api_get = spec_get view, api_meta = spec_meta, api_put = spec_put clone,
      api_del = spec_del, api_all = (\<lambda>t. ret []), api_get_cursor = spec_getCursor,
      api_set_cursor = spec_setCursor, api_enqueue = spec_enqueue clone,
      api_enqueue_optimistic = spec_enqueueOptimistic clone, api_list = spec_list,
      api_settle_ack = spec_settleAck, api_settle_pessimistic = spec_settlePessimistic clone,
      api_adopt_echo = spec_adoptEcho clone, api_resolve_conflict = spec_resolveConflict clone,
      api_bump_attempts = spec_bumpAttempts\<rparr>"

lemma spec_api_sel [simp]:
  "api_kind (spec_api k n v) = k" "api_get (spec_api k n v) = spec_get v"
  "api_meta (spec_api k n v) = spec_meta" "api_put (spec_api k n v) = spec_put n"
  "api_del (spec_api k n v) = spec_del" "api_get_cursor (spec_api k n v) = spec_getCursor"
  "api_set_cursor (spec_api k n v) = spec_setCursor" "api_enqueue (spec_api k n v) = spec_enqueue n"
  "api_enqueue_optimistic (spec_api k n v) = spec_enqueueOptimistic n"
  "api_list (spec_api k n v) = spec_list" "api_settle_ack (spec_api k n v) = spec_settleAck"
  "api_settle_pessimistic (spec_api k n v) = spec_settlePessimistic n"
  "api_adopt_echo (spec_api k n v) = spec_adoptEcho n"
  "api_resolve_conflict (spec_api k n v) = spec_resolveConflict n"
  "api_bump_attempts (spec_api k n v) = spec_bumpAttempts"
  by (simp_all add: spec_api_def)

section \<open>Lifting to the client's state\<close>

definition client_inv :: "('s \<Rightarrow> bool) \<Rightarrow> 's client \<Rightarrow> bool" where
  "client_inv invar c \<longleftrightarrow> invar (cl_store c)"

definition client_plane :: "('s \<Rightarrow> 'p) \<Rightarrow> 's client \<Rightarrow> 'p client" where
  "client_plane plane_of c = \<lparr>cl_store = plane_of (cl_store c), cl_log = cl_log c\<rparr>"

lemma client_plane_sel [simp]:
  "cl_store (client_plane plane_of c) = plane_of (cl_store c)"
  "cl_log (client_plane plane_of c) = cl_log c"
  by (simp_all add: client_plane_def)

lemma on_store_eq: "on_store f c = (r, c') \<longleftrightarrow> (\<exists>s. f (cl_store c) = (r, s) \<and> c' = c\<lparr>cl_store := s\<rparr>)"
  by (auto simp: on_store_def split: prod.splits)

lemma lift_res_eq [simp]: "lift_res x s = (r, s') \<longleftrightarrow> r = x \<and> s' = s"
  by (auto simp: lift_res_def)

lemma tell_eq [simp]: "tell xs c = (r, c') \<longleftrightarrow> r = Inr () \<and> c' = c\<lparr>cl_log := cl_log c @ xs\<rparr>"
  by (auto simp: tell_def)

lemma client_plane_update [simp]:
  "client_plane plane_of (c\<lparr>cl_store := s\<rparr>) = (client_plane plane_of c)\<lparr>cl_store := plane_of s\<rparr>"
  "client_plane plane_of (c\<lparr>cl_log := xs\<rparr>) = (client_plane plane_of c)\<lparr>cl_log := xs\<rparr>"
  by (simp_all add: client_plane_def)

lemma client_inv_update [simp]:
  "client_inv invar (c\<lparr>cl_store := s\<rparr>) = invar s"
  "client_inv invar (c\<lparr>cl_log := xs\<rparr>) = client_inv invar c"
  by (simp_all add: client_inv_def)

lemma client_store_same: "cl_store c = s \<Longrightarrow> c\<lparr>cl_store := s\<rparr> = c"
  by (cases c) simp

lemma on_store_implements:
  assumes "implements invar plane_of f g"
  shows "implements (client_inv invar) (client_plane plane_of) (on_store f) (on_store g)"
proof (rule implementsI)
  fix c e c'
  assume inv: "client_inv invar c" and eq: "on_store f c = (Inl e, c')"
  then obtain s where s: "f (cl_store c) = (Inl e, s)" "c' = c\<lparr>cl_store := s\<rparr>"
    by (auto simp: on_store_eq)
  have "invar s \<and> plane_of s = plane_of (cl_store c)"
    using implements_Inl [OF assms _ s(1)] inv by (simp add: client_inv_def)
  then show "client_inv invar c' \<and> client_plane plane_of c' = client_plane plane_of c"
    by (simp add: s(2) client_store_same)
next
  fix c v c'
  assume inv: "client_inv invar c" and eq: "on_store f c = (Inr v, c')"
  then obtain s where s: "f (cl_store c) = (Inr v, s)" "c' = c\<lparr>cl_store := s\<rparr>"
    by (auto simp: on_store_eq)
  have "invar s \<and> g (plane_of (cl_store c)) = (Inr v, plane_of s)"
    using implements_Inr [OF assms _ s(1)] inv by (simp add: client_inv_def)
  then show "client_inv invar c' \<and> on_store g (client_plane plane_of c) = (Inr v, client_plane plane_of c')"
    by (simp add: s(2) on_store_def)
qed

lemma on_store_exact:
  assumes "implements_exactly invar ready plane_of f g"
  shows "implements_exactly (client_inv invar) (client_inv ready) (client_plane plane_of)
    (on_store f) (on_store g)"
proof (rule implements_exactlyI)
  fix c r c'
  assume inv: "client_inv invar c" "client_inv ready c" and eq: "on_store f c = (r, c')"
  then obtain s where s: "f (cl_store c) = (r, s)" "c' = c\<lparr>cl_store := s\<rparr>"
    by (auto simp: on_store_eq)
  have "invar s \<and> ready s \<and> g (plane_of (cl_store c)) = (r, plane_of s)"
    using implements_exactlyD [OF assms _ _ s(1)] inv by (simp add: client_inv_def)
  then show "client_inv invar c' \<and> client_inv ready c' \<and>
      on_store g (client_plane plane_of c) = (r, client_plane plane_of c')"
    by (simp add: s(2) on_store_def)
qed

lemma reads_on_store: "reads g \<Longrightarrow> reads (on_store g)"
  by (auto simp: reads_def on_store_def client_store_same split: prod.splits) (metis client_store_same snd_conv)

lemma lift_res_implements:
  "implements (client_inv invar) (client_plane plane_of) (lift_res r) (lift_res r)"
  by (rule implementsI) auto

lemma lift_res_exact:
  "implements_exactly (client_inv invar) (client_inv ready) (client_plane plane_of) (lift_res r) (lift_res r)"
  by (rule implements_exactlyI) auto

lemma reads_lift_res [simp]: "reads (lift_res r)"
  by (simp add: reads_def lift_res_def)

lemma tell_implements:
  "implements (client_inv invar) (client_plane plane_of) (tell xs) (tell xs)"
  by (rule implementsI) auto

lemma tell_exact:
  "implements_exactly (client_inv invar) (client_inv ready) (client_plane plane_of) (tell xs) (tell xs)"
  by (rule implements_exactlyI) auto

lemma catchE_exact:
  assumes f: "implements_exactly invar ready plane_of f g"
    and h: "\<And>e. implements_exactly invar ready plane_of (f' e) (g' e)"
  shows "implements_exactly invar ready plane_of (catchE f f') (catchE g g')"
proof (rule implements_exactlyI)
  fix s r s'
  assume inv: "invar s" "ready s" and eq: "catchE f f' s = (r, s')"
  obtain q t where ft: "f s = (q, t)" by (cases "f s")
  have t: "invar t" "ready t" "g (plane_of s) = (q, plane_of t)"
    using implements_exactlyD [OF f inv ft] by auto
  show "invar s' \<and> ready s' \<and> catchE g g' (plane_of s) = (r, plane_of s')"
  proof (cases q)
    case (Inl e)
    then have "f' e t = (r, s')" using eq ft by (simp add: catchE_def)
    from implements_exactlyD [OF h t(1,2) this] show ?thesis
      using t(3) Inl by (simp add: catchE_def)
  next
    case (Inr v)
    then show ?thesis using eq ft t by (auto simp: catchE_def)
  qed
qed

text \<open>
  The composition that \<open>_applyChange\<close> needs: a continuation may fail only after a step
  that left the abstract state alone.
\<close>

lemma implements_bindE_safe:
  assumes f: "implements invar plane_of f g"
    and safe: "\<And>P v P'. g P = (Inr v, P') \<Longrightarrow> P' = P \<or> (\<forall>s. \<exists>x s'. f' v s = (Inr x, s'))"
    and k: "\<And>v. implements invar plane_of (f' v) (g' v)"
  shows "implements invar plane_of (bindE f f') (bindE g g')"
proof (rule implementsI)
  fix s e s'
  assume inv: "invar s" and eq: "bindE f f' s = (Inl e, s')"
  consider "f s = (Inl e, s')" | u t where "f s = (Inr u, t)" "f' u t = (Inl e, s')"
    using eq by (auto simp: bindE_eq_Inl)
  then show "invar s' \<and> plane_of s' = plane_of s"
  proof cases
    case 1
    then show ?thesis by (rule implements_Inl [OF f inv])
  next
    case 2
    have g: "g (plane_of s) = (Inr u, plane_of t)" and t: "invar t"
      using implements_Inr [OF f inv 2(1)] by auto
    have "plane_of t = plane_of s \<or> (\<forall>s. \<exists>x s'. f' u s = (Inr x, s'))"
      by (rule safe [OF g])
    moreover have "\<not> (\<forall>s. \<exists>x s'. f' u s = (Inr x, s'))"
    proof
      assume "\<forall>s. \<exists>x s'. f' u s = (Inr x, s')"
      then obtain x t' where "f' u t = (Inr x, t')" by blast
      with 2(2) show False by simp
    qed
    ultimately show ?thesis
      using implements_Inl [OF k t 2(2)] by simp
  qed
next
  fix s v s'
  assume inv: "invar s" and eq: "bindE f f' s = (Inr v, s')"
  then obtain u t where ut: "f s = (Inr u, t)" "f' u t = (Inr v, s')"
    by (auto simp: bindE_eq_Inr)
  have g: "g (plane_of s) = (Inr u, plane_of t)" and t: "invar t"
    using implements_Inr [OF f inv ut(1)] by auto
  show "invar s' \<and> bindE g g' (plane_of s) = (Inr v, plane_of s')"
    using implements_Inr [OF k t ut(2)] g by simp
qed

section \<open>Refinement of the client's operations\<close>

lemma reportTelemetry_cases:
  "reportTelemetry cfg api ctx pol ph n ty sp now =
     (if \<not> shouldEmit (pol_telemetry pol) ph then ret ()
      else
        let event = \<lparr>te_phase = ph, te_strategy = pol_strategy pol, te_table = wc_table ctx,
              te_op = wc_op ctx, te_at_ms = now, te_attempts = n, te_error_type = ty\<rparr>
        in tell (Tel_emit event (telemetryContext api ctx pol) #
             (if sk_emit (cfg_sink cfg) event \<and> sp \<noteq> None then [Tel_span_event ph n ty] else [])))"
  by (simp add: reportTelemetry_def fun_eq_iff)

lemma report_context:
  "reportTelemetry cfg (spec_api (api_kind api) n v) ctx pol ph a ty sp now =
     (if \<not> shouldEmit (pol_telemetry pol) ph then ret ()
      else
        let event = \<lparr>te_phase = ph, te_strategy = pol_strategy pol, te_table = wc_table ctx,
              te_op = wc_op ctx, te_at_ms = now, te_attempts = a, te_error_type = ty\<rparr>
        in tell (Tel_emit event (telemetryContext api ctx pol) #
             (if sk_emit (cfg_sink cfg) event \<and> sp \<noteq> None then [Tel_span_event ph a ty] else [])))"
  by (simp add: reportTelemetry_cases telemetryContext_def)

lemma report_total: "\<exists>x s'. reportTelemetry cfg api ctx pol ph a ty sp now s = (Inr x, s')"
  by (simp add: reportTelemetry_cases Let_def ret_def tell_def)

lemma report_implements:
  "implements (client_inv invar) (client_plane plane_of)
     (reportTelemetry cfg api ctx pol ph a ty sp now)
     (reportTelemetry cfg (spec_api (api_kind api) n v) ctx pol ph a ty sp now)"
  by (simp add: reportTelemetry_cases [of cfg api] report_context implements_ret tell_implements Let_def)

lemma report_exact:
  "implements_exactly (client_inv invar) (client_inv ready) (client_plane plane_of)
     (reportTelemetry cfg api ctx pol ph a ty sp now)
     (reportTelemetry cfg (spec_api (api_kind api) n v) ctx pol ph a ty sp now)"
  by (simp add: reportTelemetry_cases [of cfg api] report_context implements_exactly_ret tell_exact Let_def)

context store_contract
begin

abbreviation spec_client :: "plane store_api" where
  "spec_client \<equiv> spec_api (api_kind api) clone view"

lemma applyServer_implements:
  "implements invar plane_of (applyServer api ev now) (applyServer spec_client ev now)"
  by (cases "ev_op ev") (simp_all add: applyServer_def put_ok del_ok)

lemma applied_implements:
  "implements (client_inv invar) (client_plane plane_of)
     (bindE (on_store (applyServer api ev now)) (\<lambda>_. ret x))
     (bindE (on_store (applyServer spec_client ev now)) (\<lambda>_. ret x))"
  by (rule implements_bindE_safe [OF on_store_implements [OF applyServer_implements]])
    (auto simp: ret_def implements_ret)

lemma conflict_tail_implements:
  "implements (client_inv invar) (client_plane plane_of)
     (case policyFor cfg ctx JUndef of
        Inl e \<Rightarrow> ret Conflict_resolved
      | Inr policy \<Rightarrow> bindE (reportTelemetry cfg api ctx policy ConflictResolved None None None now)
          (\<lambda>_. ret Conflict_resolved))
     (case policyFor cfg ctx JUndef of
        Inl e \<Rightarrow> ret Conflict_resolved
      | Inr policy \<Rightarrow> bindE (reportTelemetry cfg spec_client ctx policy ConflictResolved None None None now)
          (\<lambda>_. ret Conflict_resolved))"
  by (cases "policyFor cfg ctx JUndef")
    (auto simp: ret_def intro!: implements_ret implements_bindE_safe [OF report_implements])

lemma reconcile_step_implements:
  "implements (client_inv invar) (client_plane plane_of)
     (reconcile_step cfg api ev now loc ws) (reconcile_step cfg spec_client ev now loc ws)"
  unfolding reconcile_step_def
proof (rule implements_bindE [OF lift_res_implements reads_lift_res], goal_cases)
  case (1 decision)
  show ?case
  proof (cases decision)
    case Apply
    then show ?thesis by (simp add: applied_implements)
  next
    case (Ignore reason)
    then show ?thesis by (simp add: applied_implements implements_ret)
  next
    case Conflict
    let ?ctx = "\<lparr>wc_table = ev_table ev, wc_op = ev_op ev, wc_mutation = Replace\<rparr>"
    have total: "\<exists>x s'. (case policyFor cfg ?ctx JUndef of
        Inl e \<Rightarrow> ret Conflict_resolved
      | Inr policy \<Rightarrow> bindE (reportTelemetry cfg api ?ctx policy ConflictResolved None None None now)
          (\<lambda>_. ret Conflict_resolved)) s = (Inr x, s')" for s
    proof (cases "policyFor cfg ?ctx JUndef")
      case (Inr b)
      obtain x s' where "reportTelemetry cfg api ?ctx b ConflictResolved None None None now s = (Inr x, s')"
        using report_total by blast
      then show ?thesis unfolding Inr by (simp add: ret_def)
    qed (simp add: ret_def)
    show ?thesis
      unfolding Conflict reconcile_decision.case Let_def spec_api_sel
      by (rule implements_bindE_safe [OF on_store_implements [OF resolve_conflict_ok] _ conflict_tail_implements])
        (use total in blast)
  qed
qed

lemma adopt_safe:
  "on_store (spec_adoptEcho clone ev s now) P = (Inr b, P') \<Longrightarrow> P' = P \<or> b"
  by (auto simp: on_store_eq spec_adoptEcho_def Let_def client_store_same split: option.splits if_splits)

theorem applyChange_implements:
  "implements (client_inv invar) (client_plane plane_of)
     (applyChange fuel cfg api ev now) (applyChange fuel cfg spec_client ev now)"
proof (induction fuel)
  case 0
  then show ?case by (simp add: implements_raise)
next
  case (Suc fuel)
  have echo: "implements (client_inv invar) (client_plane plane_of)
      (case echo of
         Some w \<Rightarrow> bindE (on_store (api_adopt_echo api ev (qw_seq w) now)) (\<lambda>adopted.
             if adopted then ret Echo_adopted else applyChange fuel cfg api ev now)
       | None \<Rightarrow> reconcile_step cfg api ev now loc ws)
      (case echo of
         Some w \<Rightarrow> bindE (on_store (api_adopt_echo spec_client ev (qw_seq w) now)) (\<lambda>adopted.
             if adopted then ret Echo_adopted else applyChange fuel cfg spec_client ev now)
       | None \<Rightarrow> reconcile_step cfg spec_client ev now loc ws)" for echo loc ws
  proof (cases echo)
    case None
    then show ?thesis by (simp add: reconcile_step_implements)
  next
    case (Some w)
    show ?thesis
      unfolding Some option.case spec_api_sel
      by (rule implements_bindE_safe [OF on_store_implements [OF adopt_echo_ok]])
        (auto simp: ret_def Suc.IH dest!: adopt_safe intro: implements_ret)
  qed
  show ?case
    unfolding applyChange.simps spec_api_sel
    by (intro implements_bindE [OF on_store_implements [OF meta_ok]]
        implements_bindE [OF on_store_implements [OF list_ok]]
        implements_bindE [OF lift_res_implements] reads_on_store reads_spec reads_lift_res
        echo [unfolded spec_api_sel])
qed

theorem persist_intent_implements:
  "implements invar plane_of (persist_intent api ctx policy i row key now)
     (persist_intent spec_client ctx policy i row key now)"
proof -
  have row: "implements invar plane_of
      (if wc_mutation ctx = Merge \<and> wc_op ctx \<noteq> Delete
       then bindE (api_get api (wc_table ctx) i) (\<lambda>held. ret (deepMerge held row)) else ret row)
      (if wc_mutation ctx = Merge \<and> wc_op ctx \<noteq> Delete
       then bindE (spec_get view (wc_table ctx) i) (\<lambda>held. ret (deepMerge held row)) else ret row)"
    by (simp add: implements_ret implements_bindE [OF get_ok reads_spec(1)])
  have rd: "reads (if wc_mutation ctx = Merge \<and> wc_op ctx \<noteq> Delete
       then bindE (spec_get view (wc_table ctx) i) (\<lambda>held. ret (deepMerge held row)) else ret row)"
    by (simp add: reads_def bindE_def spec_get_def ret_def)
  show ?thesis
    unfolding persist_intent_def Let_def spec_api_sel
  proof (intro implements_bindE [OF meta_ok reads_spec(2)] implements_bindE [OF row rd], goal_cases)
    case (1 meta localRow)
    show ?case
      by (cases "pol_strategy policy = Pessimistic")
        (auto simp: ret_def intro!: implements_ret implements_bindE_safe [OF enqueue_ok]
          implements_bindE_safe [OF enqueue_optimistic_ok])
  qed
qed

end

section \<open>Exact refinement without storage faults\<close>

context reliable_store
begin

lemma applyServer_exact:
  "ev_table ev \<in> tables \<Longrightarrow>
     implements_exactly invar ready plane_of (applyServer api ev now) (applyServer spec_client ev now)"
  by (cases "ev_op ev") (simp_all add: applyServer_def put_exact del_exact)

lemma conflict_tail_exact:
  "implements_exactly (client_inv invar) (client_inv ready) (client_plane plane_of)
     (case policyFor cfg ctx JUndef of
        Inl e \<Rightarrow> ret Conflict_resolved
      | Inr policy \<Rightarrow> bindE (reportTelemetry cfg api ctx policy ConflictResolved None None None now)
          (\<lambda>_. ret Conflict_resolved))
     (case policyFor cfg ctx JUndef of
        Inl e \<Rightarrow> ret Conflict_resolved
      | Inr policy \<Rightarrow> bindE (reportTelemetry cfg spec_client ctx policy ConflictResolved None None None now)
          (\<lambda>_. ret Conflict_resolved))"
  by (cases "policyFor cfg ctx JUndef")
    (auto intro!: implements_exactly_ret implements_exactly_bindE [OF report_exact])

lemma reconcile_step_exact:
  assumes "ev_table ev \<in> tables"
  shows "implements_exactly (client_inv invar) (client_inv ready) (client_plane plane_of)
     (reconcile_step cfg api ev now loc ws) (reconcile_step cfg spec_client ev now loc ws)"
  unfolding reconcile_step_def Let_def spec_api_sel
proof (rule implements_exactly_bindE [OF lift_res_exact], goal_cases)
  case (1 decision)
  note st = on_store_exact [OF applyServer_exact [OF assms]]
    on_store_exact [OF resolve_conflict_exact [OF assms]]
  show ?case
    by (cases decision)
      (auto intro!: implements_exactly_bindE [OF st(1)] implements_exactly_bindE [OF st(2)]
        implements_exactly_ret conflict_tail_exact)
qed

theorem applyChange_exact:
  assumes "ev_table ev \<in> tables"
  shows "implements_exactly (client_inv invar) (client_inv ready) (client_plane plane_of)
     (applyChange fuel cfg api ev now) (applyChange fuel cfg spec_client ev now)"
proof (induction fuel)
  case 0
  then show ?case by (simp add: implements_exactly_raise)
next
  case (Suc fuel)
  note st = on_store_exact [OF meta_exact [OF assms]] on_store_exact [OF list_exact]
    on_store_exact [OF adopt_echo_exact [OF assms]]
  show ?case
    unfolding applyChange.simps spec_api_sel
  proof (intro implements_exactly_bindE [OF st(1)] implements_exactly_bindE [OF st(2)]
      implements_exactly_bindE [OF lift_res_exact], goal_cases)
    case (1 loc items echo)
    show ?case
      by (cases echo) (auto simp: Suc.IH reconcile_step_exact [OF assms]
          intro!: implements_exactly_bindE [OF st(3)] implements_exactly_ret)
  qed
qed

lemma persist_intent_exact:
  assumes "wc_table ctx \<in> tables"
  shows "implements_exactly invar ready plane_of (persist_intent api ctx policy i row key now)
     (persist_intent spec_client ctx policy i row key now)"
proof -
  have row: "implements_exactly invar ready plane_of
      (if wc_mutation ctx = Merge \<and> wc_op ctx \<noteq> Delete
       then bindE (api_get api (wc_table ctx) i) (\<lambda>held. ret (deepMerge held row)) else ret row)
      (if wc_mutation ctx = Merge \<and> wc_op ctx \<noteq> Delete
       then bindE (spec_get view (wc_table ctx) i) (\<lambda>held. ret (deepMerge held row)) else ret row)"
    by (simp add: implements_exactly_ret implements_exactly_bindE [OF get_exact [OF assms]])
  show ?thesis
    unfolding persist_intent_def Let_def spec_api_sel
  proof (intro implements_exactly_bindE [OF meta_exact [OF assms]] implements_exactly_bindE [OF row], goal_cases)
    case (1 meta localRow)
    show ?case
      by (cases "pol_strategy policy = Pessimistic")
        (auto simp: assms intro!: implements_exactly_ret implements_exactly_bindE [OF enqueue_exact]
          implements_exactly_bindE [OF enqueue_optimistic_exact])
  qed
qed

lemma applyAck_exact:
  "t \<in> tables \<Longrightarrow> implements_exactly invar ready plane_of (applyAck api t i ack s strategy now)
     (applyAck spec_client t i ack s strategy now)"
  by (simp add: applyAck_def settle_ack_exact settle_pessimistic_exact)

lemma span_end_exact:
  "implements_exactly (client_inv invar) (client_inv ready) (client_plane plane_of) (span_end sp) (span_end sp)"
  by (cases sp) (auto simp: span_end_def implements_exactly_ret intro!: implements_exactly_bindE [OF tell_exact]
      implements_exactly_raise split: option.splits)

lemma span_error_exact:
  "implements_exactly (client_inv invar) (client_inv ready) (client_plane plane_of) (span_error sp ty) (span_error sp ty)"
  by (cases sp) (auto simp: span_error_def implements_exactly_ret intro!: implements_exactly_bindE [OF tell_exact]
      implements_exactly_raise split: option.splits)

lemma beginTelemetry_exact:
  "implements_exactly (client_inv invar) (client_inv ready) (client_plane plane_of)
     (beginTelemetry cfg api ctx policy) (beginTelemetry cfg spec_client ctx policy)"
  by (auto simp: beginTelemetry_def telemetryContext_def implements_exactly_ret
      intro!: implements_exactly_bindE [OF tell_exact])

lemma attempt_send_exact:
  assumes "wc_table ctx \<in> tables"
    and "implements_exactly (client_inv invar) (client_inv ready) (client_plane plane_of) (send w) (send' w)"
  shows "implements_exactly (client_inv invar) (client_inv ready) (client_plane plane_of)
    (attempt_send cfg api ctx policy sp send i w s now) (attempt_send cfg spec_client ctx policy sp send' i w s now)"
  unfolding attempt_send_def spec_api_sel
  by (intro implements_exactly_bindE [OF report_exact] implements_exactly_bindE [OF assms(2)]
      implements_exactly_bindE [OF lift_res_exact]
      implements_exactly_bindE [OF on_store_exact [OF applyAck_exact [OF assms(1)]]]
      implements_exactly_bindE [OF span_end_exact] implements_exactly_ret)

lemma if_exact:
  "implements_exactly a b c f f' \<Longrightarrow> implements_exactly a b c g g' \<Longrightarrow>
     implements_exactly a b c (if x then f else g) (if x then f' else g')"
  by simp

lemma record_failure_exact:
  "implements_exactly (client_inv invar) (client_inv ready) (client_plane plane_of)
    (record_failure cfg api ctx policy sp s now err) (record_failure cfg spec_client ctx policy sp s now err)"
  unfolding record_failure_def spec_api_sel
  by (intro implements_exactly_bindE [OF catchE_exact [OF on_store_exact [OF bump_attempts_exact]
      implements_exactly_raise]] if_exact
      implements_exactly_bindE [OF report_exact] implements_exactly_bindE [OF span_end_exact]
      implements_exactly_bindE [OF span_error_exact] implements_exactly_ret implements_exactly_raise)

theorem write_with_exact:
  assumes table: "wc_table ctx \<in> tables"
    and send: "rel_option (\<lambda>f g. \<forall>w. implements_exactly (client_inv invar) (client_inv ready)
      (client_plane plane_of) (f w) (g w)) send send'"
  shows "implements_exactly (client_inv invar) (client_inv ready) (client_plane plane_of)
     (write_with cfg api ctx policy i row send key now later)
     (write_with cfg spec_client ctx policy i row send' key now later)"
proof -
  have none: "send = None \<longleftrightarrow> send' = None"
    using send by (cases send; cases send') auto
  have tail: "implements_exactly (client_inv invar) (client_inv ready) (client_plane plane_of)
      (case send of
         Some f \<Rightarrow> if pol_strategy policy = LocalQueue then bindE (span_end sp) (\<lambda>_. ret (Write_queued 0 None))
           else catchE (attempt_send cfg api ctx policy sp f i (fst ws) (snd ws) later)
                  (record_failure cfg api ctx policy sp (snd ws) later)
       | None \<Rightarrow> bindE (span_end sp) (\<lambda>_. ret (Write_queued 0 None)))
      (case send' of
         Some f \<Rightarrow> if pol_strategy policy = LocalQueue then bindE (span_end sp) (\<lambda>_. ret (Write_queued 0 None))
           else catchE (attempt_send cfg spec_client ctx policy sp f i (fst ws) (snd ws) later)
                  (record_failure cfg spec_client ctx policy sp (snd ws) later)
       | None \<Rightarrow> bindE (span_end sp) (\<lambda>_. ret (Write_queued 0 None)))" for sp ws
  proof (cases send)
    case None
    then show ?thesis
      using none by (simp add: implements_exactly_bindE [OF span_end_exact] implements_exactly_ret)
  next
    case (Some f)
    then obtain g where g: "send' = Some g" "\<And>w. implements_exactly (client_inv invar) (client_inv ready)
        (client_plane plane_of) (f w) (g w)"
      using send by (cases send') auto
    show ?thesis
      unfolding Some g(1) option.case
      by (intro if_exact catchE_exact attempt_send_exact [OF table g(2)] record_failure_exact
          implements_exactly_bindE [OF span_end_exact] implements_exactly_ret)
  qed
  show ?thesis
    unfolding write_with_def none
    by (intro if_exact implements_exactly_raise implements_exactly_bindE [OF beginTelemetry_exact]
        implements_exactly_bindE [OF on_store_exact [OF persist_intent_exact [OF table]]]
        implements_exactly_bindE [OF report_exact] tail)
qed

theorem write_row_exact:
  assumes table: "t \<in> tables"
    and send: "rel_option (\<lambda>f g. \<forall>w. implements_exactly (client_inv invar) (client_inv ready)
      (client_plane plane_of) (f w) (g w)) send send'"
  shows "implements_exactly (client_inv invar) (client_inv ready) (client_plane plane_of)
     (write_row cfg api t i row send p m ov key now later)
     (write_row cfg spec_client t i row send' p m ov key now later)"
  unfolding write_row_def Let_def
  by (intro implements_exactly_bindE [OF lift_res_exact] write_with_exact [OF _ send]) (simp add: table)

lemma flush_one_exact:
  assumes "qw_table w \<in> tables"
    and "implements_exactly (client_inv invar) (client_inv ready) (client_plane plane_of) (send w) (send' w)"
  shows "implements_exactly (client_inv invar) (client_inv ready) (client_plane plane_of)
    (flush_one api send now w) (flush_one spec_client send' now w)"
  unfolding flush_one_def flush_send_def spec_api_sel
  by (intro catchE_exact if_exact implements_exactly_bindE [OF implements_exactly_bindE [OF assms(2)]]
      implements_exactly_bindE [OF lift_res_exact] on_store_exact [OF applyAck_exact [OF assms(1)]]
      implements_exactly_bindE [OF on_store_exact [OF bump_attempts_exact]] implements_exactly_ret)

lemma flush_loop_exact:
  assumes tables: "\<forall>w \<in> set ws. qw_table w \<in> tables"
    and send: "\<And>w. implements_exactly (client_inv invar) (client_inv ready) (client_plane plane_of) (send w) (send' w)"
  shows "implements_exactly (client_inv invar) (client_inv ready) (client_plane plane_of)
    (flush_loop api send onError now ws n fs) (flush_loop spec_client send' onError now ws n fs)"
  using tables
proof (induction ws arbitrary: n fs)
  case Nil
  then show ?case by (simp add: implements_exactly_ret)
next
  case (Cons w ws)
  have one: "implements_exactly (client_inv invar) (client_inv ready) (client_plane plane_of)
      (flush_one api send now w) (flush_one spec_client send' now w)"
    using Cons.prems by (intro flush_one_exact send) simp
  have rest: "implements_exactly (client_inv invar) (client_inv ready) (client_plane plane_of)
      (flush_loop api send onError now ws m gs) (flush_loop spec_client send' onError now ws m gs)" for m gs
    using Cons.prems by (intro Cons.IH) simp
  show ?case
    unfolding flush_loop.simps
    by (rule implements_exactly_bindE [OF one])
      (auto split: option.split intro: rest implements_exactly_raise)
qed

text \<open>A flush whose queued writes are all for configured tables.\<close>

theorem flushQueue_exact:
  assumes tables: "\<forall>w \<in> set (p_queue (plane_of (cl_store c))). qw_table w \<in> tables"
    and send: "\<And>w. implements_exactly (client_inv invar) (client_inv ready) (client_plane plane_of) (send w) (send' w)"
    and c: "invar (cl_store c)" "ready (cl_store c)"
    and eq: "flushQueue api send onError now c = (res, c')"
  shows "invar (cl_store c') \<and> ready (cl_store c') \<and>
    flushQueue spec_client send' onError now (client_plane plane_of c) = (res, client_plane plane_of c')"
proof -
  obtain q s where l: "api_list api (cl_store c) = (q, s)" by (cases "api_list api (cl_store c)")
  have s: "invar s \<and> ready s \<and> plane_of s = plane_of (cl_store c) \<and> q = Inr (p_queue (plane_of (cl_store c)))"
    using implements_exactlyD [OF list_exact c l] by (auto simp: spec_list_def)
  let ?ws = "p_queue (plane_of (cl_store c))" and ?c = "c\<lparr>cl_store := s\<rparr>"
  have rest: "implements_exactly (client_inv invar) (client_inv ready) (client_plane plane_of)
      (bindE (flush_loop api send onError now ?ws 0 []) (\<lambda>(flushed, failures).
         if failures \<noteq> [] then raise (queue_flush_error (length failures) flushed) else ret flushed))
      (bindE (flush_loop spec_client send' onError now ?ws 0 []) (\<lambda>(flushed, failures).
         if failures \<noteq> [] then raise (queue_flush_error (length failures) flushed) else ret flushed))"
    by (rule implements_exactly_bindE [OF flush_loop_exact [OF tables send]])
      (auto intro: implements_exactly_raise implements_exactly_ret)
  have "bindE (flush_loop api send onError now ?ws 0 []) (\<lambda>(flushed, failures).
         if failures \<noteq> [] then raise (queue_flush_error (length failures) flushed) else ret flushed) ?c = (res, c')"
    using eq s l unfolding flushQueue_def by (simp add: on_store_def bindE_def)
  moreover have "flushQueue spec_client send' onError now (client_plane plane_of c) =
      bindE (flush_loop spec_client send' onError now ?ws 0 []) (\<lambda>(flushed, failures).
         if failures \<noteq> [] then raise (queue_flush_error (length failures) flushed) else ret flushed) (client_plane plane_of ?c)"
    using s by (simp add: flushQueue_def on_store_def spec_list_def bindE_def client_plane_def)
  ultimately show ?thesis
    using implements_exactlyD [OF rest, of ?c res c'] s by (simp add: client_inv_def)
qed

end

end
