(* ===== verification/Reconciliation.thy ===== *)
theory Reconciliation
  imports Client_Contract
begin

text \<open>
  What \<open>applyChange\<close> does to the plane, without retries and telemetry: one echo adopted,
  one server row put, one conflict resolved, or nothing. The theorems about pending
  intent, versions, re-delivery and order of delivery are read off this form.
\<close>

section \<open>Well-formed planes\<close>

text \<open>
  Sequence numbers ascend below the next one, records carry their id, and a dirty row has
  a queued write that will clean it.
\<close>

definition queue_ok :: "plane \<Rightarrow> bool" where
  "queue_ok P \<longleftrightarrow> sorted_wrt (<) (map qw_seq (p_queue P)) \<and> (\<forall>w \<in> set (p_queue P). qw_seq w < p_next_seq P)"

definition dirty_queued :: "plane \<Rightarrow> bool" where
  "dirty_queued P \<longleftrightarrow>
     (\<forall>t i r. p_rows P t i = Some r \<longrightarrow> r_dirty r \<longrightarrow> (\<exists>w \<in> set (p_queue P). on_row t i w))"

definition ids_ok :: "plane \<Rightarrow> bool" where
  "ids_ok P \<longleftrightarrow> (\<forall>t i r. p_rows P t i = Some r \<longrightarrow> r_id r = i)"

definition plane_ok :: "plane \<Rightarrow> bool" where
  "plane_ok P \<longleftrightarrow> queue_ok P \<and> dirty_queued P \<and> ids_ok P"

definition empty_plane :: plane where
  "empty_plane = \<lparr>p_rows = (\<lambda>_ _. None), p_queue = [], p_next_seq = 1, p_cursor = (\<lambda>_. None)\<rparr>"

lemma empty_plane_ok: "plane_ok empty_plane"
  by (simp add: plane_ok_def queue_ok_def dirty_queued_def ids_ok_def empty_plane_def)

lemma queue_ok_distinct: "queue_ok P \<Longrightarrow> distinct (map qw_seq (p_queue P))"
  by (simp add: queue_ok_def sorted_map_key)

lemma find_seq_mem:
  "queue_ok P \<Longrightarrow> w \<in> set (p_queue P) \<Longrightarrow> find_seq (qw_seq w) (p_queue P) = Some w"
  unfolding find_seq_def by (rule find_key_distinct [OF queue_ok_distinct])

lemma find_seq_Some: "find_seq s q = Some w \<Longrightarrow> w \<in> set q \<and> qw_seq w = s"
  by (auto simp: find_seq_def dest: find_Some_mem)

lemma find_seq_None: "find_seq s q = None \<longleftrightarrow> s \<notin> qw_seq ` set q"
  by (auto simp: find_seq_def find_None_iff_all)

lemma same_seq: "queue_ok P \<Longrightarrow> w \<in> set (p_queue P) \<Longrightarrow> w' \<in> set (p_queue P) \<Longrightarrow>
    qw_seq w = qw_seq w' \<Longrightarrow> w = w'"
  using queue_ok_distinct by (metis distinct_map inj_onD)

section \<open>Echoes and the row that is reconciled\<close>

lemma find_echo_Some:
  "find_echo ev ws = Inr (Some w) \<Longrightarrow> w \<in> set ws \<and> is_echo_of w ev \<and> wasm_event_ok ev"
  by (induction ws) (auto simp: core_isOwnEcho_def split: if_splits sum.splits)

lemma find_echo_None: "find_echo ev ws = Inr None \<Longrightarrow> \<forall>w \<in> set ws. \<not> is_echo_of w ev"
  by (induction ws) (auto simp: core_isOwnEcho_def split: if_splits sum.splits)

text \<open>For events and queues within the 64-bit range the search never throws.\<close>

lemma find_echo_find:
  "wasm_event_ok ev \<Longrightarrow> \<forall>w \<in> set ws. i64_ok (qw_base_version w) \<Longrightarrow>
     find_echo ev ws = Inr (find (\<lambda>w. is_echo_of w ev) ws)"
  by (induction ws) (auto simp: core_isOwnEcho_def)

lemma row_writes_set: "set (row_writes ev q) = {w \<in> set q. on_row (ev_table ev) (ev_id ev) w}"
  by (auto simp: row_writes_def)

lemma reconcile_local_dirty:
  "ws \<noteq> [] \<Longrightarrow> \<exists>l. reconcile_local loc ws = Some l \<and> lr_dirty l \<and>
     (\<forall>l0. loc = Some l0 \<longrightarrow> lr_version l = lr_version l0)"
  by (cases ws) (auto simp: reconcile_local_def)

lemma reconcile_local_Nil [simp]: "reconcile_local loc [] = loc"
  by (simp add: reconcile_local_def)

lemma core_reconcile_Inr:
  "core_reconcile loc ev = Inr d \<Longrightarrow> d = reconcile loc ev \<and> wasm_event_ok ev"
  by (auto simp: core_reconcile_def split: if_splits)

section \<open>One change received\<close>

abbreviation ev_row_of :: "change_event \<Rightarrow> plane \<Rightarrow> replica option" where
  "ev_row_of ev P \<equiv> p_rows P (ev_table ev) (ev_id ev)"

definition adopt_echo_plane :: "(jsval \<Rightarrow> jsval) \<Rightarrow> change_event \<Rightarrow> int \<Rightarrow> queued_write \<Rightarrow> plane \<Rightarrow> plane" where
  "adopt_echo_plane clone ev now w P =
     (let other = other_writes (ev_table ev) (ev_id ev) (qw_seq w) (p_queue P) in
      (set_row (ev_table ev) (ev_id ev)
         (echo_row clone ev (superseded_at w (ev_version ev))
            (list_ex (\<lambda>c. qw_seq w < qw_seq c) other) (other \<noteq> []) now (ev_row_of ev P)) P)
        \<lparr>p_queue := drop_seq (qw_seq w)
            (mark_older (ev_table ev) (ev_id ev) (qw_seq w) (ev_version ev) (p_queue P))\<rparr>)"

definition put_server_plane :: "(jsval \<Rightarrow> jsval) \<Rightarrow> change_event \<Rightarrow> int \<Rightarrow> plane \<Rightarrow> plane" where
  "put_server_plane clone ev now P =
     set_row (ev_table ev) (ev_id ev) (server_row clone ev False now (ev_row_of ev P)) P"

definition resolve_plane :: "(jsval \<Rightarrow> jsval) \<Rightarrow> change_event \<Rightarrow> int \<Rightarrow> plane \<Rightarrow> plane" where
  "resolve_plane clone ev now P =
     (put_server_plane clone ev now P)
       \<lparr>p_queue := filter (\<lambda>w. \<not> on_row (ev_table ev) (ev_id ev) w) (p_queue P)\<rparr>"

definition receive :: "(jsval \<Rightarrow> jsval) \<Rightarrow> change_event \<Rightarrow> int \<Rightarrow> (plane, change_outcome) op" where
  "receive clone ev now P =
     (let ws = row_writes ev (p_queue P); loc = meta_of (ev_row_of ev P) in
      case find_echo ev ws of
        Inl e \<Rightarrow> (Inl e, P)
      | Inr (Some w) \<Rightarrow> (Inr Echo_adopted, adopt_echo_plane clone ev now w P)
      | Inr None \<Rightarrow>
        (case core_reconcile (reconcile_local loc ws) ev of
           Inl e \<Rightarrow> (Inl e, P)
         | Inr Apply \<Rightarrow> (Inr Change_applied, put_server_plane clone ev now P)
         | Inr Conflict \<Rightarrow> (Inr Conflict_resolved, resolve_plane clone ev now P)
         | Inr (Ignore reason) \<Rightarrow>
             if reason = AlreadyApplied \<and> ws = [] \<and>
                (case loc of None \<Rightarrow> True | Some l \<Rightarrow> \<not> lr_dirty l)
             then (Inr Change_refreshed, put_server_plane clone ev now P)
             else (Inr Change_ignored, P)))"

lemma applyServer_spec:
  "applyServer (spec_api k clone view) ev now P = (Inr (), put_server_plane clone ev now P)"
  by (cases "ev_op ev") (simp_all add: applyServer_def spec_put_def spec_del_def put_server_plane_def
      server_row_def)

lemma resolve_spec:
  assumes "queue_ok P"
  shows "spec_resolveConflict clone ev (map qw_seq (row_writes ev (p_queue P))) now P =
    (Inr (), resolve_plane clone ev now P)"
proof -
  let ?seqs = "map qw_seq (row_writes ev (p_queue P))"
  have eq: "qw_seq w \<notin> set ?seqs \<longleftrightarrow> \<not> on_row (ev_table ev) (ev_id ev) w" if "w \<in> set (p_queue P)" for w
    using same_seq [OF assms that] that by (auto simp: row_writes_def)
  have "\<not> list_ex (\<lambda>w. qw_seq w \<notin> set ?seqs \<and> on_row (ev_table ev) (ev_id ev) w) (p_queue P)"
    using eq by (auto simp: list_ex_iff)
  moreover have "filter (\<lambda>w. qw_seq w \<notin> set ?seqs) (p_queue P) =
      filter (\<lambda>w. \<not> on_row (ev_table ev) (ev_id ev) w) (p_queue P)"
    by (rule filter_cong [OF refl eq])
  ultimately show ?thesis
    by (simp add: spec_resolveConflict_def Let_def resolve_plane_def put_server_plane_def conflict_row_def)
qed

lemma reconcile_step_spec:
  assumes ok: "queue_ok (cl_store c)" and ws: "ws = row_writes ev (p_queue (cl_store c))"
  shows "\<exists>log. reconcile_step cfg (spec_api k clone view) ev now loc ws c =
    (case core_reconcile (reconcile_local loc ws) ev of
       Inl e \<Rightarrow> (Inl e, c)
     | Inr Apply \<Rightarrow> (Inr Change_applied, c\<lparr>cl_store := put_server_plane clone ev now (cl_store c)\<rparr>)
     | Inr Conflict \<Rightarrow> (Inr Conflict_resolved,
         c\<lparr>cl_store := resolve_plane clone ev now (cl_store c), cl_log := cl_log c @ log\<rparr>)
     | Inr (Ignore reason) \<Rightarrow>
         if reason = AlreadyApplied \<and> ws = [] \<and> (case loc of None \<Rightarrow> True | Some l \<Rightarrow> \<not> lr_dirty l)
         then (Inr Change_refreshed, c\<lparr>cl_store := put_server_plane clone ev now (cl_store c)\<rparr>)
         else (Inr Change_ignored, c))"
proof (cases "core_reconcile (reconcile_local loc ws) ev")
  case (Inl e)
  then show ?thesis by (simp add: reconcile_step_def lift_res_def bindE_def)
next
  case (Inr d)
  have srv: "on_store (applyServer (spec_api k clone view) ev now) c =
      (Inr (), c\<lparr>cl_store := put_server_plane clone ev now (cl_store c)\<rparr>)"
    by (simp add: on_store_def applyServer_spec)
  show ?thesis
  proof (cases d)
    case Conflict
    let ?ctx = "\<lparr>wc_table = ev_table ev, wc_op = ev_op ev, wc_mutation = Replace\<rparr>"
    have res: "on_store (spec_resolveConflict clone ev (map qw_seq ws) now) c =
        (Inr (), c\<lparr>cl_store := resolve_plane clone ev now (cl_store c)\<rparr>)"
      by (simp add: on_store_def ws resolve_spec [OF ok])
    have tail: "\<exists>log. (case policyFor cfg ?ctx JUndef of
          Inl e \<Rightarrow> ret Conflict_resolved
        | Inr policy \<Rightarrow> bindE (reportTelemetry cfg (spec_api k clone view) ?ctx policy ConflictResolved None None None now)
            (\<lambda>_. ret Conflict_resolved)) c' = (Inr Conflict_resolved, c'\<lparr>cl_log := cl_log c' @ log\<rparr>)"
      for c' :: "plane client"
    proof (cases "policyFor cfg ?ctx JUndef")
      case (Inl e)
      then show ?thesis by (simp add: ret_def exI [of _ "[]"])
    next
      case (Inr b)
      have "\<exists>log. reportTelemetry cfg (spec_api k clone view) ?ctx b ConflictResolved None None None now c' =
          (Inr (), c'\<lparr>cl_log := cl_log c' @ log\<rparr>)"
        by (auto simp: reportTelemetry_def ret_def tell_def Let_def intro: exI [of _ "[]"])
      then obtain log where l: "reportTelemetry cfg (spec_api k clone view) ?ctx b ConflictResolved None None None now c' =
          (Inr (), c'\<lparr>cl_log := cl_log c' @ log\<rparr>)" ..
      show ?thesis
        unfolding Inr sum.case bindE_def l prod.case ret_def by blast
    qed
    show ?thesis
      using tail [of "c\<lparr>cl_store := resolve_plane clone ev now (cl_store c)\<rparr>"] Inr Conflict
      unfolding reconcile_step_def by (simp add: bindE_def lift_res_def res Let_def)
  next
    case Apply
    then show ?thesis
      using Inr srv by (simp add: reconcile_step_def bindE_def lift_res_def ret_def)
  next
    case (Ignore reason)
    then show ?thesis
      using Inr srv by (simp add: reconcile_step_def bindE_def lift_res_def ret_def)
  qed
qed

text \<open>One attempt is enough, whatever the fuel; the telemetry log grows by a report at most.\<close>

theorem applyChange_receive:
  assumes ok: "queue_ok (cl_store c)"
  shows "\<exists>log. applyChange (Suc fuel) cfg (spec_api k clone view) ev now c =
    (fst (receive clone ev now (cl_store c)),
     \<lparr>cl_store = snd (receive clone ev now (cl_store c)), cl_log = cl_log c @ log\<rparr>)"
proof -
  let ?P = "cl_store c" and ?ws = "row_writes ev (p_queue (cl_store c))"
  have c: "\<lparr>cl_store = cl_store c, cl_log = cl_log c\<rparr> = c" by (cases c) simp
  have upd: "c\<lparr>cl_store := p, cl_log := l\<rparr> = \<lparr>cl_store = p, cl_log = l\<rparr>"
    "c\<lparr>cl_store := p\<rparr> = \<lparr>cl_store = p, cl_log = cl_log c\<rparr>" for p l by (cases c; simp)+
  have same: "c\<lparr>cl_store := cl_store c\<rparr> = c" by (simp add: upd c)
  have start: "applyChange (Suc fuel) cfg (spec_api k clone view) ev now c =
      bindE (lift_res (find_echo ev ?ws)) (\<lambda>echo.
        case echo of
          Some w \<Rightarrow> bindE (on_store (spec_adoptEcho clone ev (qw_seq w) now)) (\<lambda>adopted.
              if adopted then ret Echo_adopted else applyChange fuel cfg (spec_api k clone view) ev now)
        | None \<Rightarrow> reconcile_step cfg (spec_api k clone view) ev now (meta_of (ev_row_of ev ?P)) ?ws) c"
    by (simp add: bindE_def on_store_def spec_meta_def spec_list_def same)
  show ?thesis
  proof (cases "find_echo ev ?ws")
    case (Inl e)
    then show ?thesis
      unfolding start by (simp add: bindE_def lift_res_def receive_def c exI [of _ "[]"])
  next
    case (Inr echo)
    show ?thesis
    proof (cases echo)
      case (Some w)
      have w: "w \<in> set (p_queue ?P)" "on_row (ev_table ev) (ev_id ev) w"
        using find_echo_Some [of ev ?ws w] Inr Some by (auto simp: row_writes_set)
      have "spec_adoptEcho clone ev (qw_seq w) now ?P = (Inr True, adopt_echo_plane clone ev now w ?P)"
        using find_seq_mem [OF ok w(1)] w(2) by (simp add: spec_adoptEcho_def adopt_echo_plane_def Let_def)
      then have "on_store (spec_adoptEcho clone ev (qw_seq w) now) c =
          (Inr True, c\<lparr>cl_store := adopt_echo_plane clone ev now w ?P\<rparr>)"
        by (simp add: on_store_def)
      then show ?thesis
        unfolding start using Inr Some
        by (simp add: bindE_def lift_res_def ret_def receive_def upd exI [of _ "[]"])
    next
      case None
      obtain log where "reconcile_step cfg (spec_api k clone view) ev now (meta_of (ev_row_of ev ?P)) ?ws c =
        (case core_reconcile (reconcile_local (meta_of (ev_row_of ev ?P)) ?ws) ev of
           Inl e \<Rightarrow> (Inl e, c)
         | Inr Apply \<Rightarrow> (Inr Change_applied, c\<lparr>cl_store := put_server_plane clone ev now ?P\<rparr>)
         | Inr Conflict \<Rightarrow> (Inr Conflict_resolved,
             c\<lparr>cl_store := resolve_plane clone ev now ?P, cl_log := cl_log c @ log\<rparr>)
         | Inr (Ignore reason) \<Rightarrow>
             if reason = AlreadyApplied \<and> ?ws = [] \<and>
                (case meta_of (ev_row_of ev ?P) of None \<Rightarrow> True | Some l \<Rightarrow> \<not> lr_dirty l)
             then (Inr Change_refreshed, c\<lparr>cl_store := put_server_plane clone ev now ?P\<rparr>)
             else (Inr Change_ignored, c))"
        using reconcile_step_spec [OF ok refl] by blast
      note step = this
      show ?thesis
        unfolding start
        by (cases "core_reconcile (reconcile_local (meta_of (ev_row_of ev ?P)) ?ws) ev")
          (auto simp: bindE_def lift_res_def Inr None step receive_def Let_def upd c
            split: reconcile_decision.splits intro: exI [of _ "[]"])
    qed
  qed
qed

section \<open>What a received change does\<close>

text \<open>The five outcomes and the errors, each with what it needs and what it leaves.\<close>

lemma receive_cases:
  assumes "receive clone ev now P = (res, P')"
  obtains (error) e where "res = Inl e" "P' = P"
    | (echo) w where "res = Inr Echo_adopted" "P' = adopt_echo_plane clone ev now w P"
        "w \<in> set (p_queue P)" "on_row (ev_table ev) (ev_id ev) w" "is_echo_of w ev"
    | (applied) "res = Inr Change_applied" "P' = put_server_plane clone ev now P"
        "row_writes ev (p_queue P) = []" "reconcile (meta_of (ev_row_of ev P)) ev = Apply"
    | (conflict) l where "res = Inr Conflict_resolved" "P' = resolve_plane clone ev now P"
        "reconcile_local (meta_of (ev_row_of ev P)) (row_writes ev (p_queue P)) = Some l"
        "lr_version l < ev_version ev" "lr_dirty l" "\<forall>w \<in> set (row_writes ev (p_queue P)). \<not> is_echo_of w ev"
    | (refreshed) "res = Inr Change_refreshed" "P' = put_server_plane clone ev now P"
        "row_writes ev (p_queue P) = []" "reconcile (meta_of (ev_row_of ev P)) ev = Ignore AlreadyApplied"
        "\<forall>r. ev_row_of ev P = Some r \<longrightarrow> \<not> r_dirty r"
    | (ignored) "res = Inr Change_ignored" "P' = P"
proof -
  let ?ws = "row_writes ev (p_queue P)" and ?loc = "meta_of (ev_row_of ev P)"
  show thesis
  proof (cases "find_echo ev ?ws")
    case (Inl e)
    then show thesis using assms error [of e] by (auto simp: receive_def)
  next
    case (Inr echo_opt)
    show thesis
    proof (cases echo_opt)
      case (Some w)
      then show thesis
        using assms Inr find_echo_Some [of ev ?ws w] echo [of w] by (simp add: receive_def row_writes_set)
    next
      case None
      note no = find_echo_None [OF Inr [unfolded None]]
      show thesis
      proof (cases "core_reconcile (reconcile_local ?loc ?ws) ev")
        case (Inl e)
        then show thesis using assms Inr None error [of e] by (auto simp: receive_def)
      next
        case d: (Inr d)
        have rec: "reconcile (reconcile_local ?loc ?ws) ev = d"
          using core_reconcile_Inr [OF d] by simp
        show thesis
        proof (cases d)
          case Apply
          have "?ws = []"
            using rec Apply reconcile_local_dirty [of ?ws ?loc] reconcile_ApplyD [of _ ev] by force
          then show thesis
            using assms Inr None d Apply rec applied by (simp add: receive_def)
        next
          case Conflict
          then obtain l where "reconcile_local ?loc ?ws = Some l" "lr_version l < ev_version ev" "lr_dirty l"
            using reconcile_ConflictD rec by blast
          then show thesis
            using assms Inr None d Conflict no conflict by (simp add: receive_def)
        next
          case (Ignore reason)
          show thesis
          proof (cases "reason = AlreadyApplied \<and> ?ws = [] \<and>
              (case ?loc of None \<Rightarrow> True | Some l \<Rightarrow> \<not> lr_dirty l)")
            case True
            then show thesis
              using assms Inr None d Ignore rec refreshed
              by (auto simp: receive_def meta_of_def split: option.splits)
          next
            case False
            then show thesis
              using assms Inr None d Ignore ignored by (auto simp: receive_def)
          qed
        qed
      qed
    qed
  qed
qed

section \<open>Pending intent\<close>

lemma drop_mark_mem:
  "w' \<in> set (drop_seq s (mark_older t i s v q)) \<longleftrightarrow>
     (\<exists>w \<in> set q. qw_seq w \<noteq> s \<and> w' = (if qw_seq w < s \<and> on_row t i w then mark_superseded v w else w))"
  by (auto simp: drop_seq_def mark_older_def)

lemma drop_mark_seq_list:
  "map qw_seq (drop_seq s (mark_older t i s v q)) = filter (\<lambda>x. x \<noteq> s) (map qw_seq q)"
  by (induction q) (auto simp: drop_seq_def mark_older_def)

lemma drop_mark_seqs: "qw_seq ` set (drop_seq s (mark_older t i s v q)) = qw_seq ` set q - {s}"
  using arg_cong [OF drop_mark_seq_list [of s t i v q], of set] by auto

lemma drop_mark_on_row:
  assumes "w \<in> set q" "qw_seq w \<noteq> s" "on_row t' i' w"
  shows "\<exists>w' \<in> set (drop_seq s (mark_older t i s v q)). on_row t' i' w'"
proof
  show "(if qw_seq w < s \<and> on_row t i w then mark_superseded v w else w) \<in>
      set (drop_seq s (mark_older t i s v q))"
    using assms by (subst drop_mark_mem) blast
qed (use assms in simp)

lemma dirty_queuedD:
  "plane_ok P \<Longrightarrow> p_rows P t i = Some r \<Longrightarrow> r_dirty r \<Longrightarrow> \<exists>w \<in> set (p_queue P). on_row t i w"
  by (simp add: plane_ok_def dirty_queued_def)

lemma sel_planes [simp]:
  "p_queue (put_server_plane clone ev now P) = p_queue P"
  "p_next_seq (put_server_plane clone ev now P) = p_next_seq P"
  "p_cursor (put_server_plane clone ev now P) = p_cursor P"
  "p_queue (resolve_plane clone ev now P) = filter (\<lambda>w. \<not> on_row (ev_table ev) (ev_id ev) w) (p_queue P)"
  "p_next_seq (resolve_plane clone ev now P) = p_next_seq P"
  "p_cursor (resolve_plane clone ev now P) = p_cursor P"
  "p_rows (put_server_plane clone ev now P) t i =
     (if t = ev_table ev \<and> i = ev_id ev then server_row clone ev False now (ev_row_of ev P) else p_rows P t i)"
  "p_rows (resolve_plane clone ev now P) t i =
     (if t = ev_table ev \<and> i = ev_id ev then server_row clone ev False now (ev_row_of ev P) else p_rows P t i)"
  by (simp_all add: put_server_plane_def resolve_plane_def)

lemma sel_adopt_plane [simp]:
  "p_queue (adopt_echo_plane clone ev now w P) =
     drop_seq (qw_seq w) (mark_older (ev_table ev) (ev_id ev) (qw_seq w) (ev_version ev) (p_queue P))"
  "p_next_seq (adopt_echo_plane clone ev now w P) = p_next_seq P"
  "p_cursor (adopt_echo_plane clone ev now w P) = p_cursor P"
  "p_rows (adopt_echo_plane clone ev now w P) t i =
     (if t = ev_table ev \<and> i = ev_id ev
      then echo_row clone ev (superseded_at w (ev_version ev))
         (list_ex (\<lambda>c. qw_seq w < qw_seq c) (other_writes (ev_table ev) (ev_id ev) (qw_seq w) (p_queue P)))
         (other_writes (ev_table ev) (ev_id ev) (qw_seq w) (p_queue P) \<noteq> []) now (ev_row_of ev P)
      else p_rows P t i)"
  by (simp_all add: adopt_echo_plane_def Let_def)

text \<open>
  A queued write survives an incoming change unless the change is its own echo, or a
  newer server version of its row that no queued write accounts for.
\<close>

theorem receive_retires:
  assumes ok: "queue_ok P" and rcv: "receive clone ev now P = (res, P')"
    and w: "w \<in> set (p_queue P)" and gone: "qw_seq w \<notin> qw_seq ` set (p_queue P')"
  shows "on_row (ev_table ev) (ev_id ev) w \<and>
    (res = Inr Echo_adopted \<and> is_echo_of w ev \<or>
     res = Inr Conflict_resolved \<and> \<not> is_echo_of w ev \<and>
       (\<forall>r. ev_row_of ev P = Some r \<longrightarrow> r_version r < ev_version ev))"
  using rcv
proof (cases rule: receive_cases)
  case (echo w0)
  have "qw_seq w = qw_seq w0"
    using gone w echo(2) by (auto simp: drop_mark_seqs)
  then have "w = w0" by (rule same_seq [OF ok w echo(3)])
  then show ?thesis using echo by simp
next
  case (conflict l)
  have row: "on_row (ev_table ev) (ev_id ev) w"
    using gone w conflict(2) by auto
  then have "row_writes ev (p_queue P) \<noteq> []"
    using w by (auto simp: row_writes_def filter_empty_conv)
  then obtain l' where "reconcile_local (meta_of (ev_row_of ev P)) (row_writes ev (p_queue P)) = Some l'"
    "\<forall>l0. meta_of (ev_row_of ev P) = Some l0 \<longrightarrow> lr_version l' = lr_version l0"
    using reconcile_local_dirty by blast
  then have "\<forall>r. ev_row_of ev P = Some r \<longrightarrow> r_version r < ev_version ev"
    using conflict(3,4) by (auto simp: meta_of_def)
  then show ?thesis
    using row w conflict by (simp add: row_writes_set)
qed (use w gone in auto)

text \<open>A dirty row keeps its contents unless it is settled by its echo or loses a conflict.\<close>

theorem receive_keeps_dirty:
  assumes ok: "plane_ok P" and rcv: "receive clone ev now P = (res, P')"
    and r: "p_rows P t i = Some r" "r_dirty r"
    and res: "res \<noteq> Inr Echo_adopted" "res \<noteq> Inr Conflict_resolved"
  shows "p_rows P' t i = Some r"
proof -
  obtain w where w: "w \<in> set (p_queue P)" "on_row t i w"
    using dirty_queuedD [OF ok r] by blast
  have "row_writes ev (p_queue P) \<noteq> []" if "t = ev_table ev" "i = ev_id ev"
    using w that by (auto simp: row_writes_def filter_empty_conv)
  with rcv res r show ?thesis
    by (cases rule: receive_cases) auto
qed

section \<open>Versions\<close>

lemma server_row_version:
  "server_row clone ev pending now rec = Some r \<Longrightarrow>
     r_version r = ev_version ev \<and> r_row r = clone (ev_row ev) \<and> r_dirty r = pending \<and> r_id r = ev_id ev"
  by (auto simp: server_row_def split: change_op.splits)

lemma echo_row_version:
  "echo_row clone ev sd newer pending now (Some r) = Some r' \<Longrightarrow> r_version r \<le> r_version r'"
  by (auto simp: echo_row_def dest: server_row_version split: if_splits)

theorem receive_version_mono:
  assumes "receive clone ev now P = (res, P')"
    and "p_rows P t i = Some r" and "p_rows P' t i = Some r'"
  shows "r_version r \<le> r_version r'"
  using assms(1)
proof (cases rule: receive_cases)
  case (echo w)
  then show ?thesis
    using assms(2,3) echo_row_version by (auto split: if_splits)
next
  case applied
  then show ?thesis
    using assms(2,3) reconcile_ApplyD [OF applied(4)]
    by (auto simp: meta_of_def dest: server_row_version split: if_splits)
next
  case (conflict l)
  have "lr_version l = r_version r" if "t = ev_table ev" "i = ev_id ev"
    using conflict(3) that assms(2) reconcile_local_dirty [of "row_writes ev (p_queue P)" "meta_of (ev_row_of ev P)"]
    by (cases "row_writes ev (p_queue P) = []") (auto simp: meta_of_def)
  then show ?thesis
    using conflict assms(2,3) by (auto dest: server_row_version split: if_splits)
next
  case refreshed
  then show ?thesis
    using assms(2,3) reconcile_AlreadyAppliedD [OF refreshed(4)]
    by (auto simp: meta_of_def dest: server_row_version split: if_splits)
qed (use assms in auto)

section \<open>The plane stays well-formed\<close>

lemma queue_ok_drop_mark:
  assumes "queue_ok P"
    and "map qw_seq (p_queue P') = filter F (map qw_seq (p_queue P))" and "p_next_seq P' = p_next_seq P"
  shows "queue_ok P'"
proof -
  have "sorted_wrt (<) (map qw_seq (p_queue P'))"
    using assms(1,2) by (simp add: queue_ok_def sorted_wrt_filter)
  moreover have "qw_seq ` set (p_queue P') \<subseteq> qw_seq ` set (p_queue P)"
    using arg_cong [OF assms(2), of set] by auto
  ultimately show ?thesis
    using assms(1,3) by (force simp: queue_ok_def)
qed

lemma queue_ok_filter:
  "queue_ok P \<Longrightarrow> p_queue P' = filter F (p_queue P) \<Longrightarrow> p_next_seq P' = p_next_seq P \<Longrightarrow> queue_ok P'"
  by (simp add: queue_ok_def sorted_map_filter)

lemma echo_row_id:
  "echo_row clone ev sd newer pending now rec = Some r \<Longrightarrow>
     (\<And>r0. rec = Some r0 \<Longrightarrow> r_id r0 = ev_id ev) \<Longrightarrow> r_id r = ev_id ev"
  by (auto simp: echo_row_def dest: server_row_version split: if_splits)

lemma echo_row_dirty:
  "echo_row clone ev sd newer pending now rec = Some r \<Longrightarrow> r_dirty r \<Longrightarrow> pending \<or> newer \<and> \<not> sd"
  by (auto simp: echo_row_def dest: server_row_version split: if_splits)

theorem receive_plane_ok:
  assumes ok: "plane_ok P" and rcv: "receive clone ev now P = (res, P')"
  shows "plane_ok P'"
  using rcv
proof (cases rule: receive_cases)
  case (echo w)
  let ?t = "ev_table ev" and ?i = "ev_id ev"
  have q: "queue_ok P'"
    by (rule queue_ok_drop_mark [where P = P]) (use ok echo(2) in \<open>auto simp: plane_ok_def drop_mark_seq_list\<close>)
  have ids: "ids_ok P'"
    using ok echo(2) echo_row_id by (auto simp: plane_ok_def ids_ok_def)
  have "dirty_queued P'"
    unfolding dirty_queued_def
  proof (intro allI impI)
    fix t i r
    assume r: "p_rows P' t i = Some r" "r_dirty r"
    have "\<exists>x \<in> set (p_queue P). qw_seq x \<noteq> qw_seq w \<and> on_row t i x"
    proof (cases "t = ?t \<and> i = ?i")
      case True
      then have "other_writes ?t ?i (qw_seq w) (p_queue P) \<noteq> [] \<or>
          list_ex (\<lambda>c. qw_seq w < qw_seq c) (other_writes ?t ?i (qw_seq w) (p_queue P))"
        using r echo(2) echo_row_dirty by fastforce
      then have "other_writes ?t ?i (qw_seq w) (p_queue P) \<noteq> []" by auto
      then show ?thesis using True by (auto simp: other_writes_def filter_empty_conv)
    next
      case False
      then have "p_rows P t i = Some r" using r(1) echo(2) by auto
      then obtain x where x: "x \<in> set (p_queue P)" "on_row t i x"
        using dirty_queuedD [OF ok _ r(2)] by blast
      then have "x \<noteq> w" using echo(4) False by (auto simp: on_row_def)
      then have "qw_seq x \<noteq> qw_seq w"
        using same_seq [OF _ x(1) echo(3)] ok by (auto simp: plane_ok_def)
      then show ?thesis using x by blast
    qed
    then show "\<exists>x \<in> set (p_queue P'). on_row t i x"
      using drop_mark_on_row echo(2) by fastforce
  qed
  then show ?thesis using q ids by (simp add: plane_ok_def)
next
  case (conflict l)
  have "queue_ok P'"
    by (rule queue_ok_filter [where P = P]) (use ok conflict(2) in \<open>auto simp: plane_ok_def\<close>)
  moreover have "ids_ok P'" "dirty_queued P'"
    using ok conflict(2) by (fastforce simp: plane_ok_def ids_ok_def dirty_queued_def on_row_def
        dest: server_row_version)+
  ultimately show ?thesis by (simp add: plane_ok_def)
qed (use ok in \<open>auto simp: plane_ok_def ids_ok_def dirty_queued_def queue_ok_def dest: server_row_version\<close>)

section \<open>One change received over an adapter\<close>

context store_contract
begin

text \<open>All of the reconciliation, or a rejection that leaves the plane as it was.\<close>

theorem applyChange_atomic:
  assumes "invar (cl_store c)" "plane_ok (plane_of (cl_store c))"
    and eq: "applyChange (Suc fuel) cfg api ev now c = (res, c')"
  shows "invar (cl_store c') \<and>
    (receive clone ev now (plane_of (cl_store c)) = (res, plane_of (cl_store c')) \<or>
     (\<exists>e. res = Inl e) \<and> plane_of (cl_store c') = plane_of (cl_store c))"
proof (cases res)
  case (Inl e)
  then show ?thesis
    using implements_Inl [OF applyChange_implements _ eq [unfolded Inl]] assms(1)
    unfolding client_inv_def client_plane_def by (auto dest: client.simps(1) [THEN iffD1])
next
  case (Inr v)
  have ok: "queue_ok (cl_store (client_plane plane_of c))" using assms(2) by (simp add: plane_ok_def)
  have "invar (cl_store c') \<and>
      applyChange (Suc fuel) cfg spec_client ev now (client_plane plane_of c) = (Inr v, client_plane plane_of c')"
    using implements_Inr [OF applyChange_implements _ eq [unfolded Inr]] assms(1) unfolding client_inv_def by blast
  moreover obtain log where "applyChange (Suc fuel) cfg spec_client ev now (client_plane plane_of c) =
      (fst (receive clone ev now (plane_of (cl_store c))),
       \<lparr>cl_store = snd (receive clone ev now (plane_of (cl_store c))), cl_log = cl_log c @ log\<rparr>)"
    using applyChange_receive [OF ok] by force
  ultimately show ?thesis by (simp add: client_plane_def prod_eq_iff Inr)
qed

end

context reliable_store
begin

theorem applyChange_receive_exact:
  assumes "invar (cl_store c)" "ready (cl_store c)" "plane_ok (plane_of (cl_store c))"
    and "ev_table ev \<in> tables"
    and eq: "applyChange (Suc fuel) cfg api ev now c = (res, c')"
  shows "invar (cl_store c') \<and> ready (cl_store c') \<and>
    receive clone ev now (plane_of (cl_store c)) = (res, plane_of (cl_store c'))"
proof -
  have ok: "queue_ok (cl_store (client_plane plane_of c))" using assms(3) by (simp add: plane_ok_def)
  have "invar (cl_store c') \<and> ready (cl_store c') \<and>
      applyChange (Suc fuel) cfg spec_client ev now (client_plane plane_of c) = (res, client_plane plane_of c')"
    using implements_exactlyD [OF applyChange_exact [OF assms(4)] _ _ eq] assms(1,2)
    unfolding client_inv_def by blast
  moreover obtain log where "applyChange (Suc fuel) cfg spec_client ev now (client_plane plane_of c) =
      (fst (receive clone ev now (plane_of (cl_store c))),
       \<lparr>cl_store = snd (receive clone ev now (plane_of (cl_store c))), cl_log = cl_log c @ log\<rparr>)"
    using applyChange_receive [OF ok] by force
  ultimately show ?thesis by (simp add: client_plane_def prod_eq_iff)
qed

end

end
