(* ===== verification/Protocol.thy ===== *)
theory Protocol
  imports Reconciliation
begin

text \<open>
  The client as a state machine. A step is one gate body (\<open>mutate\<close>) of client.mjs, or a
  cursor advance of start.mjs; every public operation is a run of such steps, with whatever
  a send lets happen in between. The invariant of the plane is proved for the steps and
  holds, through the contract, in every reachable state of every adapter, storage faults
  included.
\<close>

section \<open>Steps\<close>

datatype gate =
    Receive nat change_event
  | Intend write_context write_policy string jsval string
  | Settle string string write_ack nat write_strategy
  | Retry nat
  | Prune string string
  | Advance int string
  | Peek_meta string string
  | Peek_queue
  | Peek_all string
  | Peek_cursor string

fun gate_body :: "config \<Rightarrow> 's store_api \<Rightarrow> int \<Rightarrow> gate \<Rightarrow> ('s client, unit) op" where
  "gate_body cfg api now (Receive fuel ev) = bindE (applyChange fuel cfg api ev now) (\<lambda>_. ret ())"
| "gate_body cfg api now (Intend ctx policy i row key) =
     bindE (on_store (persist_intent api ctx policy i row key now)) (\<lambda>_. ret ())"
| "gate_body cfg api now (Settle t i ack s strategy) =
     bindE (on_store (applyAck api t i ack s strategy now)) (\<lambda>_. ret ())"
| "gate_body cfg api now (Retry s) = bindE (on_store (api_bump_attempts api s)) (\<lambda>_. ret ())"
| "gate_body cfg api now (Prune t i) = bindE (on_store (prune_one api t i)) (\<lambda>_. ret ())"
| "gate_body cfg api now (Advance c sc) = bindE (on_store (api_set_cursor api c sc)) (\<lambda>_. ret ())"
| "gate_body cfg api now (Peek_meta t i) = bindE (on_store (api_meta api t i)) (\<lambda>_. ret ())"
| "gate_body cfg api now Peek_queue = bindE (on_store (api_list api)) (\<lambda>_. ret ())"
| "gate_body cfg api now (Peek_all t) = bindE (on_store (api_all api t)) (\<lambda>_. ret ())"
| "gate_body cfg api now (Peek_cursor sc) = bindE (on_store (api_get_cursor api sc)) (\<lambda>_. ret ())"

text \<open>Runs of steps, each succeeding or failing; the telemetry log is not part of the state.\<close>

inductive runs :: "config \<Rightarrow> 's store_api \<Rightarrow> 's \<Rightarrow> 's \<Rightarrow> bool" for cfg api where
  runs_refl: "runs cfg api s s"
| runs_step: "runs cfg api s s' \<Longrightarrow> gate_body cfg api now g \<lparr>cl_store = s', cl_log = items\<rparr> = (res, c) \<Longrightarrow>
    runs cfg api s (cl_store c)"

lemma runs_trans: "runs cfg api s2 s3 \<Longrightarrow> runs cfg api s1 s2 \<Longrightarrow> runs cfg api s1 s3"
  by (induction rule: runs.induct) (auto intro: runs.intros)

section \<open>The public operations are runs\<close>

definition op_runs :: "config \<Rightarrow> 's store_api \<Rightarrow> ('s client, 'a) op \<Rightarrow> bool" where
  "op_runs cfg api f \<longleftrightarrow> (\<forall>c res c'. f c = (res, c') \<longrightarrow> runs cfg api (cl_store c) (cl_store c'))"

lemma op_runsD: "op_runs cfg api f \<Longrightarrow> f c = (res, c') \<Longrightarrow> runs cfg api (cl_store c) (cl_store c')"
  unfolding op_runs_def by blast

lemma op_runs_ret [intro!]: "op_runs cfg api (ret v)"
  by (auto simp: op_runs_def intro: runs_refl)

lemma op_runs_raise [intro!]: "op_runs cfg api (raise e)"
  by (auto simp: op_runs_def intro: runs_refl)

lemma op_runs_lift [intro!]: "op_runs cfg api (lift_res r)"
  by (auto simp: op_runs_def intro: runs_refl)

lemma op_runs_tell [intro!]: "op_runs cfg api (tell xs)"
  by (auto simp: op_runs_def intro: runs_refl)

lemma op_runs_bindE [intro!]:
  assumes f: "op_runs cfg api f" and k: "\<And>v. op_runs cfg api (g v)"
  shows "op_runs cfg api (bindE f g)"
  unfolding op_runs_def
proof (intro allI impI)
  fix c res c'
  assume eq: "bindE f g c = (res, c')"
  obtain q t where ft: "f c = (q, t)" by (cases "f c")
  have 1: "runs cfg api (cl_store c) (cl_store t)" by (rule op_runsD [OF f ft])
  show "runs cfg api (cl_store c) (cl_store c')"
  proof (cases q)
    case (Inl e)
    then show ?thesis using eq ft 1 by simp
  next
    case (Inr v)
    then have "g v t = (res, c')" using eq ft by simp
    from runs_trans [OF op_runsD [OF k this] 1] show ?thesis .
  qed
qed

lemma op_runs_catchE [intro!]:
  assumes f: "op_runs cfg api f" and h: "\<And>e. op_runs cfg api (g e)"
  shows "op_runs cfg api (catchE f g)"
  unfolding op_runs_def
proof (intro allI impI)
  fix c res c'
  assume eq: "catchE f g c = (res, c')"
  obtain q t where ft: "f c = (q, t)" by (cases "f c")
  have 1: "runs cfg api (cl_store c) (cl_store t)" by (rule op_runsD [OF f ft])
  show "runs cfg api (cl_store c) (cl_store c')"
  proof (cases q)
    case (Inl e)
    then have "g e t = (res, c')" using eq ft by (simp add: catchE_def)
    from runs_trans [OF op_runsD [OF h this] 1] show ?thesis .
  next
    case (Inr v)
    then show ?thesis using eq ft 1 by (simp add: catchE_def)
  qed
qed

text \<open>A gate body that discards its value runs like the body itself.\<close>

lemma op_runs_gate:
  assumes "gate_body cfg api now g = bindE f (\<lambda>_. ret ())"
  shows "op_runs cfg api f"
  unfolding op_runs_def
proof (intro allI impI)
  fix c res c'
  assume eq: "f c = (res, c')"
  have c: "\<lparr>cl_store = cl_store c, cl_log = cl_log c\<rparr> = c" by (cases c) simp
  have "\<exists>r. gate_body cfg api now g \<lparr>cl_store = cl_store c, cl_log = cl_log c\<rparr> = (r, c')"
    unfolding assms c using eq by (cases res) (auto simp: ret_def)
  then obtain r where "gate_body cfg api now g \<lparr>cl_store = cl_store c, cl_log = cl_log c\<rparr> = (r, c')" ..
  from runs_step [OF runs_refl this] show "runs cfg api (cl_store c) (cl_store c')" .
qed

lemmas op_runs_gates [intro!] =
  op_runs_gate [OF gate_body.simps(1)] op_runs_gate [OF gate_body.simps(2)]
  op_runs_gate [OF gate_body.simps(3)] op_runs_gate [OF gate_body.simps(4)]
  op_runs_gate [OF gate_body.simps(5)] op_runs_gate [OF gate_body.simps(6)]
  op_runs_gate [OF gate_body.simps(7)] op_runs_gate [OF gate_body.simps(8)]
  op_runs_gate [OF gate_body.simps(9)] op_runs_gate [OF gate_body.simps(10)]

lemma op_runs_report [intro!]: "op_runs cfg api (reportTelemetry cfg' api' ctx pol ph n ty sp now)"
  unfolding reportTelemetry_cases by (auto simp: Let_def)

lemma op_runs_span [intro!]:
  "op_runs cfg api (span_end sp)" "op_runs cfg api (span_error sp ty)"
  "op_runs cfg api (beginTelemetry cfg' api' ctx pol)"
  by (auto simp: span_end_def span_error_def beginTelemetry_def split: option.split)

lemma write_with_runs:
  assumes "\<And>f w. send = Some f \<Longrightarrow> op_runs cfg api (f w)"
  shows "op_runs cfg api (write_with cfg api ctx policy i row send key now later)"
  unfolding write_with_def attempt_send_def record_failure_def
  using assms by (auto split: option.split)

theorem write_row_runs:
  assumes "\<And>f w. send = Some f \<Longrightarrow> op_runs cfg api (f w)"
  shows "op_runs cfg api (write_row cfg api t i row send p m ov key now later)"
  unfolding write_row_def Let_def using assms by (auto intro!: write_with_runs)

lemma flush_one_runs:
  "op_runs cfg api (send w) \<Longrightarrow> op_runs cfg api (flush_one api send now w)"
  unfolding flush_one_def flush_send_def by auto

lemma flush_loop_runs:
  "(\<And>w. op_runs cfg api (send w)) \<Longrightarrow> op_runs cfg api (flush_loop api send onError now ws n fs)"
proof (induction ws arbitrary: n fs)
  case Nil
  then show ?case by auto
next
  case (Cons w ws)
  then show ?case
    unfolding flush_loop.simps by (auto intro!: flush_one_runs split: option.split)
qed

theorem flushQueue_runs:
  "(\<And>w. op_runs cfg api (send w)) \<Longrightarrow> op_runs cfg api (flushQueue api send onError now)"
  unfolding flushQueue_def by (auto intro!: flush_loop_runs split: prod.split)

lemma hydrate_rows_runs: "op_runs cfg api (hydrate_rows fuel cfg api cv t now rows res seen)"
proof (induction rows arbitrary: res seen)
  case Nil
  then show ?case by auto
next
  case (Cons row rows)
  then show ?case
    unfolding hydrate_rows.simps hydrate_change_def by (auto simp: Let_def split: option.split)
qed

lemma prune_rows_runs: "op_runs cfg api (prune_rows api cv t rows seen res)"
proof (induction rows arbitrary: res)
  case Nil
  then show ?case by auto
next
  case (Cons row rows)
  then show ?case by (auto simp: Let_def)
qed

theorem hydrate_runs: "op_runs cfg api (hydrate fuel cfg api cv t rows prune now)"
  unfolding hydrate_def by (auto intro!: hydrate_rows_runs prune_rows_runs split: prod.split)

section \<open>The abstract steps keep the plane well-formed\<close>

lemma push_ok:
  assumes "queue_ok P" shows "queue_ok (push_write clone w P)"
  using assms by (auto simp: queue_ok_def push_write_def sorted_wrt_append)

lemma push_sel [simp]:
  "p_rows (push_write clone w P) = p_rows P"
  "set (p_queue (push_write clone w P)) =
     insert (queue_record (clone_write clone w) (p_next_seq P)) (set (p_queue P))"
  by (auto simp: push_write_def)

lemma set_row_ok [simp]: "queue_ok (set_row t i r P) = queue_ok P"
  by (simp add: queue_ok_def)

lemma enqueue_plane_ok:
  "plane_ok P \<Longrightarrow> spec_enqueue clone w P = (res, P') \<Longrightarrow> plane_ok P'"
  by (auto simp: spec_enqueue_def plane_ok_def push_ok dirty_queued_def ids_ok_def)

lemma enqueueOptimistic_plane_ok:
  assumes ok: "plane_ok P" and eq: "spec_enqueueOptimistic clone w row now P = (res, P')"
  shows "plane_ok P'"
proof -
  have "\<exists>x. P' = push_write clone w (set_row (qw_table w) (qw_id w) x P) \<and> (\<forall>r. x = Some r \<longrightarrow> r_id r = qw_id w)"
    using eq by (cases "qw_op w") (auto simp: spec_enqueueOptimistic_def)
  then obtain x where P': "P' = push_write clone w (set_row (qw_table w) (qw_id w) x P)"
    and x: "\<And>r. x = Some r \<Longrightarrow> r_id r = qw_id w" by blast
  have "dirty_queued P'"
    unfolding dirty_queued_def
  proof (intro allI impI)
    fix t i r
    assume r: "p_rows P' t i = Some r" "r_dirty r"
    show "\<exists>y \<in> set (p_queue P'). on_row t i y"
    proof (cases "t = qw_table w \<and> i = qw_id w")
      case True
      then show ?thesis by (simp add: P' on_row_def)
    next
      case False
      then have "p_rows P t i = Some r" using r(1) by (auto simp: P')
      then show ?thesis using dirty_queuedD [OF ok _ r(2)] by (auto simp: P')
    qed
  qed
  moreover have "queue_ok P'" "ids_ok P'"
    using ok x by (auto simp: P' plane_ok_def push_ok ids_ok_def)
  ultimately show ?thesis by (simp add: plane_ok_def)
qed

text \<open>
  Settling shares its argument: the write \<open>s\<close> leaves the queue, and the row it was for is
  dirty only while another write for it remains.
\<close>

lemma settle_plane_ok:
  assumes ok: "plane_ok P" and w: "find_seq s (p_queue P) = Some w" "on_row t i w"
    and P': "P' = (set_row t i x P)\<lparr>p_queue := drop_seq s (mark_older t i s v (p_queue P))\<rparr>"
    and x: "\<And>r. x = Some r \<Longrightarrow> r_id r = i \<and> (r_dirty r \<longrightarrow> other_writes t i s (p_queue P) \<noteq> [])"
  shows "plane_ok P'"
proof -
  have q: "queue_ok P'"
    by (rule queue_ok_drop_mark [where P = P]) (use ok P' in \<open>auto simp: plane_ok_def drop_mark_seq_list\<close>)
  have "dirty_queued P'"
    unfolding dirty_queued_def
  proof (intro allI impI)
    fix t' i' r
    assume r: "p_rows P' t' i' = Some r" "r_dirty r"
    have "\<exists>y \<in> set (p_queue P). qw_seq y \<noteq> s \<and> on_row t' i' y"
    proof (cases "t' = t \<and> i' = i")
      case True
      then have "other_writes t i s (p_queue P) \<noteq> []" using x r P' by auto
      then show ?thesis using True by (auto simp: other_writes_def filter_empty_conv)
    next
      case False
      then have "p_rows P t' i' = Some r" using r(1) P' by auto
      then obtain y where y: "y \<in> set (p_queue P)" "on_row t' i' y"
        using dirty_queuedD [OF ok _ r(2)] by blast
      moreover from this have "y \<noteq> w" using w(2) False by (auto simp: on_row_def)
      moreover have "w \<in> set (p_queue P)" "qw_seq w = s" using find_seq_Some [OF w(1)] by auto
      ultimately show ?thesis using same_seq [of P y w] ok by (auto simp: plane_ok_def)
    qed
    then obtain y where "y \<in> set (p_queue P)" "qw_seq y \<noteq> s" "on_row t' i' y" by blast
    from drop_mark_on_row [OF this] show "\<exists>y \<in> set (p_queue P'). on_row t' i' y"
      by (simp add: P')
  qed
  moreover have "ids_ok P'"
    using ok x by (auto simp: P' plane_ok_def ids_ok_def)
  ultimately show ?thesis using q by (simp add: plane_ok_def)
qed

lemma ids_okD: "plane_ok P \<Longrightarrow> p_rows P t i = Some r \<Longrightarrow> r_id r = i"
  by (simp add: plane_ok_def ids_ok_def)

lemma settleAck_plane_ok:
  assumes ok: "plane_ok P" and eq: "spec_settleAck t i s v now P = (res, P')"
  shows "plane_ok P'"
proof (cases "find_seq s (p_queue P)")
  case None
  then show ?thesis using eq ok by (simp add: spec_settleAck_def)
next
  case (Some w)
  show ?thesis
  proof (cases "on_row t i w")
    case False
    then show ?thesis using eq ok Some by (simp add: spec_settleAck_def)
  next
    case True
    show ?thesis
      by (rule settle_plane_ok [OF ok Some True])
        (use eq Some True ids_okD [OF ok] in \<open>auto simp: spec_settleAck_def Let_def\<close>)
  qed
qed

lemma settlePessimistic_plane_ok:
  assumes ok: "plane_ok P" and eq: "spec_settlePessimistic clone t i s v now P = (res, P')"
  shows "plane_ok P'"
proof (cases "find_seq s (p_queue P)")
  case None
  then show ?thesis using eq ok by (simp add: spec_settlePessimistic_def)
next
  case (Some w)
  show ?thesis
  proof (cases "on_row t i w")
    case False
    then show ?thesis using eq ok Some by (simp add: spec_settlePessimistic_def)
  next
    case True
    let ?other = "other_writes t i s (p_queue P)"
    let ?pre = "(case p_rows P t i of Some rec \<Rightarrow> r_dirty rec | None \<Rightarrow> False) \<and> list_ex (\<lambda>c. s < qw_seq c) ?other"
    let ?x = "pessimistic_row clone w v ?pre (?other \<noteq> []) now (p_rows P t i)"
    have P': "P' = (set_row t i ?x P)\<lparr>p_queue := drop_seq s (mark_older t i s v (p_queue P))\<rparr>"
      using eq Some True by (simp add: spec_settlePessimistic_def Let_def)
    have "r_id r = i \<and> (r_dirty r \<longrightarrow> ?other \<noteq> [])" if "?x = Some r" for r
    proof (cases ?pre)
      case True
      then have "?other \<noteq> []" by auto
      with that True ids_okD [OF ok] show ?thesis by (auto simp: pessimistic_row_def)
    next
      case False
      with that \<open>on_row t i w\<close> show ?thesis
        unfolding pessimistic_row_def if_not_P [OF False] by (auto simp: on_row_def split: change_op.splits)
    qed
    then show ?thesis by (rule settle_plane_ok [OF ok Some True P'])
  qed
qed

lemma queue_ok_map:
  assumes "queue_ok P" "\<And>x. qw_seq (f x) = qw_seq x"
    and "p_queue P' = map f (p_queue P)" "p_next_seq P' = p_next_seq P"
  shows "queue_ok P'"
proof -
  have "map qw_seq (map f q) = map qw_seq q" for q
    by (induction q) (simp_all add: assms(2))
  then have m: "map qw_seq (p_queue P') = map qw_seq (p_queue P)"
    by (simp only: assms(3))
  moreover have "\<forall>w \<in> set (p_queue P'). qw_seq w < p_next_seq P"
    using assms(1,2) unfolding assms(3) by (simp add: queue_ok_def)
  ultimately show ?thesis
    using assms(1) unfolding queue_ok_def m assms(4) by simp
qed

lemma bump_plane_ok:
  assumes ok: "plane_ok P" and eq: "spec_bumpAttempts s P = (res, P')"
  shows "plane_ok P'"
proof -
  let ?f = "\<lambda>c. if qw_seq c = s then bump_record c else c"
  have "P' = P \<or> P' = P\<lparr>p_queue := map ?f (p_queue P)\<rparr>"
    using eq by (auto simp: spec_bumpAttempts_def split: option.splits)
  moreover have "plane_ok (P\<lparr>p_queue := map ?f (p_queue P)\<rparr>)"
  proof -
    have "queue_ok (P\<lparr>p_queue := map ?f (p_queue P)\<rparr>)"
      by (rule queue_ok_map [where P = P and f = ?f]) (use ok in \<open>auto simp: plane_ok_def\<close>)
    moreover have "dirty_queued (P\<lparr>p_queue := map ?f (p_queue P)\<rparr>)"
      unfolding dirty_queued_def
    proof (intro allI impI)
      fix t i r assume "p_rows (P\<lparr>p_queue := map ?f (p_queue P)\<rparr>) t i = Some r" "r_dirty r"
      then have "p_rows P t i = Some r" "r_dirty r" by simp_all
      from dirty_queuedD [OF ok this] obtain y where "y \<in> set (p_queue P)" "on_row t i y" by blast
      then show "\<exists>w \<in> set (p_queue (P\<lparr>p_queue := map ?f (p_queue P)\<rparr>)). on_row t i w"
        by (intro bexI [of _ "?f y"]) auto
    qed
    ultimately show ?thesis using ok by (simp add: plane_ok_def ids_ok_def)
  qed
  ultimately show ?thesis using ok by auto
qed

lemma del_plane_ok: "plane_ok P \<Longrightarrow> spec_del t i P = (res, P') \<Longrightarrow> plane_ok P'"
  by (auto simp: spec_del_def plane_ok_def dirty_queued_def ids_ok_def split: if_splits)

lemma setCursor_plane_ok: "plane_ok P \<Longrightarrow> spec_setCursor c sc P = (res, P') \<Longrightarrow> plane_ok P'"
  by (auto simp: spec_setCursor_def plane_ok_def queue_ok_def dirty_queued_def ids_ok_def split: if_splits)

text \<open>An operation whose every step keeps the plane well-formed.\<close>

definition keeps :: "(plane, 'a) op \<Rightarrow> bool" where
  "keeps f \<longleftrightarrow> (\<forall>P res P'. plane_ok P \<longrightarrow> f P = (res, P') \<longrightarrow> plane_ok P')"

lemma keepsI: "(\<And>P res P'. plane_ok P \<Longrightarrow> f P = (res, P') \<Longrightarrow> plane_ok P') \<Longrightarrow> keeps f"
  by (auto simp: keeps_def)

lemma keeps_bindE [intro!]:
  assumes "keeps f" "\<And>v. keeps (g v)" shows "keeps (bindE f g)"
proof (rule keepsI)
  fix P res P'
  assume ok: "plane_ok P" and eq: "bindE f g P = (res, P')"
  obtain q t where ft: "f P = (q, t)" by (cases "f P")
  have "plane_ok t" using assms(1) ok ft by (auto simp: keeps_def)
  then show "plane_ok P'"
    using eq ft assms(2) by (cases q) (auto simp: keeps_def)
qed

lemma keeps_reads: "reads g \<Longrightarrow> keeps g"
  by (auto simp: keeps_def reads_def) (metis snd_conv)

lemmas keeps_read_ops [intro!] = keeps_reads [OF reads_spec(1)] keeps_reads [OF reads_spec(2)]
  keeps_reads [OF reads_spec(3)]

lemma keeps_ret [intro!]: "keeps (ret v)"
  by (auto simp: keeps_def)

lemma keeps_if [intro!]: "keeps f \<Longrightarrow> keeps g \<Longrightarrow> keeps (if b then f else g)"
  by simp

lemma keeps_spec [intro!]:
  "keeps (spec_enqueue clone w)" "keeps (spec_enqueueOptimistic clone w row now)"
  "keeps (spec_settleAck t i s v now)" "keeps (spec_settlePessimistic clone t i s v now)"
  "keeps (spec_bumpAttempts s)" "keeps (spec_del t i)" "keeps (spec_setCursor c sc)"
  by (rule keepsI, erule (1) enqueue_plane_ok enqueueOptimistic_plane_ok settleAck_plane_ok
      settlePessimistic_plane_ok bump_plane_ok del_plane_ok setCursor_plane_ok)+

lemma keeps_on_store:
  "keeps f \<Longrightarrow> plane_ok (cl_store c) \<Longrightarrow> bindE (on_store f) (\<lambda>_. ret ()) c = (res, c') \<Longrightarrow> plane_ok (cl_store c')"
  by (auto simp: bindE_def on_store_def keeps_def ret_def split: prod.splits sum.splits)

lemma keeps_persist: "keeps (persist_intent (spec_api k clone view) ctx policy i row key now)"
  unfolding persist_intent_def Let_def spec_api_sel
  by (intro keeps_bindE keeps_read_ops keeps_if keeps_ret keeps_spec)

lemma gate_plane_ok:
  assumes ok: "plane_ok (cl_store c)" and eq: "gate_body cfg (spec_api k clone view) now g c = (res, c')"
  shows "plane_ok (cl_store c')"
proof (cases g)
  case (Receive fuel ev)
  obtain q d where a: "applyChange fuel cfg (spec_api k clone view) ev now c = (q, d)"
    by (cases "applyChange fuel cfg (spec_api k clone view) ev now c")
  have d: "c' = d"
    using eq a Receive by (cases q) (auto simp: ret_def)
  show ?thesis
  proof (cases fuel)
    case 0
    then show ?thesis using a ok d by simp
  next
    case (Suc n)
    have "queue_ok (cl_store c)" using ok by (simp add: plane_ok_def)
    from applyChange_receive [OF this, of n cfg k clone view ev now]
    have "cl_store d = snd (receive clone ev now (cl_store c))"
      using a Suc by auto
    then show ?thesis
      using receive_plane_ok [OF ok, of clone ev now] d by (metis prod.collapse)
  qed
next
  case (Prune t i)
  have "keeps (prune_one (spec_api k clone view) t i)"
    unfolding prune_one_def spec_api_sel by auto
  then show ?thesis using keeps_on_store ok eq Prune by fastforce
next
  case (Settle t i ack s strategy)
  have "keeps (applyAck (spec_api k clone view) t i ack s strategy now)"
    unfolding applyAck_def spec_api_sel by auto
  then show ?thesis using keeps_on_store ok eq Settle by fastforce
next
  case (Peek_all t)
  have "keeps (api_all (spec_api k clone view) t)" by (auto simp: spec_api_def)
  then show ?thesis using keeps_on_store ok eq Peek_all by fastforce
next
  case (Intend ctx policy i row key)
  then show ?thesis using keeps_on_store [OF keeps_persist ok] eq by simp
next
  case (Retry s)
  have "keeps (spec_bumpAttempts s)" ..
  then show ?thesis using keeps_on_store ok eq Retry by fastforce
next
  case (Advance cu sc)
  have "keeps (spec_setCursor cu sc)" ..
  then show ?thesis using keeps_on_store ok eq Advance by fastforce
next
  case (Peek_meta t i)
  have "keeps (spec_meta t i)" ..
  then show ?thesis using keeps_on_store ok eq Peek_meta by fastforce
next
  case Peek_queue
  have "keeps spec_list" ..
  then show ?thesis using keeps_on_store ok eq Peek_queue by fastforce
next
  case (Peek_cursor sc)
  have "keeps (spec_getCursor sc)" by (auto simp: keeps_def spec_getCursor_def)
  then show ?thesis using keeps_on_store ok eq Peek_cursor by fastforce
qed

section \<open>What one step may take away\<close>

text \<open>Gate bodies that change the plane in one operation on the abstract state.\<close>

lemma on_store_gate:
  "bindE (on_store f) (\<lambda>_. ret ()) c = (res, c') \<Longrightarrow> cl_store c' = snd (f (cl_store c))"
  by (auto simp: bindE_def on_store_def ret_def split: prod.splits sum.splits)

lemma receive_gate:
  assumes ok: "queue_ok (cl_store c)"
    and eq: "gate_body cfg (spec_api k clone view) now (Receive fuel ev) c = (res, c')"
  shows "cl_store c' = cl_store c \<or> cl_store c' = snd (receive clone ev now (cl_store c))"
proof (cases fuel)
  case 0
  then show ?thesis using eq by (simp add: bindE_def raise_def)
next
  case (Suc n)
  obtain items where "applyChange (Suc n) cfg (spec_api k clone view) ev now c =
      (fst (receive clone ev now (cl_store c)),
       \<lparr>cl_store = snd (receive clone ev now (cl_store c)), cl_log = cl_log c @ items\<rparr>)"
    using applyChange_receive [OF ok] by blast
  then show ?thesis
    using eq Suc by (auto simp: bindE_def ret_def split: sum.splits)
qed

lemma snd_bind_ret: "snd (bindE f (\<lambda>s. ret (h s)) P) = snd (f P)"
  by (simp add: bindE_def ret_def split: prod.split sum.split)

lemma persist_spec:
  "snd (persist_intent (spec_api k clone view) ctx policy i row key now P) =
     (let localRow = (if wc_mutation ctx = Merge \<and> wc_op ctx \<noteq> Delete
            then deepMerge (case p_rows P (wc_table ctx) i of Some r \<Rightarrow> view (r_row r) | None \<Rightarrow> JNull) row
            else row);
          w = \<lparr>qw_id = i, qw_table = wc_table ctx, qw_op = wc_op ctx,
               qw_payload = (if wc_op ctx = Delete then JNull else localRow),
               qw_base_version = (case p_rows P (wc_table ctx) i of Some r \<Rightarrow> r_version r | None \<Rightarrow> 0),
               qw_key = Some key, qw_policy = Some policy\<rparr>
      in snd (if pol_strategy policy = Pessimistic then spec_enqueue clone w P
              else spec_enqueueOptimistic clone w localRow now P))"
proof -
  let ?row = "if wc_mutation ctx = Merge \<and> wc_op ctx \<noteq> Delete
            then deepMerge (case p_rows P (wc_table ctx) i of Some r \<Rightarrow> view (r_row r) | None \<Rightarrow> JNull) row
            else row"
  have m: "bindE (spec_meta (wc_table ctx) i) g P = g (meta_of (p_rows P (wc_table ctx) i)) P"
    for g :: "local_row option \<Rightarrow> (plane, sync_write \<times> nat) op"
    by (simp add: bindE_def spec_meta_def)
  have r: "bindE (if wc_mutation ctx = Merge \<and> wc_op ctx \<noteq> Delete
            then bindE (spec_get view (wc_table ctx) i) (\<lambda>held. ret (deepMerge held row)) else ret row) g P =
      g ?row P" for g :: "jsval \<Rightarrow> (plane, sync_write \<times> nat) op"
    by (simp add: bindE_def spec_get_def ret_def)
  have v: "(case meta_of (p_rows P (wc_table ctx) i) of Some m \<Rightarrow> lr_version m | None \<Rightarrow> 0) =
      (case p_rows P (wc_table ctx) i of Some r \<Rightarrow> r_version r | None \<Rightarrow> 0)"
    by (simp add: meta_of_def split: option.split)
  show ?thesis
    unfolding persist_intent_def spec_api_sel m r Let_def snd_bind_ret v if_distribR
    by (rule refl)
qed

lemma drop_mark_keeps_seq:
  "w \<in> set q \<Longrightarrow> qw_seq w \<noteq> s \<Longrightarrow> qw_seq w \<in> qw_seq ` set (drop_seq s (mark_older t i s v q))"
  by (simp add: drop_mark_seqs)

lemma settle_retires:
  assumes "queue_ok P" "w \<in> set (p_queue P)"
    and "qw_seq w \<notin> qw_seq ` set (p_queue (snd (applyAck (spec_api k clone view) t i ack s strategy now P)))"
  shows "s = qw_seq w \<and> on_row t i w"
proof -
  have found: "find_seq s (p_queue P) = Some w" if "s = qw_seq w"
    using find_seq_mem [OF assms(1,2)] that by simp
  show ?thesis
    using assms(2,3) found drop_mark_keeps_seq [of w "p_queue P" s t i "ack_version ack"]
    by (cases "s = qw_seq w"; cases "find_seq s (p_queue P)")
      (auto simp: applyAck_def spec_settleAck_def spec_settlePessimistic_def Let_def split: if_splits)
qed

lemma bump_seqs:
  "qw_seq ` set (p_queue P) = qw_seq ` set (p_queue (snd (spec_bumpAttempts s P)))"
proof -
  let ?f = "\<lambda>c. if qw_seq c = s then bump_record c else c"
  have "qw_seq ` ?f ` set q = qw_seq ` set q" for q
    unfolding image_image by (rule image_cong) auto
  moreover have "p_queue (P\<lparr>p_queue := q\<rparr>) = q" for q by simp
  ultimately show ?thesis
    by (cases "find_seq s (p_queue P)") (simp_all only: spec_bumpAttempts_def option.case snd_conv list.set_map)
qed

theorem gate_retires:
  assumes ok: "queue_ok (cl_store c)"
    and eq: "gate_body cfg (spec_api k clone view) now g c = (res, c')"
    and w: "w \<in> set (p_queue (cl_store c))" and gone: "qw_seq w \<notin> qw_seq ` set (p_queue (cl_store c'))"
  shows "(\<exists>t i ack strategy. g = Settle t i ack (qw_seq w) strategy \<and> on_row t i w) \<or>
    (\<exists>fuel ev. g = Receive fuel ev \<and> on_row (ev_table ev) (ev_id ev) w \<and>
       (is_echo_of w ev \<or>
        (\<forall>r. p_rows (cl_store c) (ev_table ev) (ev_id ev) = Some r \<longrightarrow> r_version r < ev_version ev)))"
proof (cases g)
  case (Receive fuel ev)
  have "cl_store c' = snd (receive clone ev now (cl_store c))"
    using receive_gate [OF ok eq [unfolded Receive]] w gone by auto
  then have "on_row (ev_table ev) (ev_id ev) w \<and>
      (is_echo_of w ev \<or> (\<forall>r. p_rows (cl_store c) (ev_table ev) (ev_id ev) = Some r \<longrightarrow> r_version r < ev_version ev))"
    using receive_retires [OF ok _ w, of clone ev now "fst (receive clone ev now (cl_store c))" "cl_store c'"] gone
    by (metis prod.collapse)
  then show ?thesis using Receive by blast
next
  case (Settle t i ack s strategy)
  then have "cl_store c' = snd (applyAck (spec_api k clone view) t i ack s strategy now (cl_store c))"
    using on_store_gate eq by simp
  then show ?thesis
    using settle_retires [OF ok w] gone Settle by fastforce
next
  case (Intend ctx policy i row key)
  then have "cl_store c' = snd (persist_intent (spec_api k clone view) ctx policy i row key now (cl_store c))"
    using on_store_gate eq by simp
  then have "set (p_queue (cl_store c)) \<subseteq> set (p_queue (cl_store c'))"
    by (auto simp: persist_spec Let_def spec_enqueue_def spec_enqueueOptimistic_def)
  then show ?thesis using w gone by auto
next
  case (Retry s)
  then have c': "cl_store c' = snd (spec_bumpAttempts s (cl_store c))"
    using on_store_gate eq by simp
  have "qw_seq ` set (p_queue (cl_store c')) = qw_seq ` set (p_queue (cl_store c))"
    unfolding c' bump_seqs [symmetric] by simp
  then show ?thesis using w gone by auto
next
  case (Prune t i)
  then have "cl_store c' = snd (prune_one (spec_api k clone view) t i (cl_store c))"
    using on_store_gate eq by simp
  then have "p_queue (cl_store c') = p_queue (cl_store c)"
    by (simp add: prune_one_def bindE_def spec_meta_def spec_del_def ret_def)
  then show ?thesis using w gone by auto
next
  case (Advance cu sc)
  then have "cl_store c' = snd (spec_setCursor cu sc (cl_store c))"
    using on_store_gate eq by simp
  then have "p_queue (cl_store c') = p_queue (cl_store c)"
    by (auto simp: spec_setCursor_def)
  then show ?thesis using w gone by auto
next
  case (Peek_meta t i)
  then have "cl_store c' = snd (spec_meta t i (cl_store c))"
    using on_store_gate eq by simp
  then show ?thesis using w gone by (auto simp: spec_meta_def)
next
  case Peek_queue
  then have "cl_store c' = snd (spec_list (cl_store c))"
    using on_store_gate eq by simp
  then show ?thesis using w gone by (auto simp: spec_list_def)
next
  case (Peek_cursor sc)
  then have "cl_store c' = snd (spec_getCursor sc (cl_store c))"
    using on_store_gate eq by simp
  then show ?thesis using w gone by (auto simp: spec_getCursor_def)
next
  case (Peek_all t)
  then have "cl_store c' = cl_store c"
    using on_store_gate [of "api_all (spec_api k clone view) t" c res c'] eq by (simp add: spec_api_def ret_def)
  then show ?thesis using w gone by auto
qed

section \<open>Versions never go back\<close>

lemma pessimistic_only:
  assumes r: "p_rows P t' i' = Some r"
    and r': "p_rows (snd (spec_settleAck t i s v now P)) t' i' = Some r'"
  shows "r_version r \<le> r_version r'"
  using assms by (auto simp: spec_settleAck_def Let_def split: option.splits if_splits)

lemma rows_unchanged:
  "p_rows (snd (spec_bumpAttempts s P)) = p_rows P"
  "p_rows (snd (spec_setCursor cu sc P)) = p_rows P"
  "p_rows (snd (spec_enqueue clone w P)) = p_rows P"
  by (auto simp: spec_bumpAttempts_def spec_setCursor_def spec_enqueue_def push_write_def split: option.splits)

lemma persist_version:
  assumes r: "p_rows P t i = Some r"
    and r': "p_rows (snd (persist_intent (spec_api k clone view) ctx policy i' row key now P)) t i = Some r'"
  shows "r_version r \<le> r_version r'"
  using assms unfolding persist_spec Let_def
  by (cases "wc_op ctx"; cases "t = wc_table ctx \<and> i = i'")
    (auto simp: rows_unchanged spec_enqueueOptimistic_def split: if_splits)

lemma prune_version:
  "p_rows P t i = Some r \<Longrightarrow> p_rows (snd (prune_one (spec_api k clone view) t' i' P)) t i = Some r' \<Longrightarrow>
     r_version r \<le> r_version r'"
  by (auto simp: prune_one_def bindE_def spec_meta_def spec_del_def ret_def split: if_splits)

theorem gate_version_mono:
  assumes ok: "queue_ok (cl_store c)"
    and eq: "gate_body cfg (spec_api k clone view) now g c = (res, c')"
    and r: "p_rows (cl_store c) t i = Some r" and r': "p_rows (cl_store c') t i = Some r'"
    and no: "\<And>t' i' ack s. g \<noteq> Settle t' i' ack s Pessimistic"
  shows "r_version r \<le> r_version r'"
proof (cases g)
  case (Receive fuel ev)
  from receive_gate [OF ok eq [unfolded Receive]] show ?thesis
  proof
    assume "cl_store c' = snd (receive clone ev now (cl_store c))"
    then have "receive clone ev now (cl_store c) = (fst (receive clone ev now (cl_store c)), cl_store c')"
      by simp
    from receive_version_mono [OF this r r'] show ?thesis .
  qed (use r r' in auto)
next
  case (Settle t' i' ack s strategy)
  then have "strategy \<noteq> Pessimistic" using no by blast
  then have "cl_store c' = snd (spec_settleAck t' i' s (ack_version ack) now (cl_store c))"
    using on_store_gate eq Settle by (simp add: applyAck_def)
  then show ?thesis using pessimistic_only [OF r] r' by simp
next
  case (Intend ctx policy i' row key)
  then have "cl_store c' = snd (persist_intent (spec_api k clone view) ctx policy i' row key now (cl_store c))"
    using on_store_gate eq by simp
  then show ?thesis using persist_version [OF r] r' by simp
next
  case (Prune t' i')
  then have "cl_store c' = snd (prune_one (spec_api k clone view) t' i' (cl_store c))"
    using on_store_gate eq by simp
  then show ?thesis using prune_version [OF r] r' by simp
next
  case (Retry s)
  then have "cl_store c' = snd (spec_bumpAttempts s (cl_store c))" using on_store_gate eq by simp
  then show ?thesis using r r' by (simp add: rows_unchanged)
next
  case (Advance cu sc)
  then have "cl_store c' = snd (spec_setCursor cu sc (cl_store c))" using on_store_gate eq by simp
  then show ?thesis using r r' by (simp add: rows_unchanged)
next
  case (Peek_meta t' i')
  then have "cl_store c' = cl_store c" using on_store_gate [of "spec_meta t' i'" c res c'] eq by (simp add: spec_meta_def)
  then show ?thesis using r r' by simp
next
  case Peek_queue
  then have "cl_store c' = cl_store c" using on_store_gate [of spec_list c res c'] eq by (simp add: spec_list_def)
  then show ?thesis using r r' by simp
next
  case (Peek_cursor sc)
  then have "cl_store c' = cl_store c"
    using on_store_gate [of "spec_getCursor sc" c res c'] eq by (simp add: spec_getCursor_def)
  then show ?thesis using r r' by simp
next
  case (Peek_all t')
  then have "cl_store c' = cl_store c"
    using on_store_gate [of "api_all (spec_api k clone view) t'" c res c'] eq by (simp add: spec_api_def ret_def)
  then show ?thesis using r r' by simp
qed

section \<open>Reachable states of an adapter\<close>

context store_contract
begin

lemma gated_implements:
  assumes "implements invar plane_of f g"
  shows "implements (client_inv invar) (client_plane plane_of)
    (bindE (on_store f) (\<lambda>_. ret ())) (bindE (on_store g) (\<lambda>_. ret ()))"
  by (rule implements_bindE_safe [OF on_store_implements [OF assms]]) (auto simp: ret_def implements_ret)

lemma applyAck_implements:
  "implements invar plane_of (applyAck api t i ack s strategy now) (applyAck spec_client t i ack s strategy now)"
  by (simp add: applyAck_def settle_ack_ok settle_pessimistic_ok)

lemma prune_one_implements:
  "implements invar plane_of (prune_one api t i) (prune_one spec_client t i)"
  unfolding prune_one_def spec_api_sel
proof (rule implements_bindE [OF meta_ok reads_spec(2)], goal_cases)
  case (1 m)
  show ?case
    by (auto simp: ret_def implements_ret intro!: implements_bindE_safe [OF del_ok])
qed

lemma gate_implements:
  "implements (client_inv invar) (client_plane plane_of)
     (gate_body cfg api now g) (gate_body cfg spec_client now g)"
proof (cases g)
  case (Receive fuel ev)
  have "implements (client_inv invar) (client_plane plane_of)
      (bindE (applyChange fuel cfg api ev now) (\<lambda>_. ret ())) (bindE (applyChange fuel cfg spec_client ev now) (\<lambda>_. ret ()))"
    by (rule implements_bindE_safe [OF applyChange_implements]) (auto simp: ret_def implements_ret)
  then show ?thesis using Receive by simp
next
  case (Peek_all t)
  show ?thesis
  proof (rule implementsI)
    fix c e c'
    assume inv: "client_inv invar c" and eq: "gate_body cfg api now g c = (Inl e, c')"
    then obtain x s where "api_all api t (cl_store c) = (x, s)" "c' = c\<lparr>cl_store := s\<rparr>"
      by (auto simp: Peek_all bindE_eq_Inl on_store_eq)
    with all_ok [of "cl_store c" t x s] inv
    show "client_inv invar c' \<and> client_plane plane_of c' = client_plane plane_of c"
      by (simp add: client_inv_def client_store_same)
  next
    fix c u c'
    assume inv: "client_inv invar c" and eq: "gate_body cfg api now g c = (Inr u, c')"
    then obtain x s where "api_all api t (cl_store c) = (x, s)" "c' = c\<lparr>cl_store := s\<rparr>"
      by (auto simp: Peek_all bindE_eq_Inr on_store_eq)
    with all_ok [of "cl_store c" t x s] inv
    show "client_inv invar c' \<and> gate_body cfg spec_client now g (client_plane plane_of c) =
        (Inr u, client_plane plane_of c')"
      by (simp add: Peek_all client_inv_def client_store_same spec_api_def bindE_def on_store_def ret_def)
  qed
qed (simp_all add: gated_implements applyAck_implements persist_intent_implements prune_one_implements
    bump_attempts_ok set_cursor_ok get_cursor_ok meta_ok list_ok)

text \<open>Every run of the client over the adapter is a run over the abstract plane.\<close>

theorem runs_simulate:
  assumes "runs cfg api s s'" and "invar s"
  shows "invar s' \<and> runs cfg spec_client (plane_of s) (plane_of s')"
  using assms
proof (induction rule: runs.induct)
  case (runs_refl s)
  then show ?case by (simp add: runs.runs_refl)
next
  case (runs_step s s' now g items res c)
  let ?c = "\<lparr>cl_store = s', cl_log = items\<rparr>"
  have inv: "client_inv invar ?c" and run: "runs cfg spec_client (plane_of s) (plane_of s')"
    using runs_step by (simp_all add: client_inv_def)
  show ?case
  proof (cases res)
    case (Inl e)
    then have "client_inv invar c \<and> client_plane plane_of c = client_plane plane_of ?c"
      using implements_Inl [OF gate_implements inv] runs_step(2) by simp
    then have "invar (cl_store c)" "plane_of (cl_store c) = plane_of s'"
      by (simp_all add: client_inv_def client_plane_def)
    then show ?thesis using run by simp
  next
    case (Inr u)
    have eq: "gate_body cfg api now g ?c = (Inr u, c)" using runs_step(2) Inr by simp
    from implements_Inr [OF gate_implements inv eq]
    have "client_inv invar c" and "gate_body cfg spec_client now g \<lparr>cl_store = plane_of s', cl_log = items\<rparr> =
        (Inr u, client_plane plane_of c)"
      by (simp_all add: client_plane_def)
    from this(1) runs.runs_step [OF run this(2)] show ?thesis by (simp add: client_inv_def)
  qed
qed

end

text \<open>Reachable planes are well-formed.\<close>

lemma spec_runs_ok:
  "runs cfg (spec_api k clone view) P P' \<Longrightarrow> plane_ok P \<Longrightarrow> plane_ok P'"
proof (induction rule: runs.induct)
  case (runs_step s s' now g items res c)
  then show ?case using gate_plane_ok [of "\<lparr>cl_store = s', cl_log = items\<rparr>"] by simp
qed

context store_contract
begin

theorem runs_plane_ok:
  "runs cfg api s s' \<Longrightarrow> invar s \<Longrightarrow> plane_ok (plane_of s) \<Longrightarrow> plane_ok (plane_of s')"
  using runs_simulate spec_runs_ok by blast

end

end
