(* ===== verification/Write_Outcome.thy ===== *)
theory Write_Outcome
  imports Protocol
begin

text \<open>
  What a caller is told by a write or a flush, against what the plane holds: a write
  reported queued is in the queue with the attempts reported, one reported acknowledged
  has left it for good.
\<close>

section \<open>Sequence numbers are never reused\<close>

abbreviation plane_seqs :: "plane \<Rightarrow> nat set" where
  "plane_seqs P \<equiv> qw_seq ` set (p_queue P)"

definition fresh_seqs :: "plane \<Rightarrow> plane \<Rightarrow> bool" where
  "fresh_seqs P P' \<longleftrightarrow>
     p_next_seq P \<le> p_next_seq P' \<and> (\<forall>s \<in> plane_seqs P'. s \<in> plane_seqs P \<or> p_next_seq P \<le> s)"

lemma fresh_refl [simp]: "fresh_seqs P P"
  by (simp add: fresh_seqs_def)

lemma fresh_trans: "fresh_seqs P Q \<Longrightarrow> fresh_seqs Q R \<Longrightarrow> fresh_seqs P R"
  by (fastforce simp: fresh_seqs_def)

lemma fresh_subset: "plane_seqs P' \<subseteq> plane_seqs P \<Longrightarrow> p_next_seq P' = p_next_seq P \<Longrightarrow> fresh_seqs P P'"
  by (auto simp: fresh_seqs_def)

lemma drop_mark_old: "w \<in> set (drop_seq s (mark_older t i s v q)) \<Longrightarrow> qw_seq w \<in> qw_seq ` set q"
  using drop_mark_seqs [of s t i v q] by blast

lemma receive_fresh: "fresh_seqs P (snd (receive clone ev now P))"
proof -
  obtain res P' where r: "receive clone ev now P = (res, P')" by (cases "receive clone ev now P")
  then have "fresh_seqs P P'"
    by (cases rule: receive_cases) (auto intro!: fresh_subset dest: drop_mark_old)
  then show ?thesis by (simp add: r)
qed

lemma persist_fresh: "fresh_seqs P (snd (persist_intent (spec_api k clone view) ctx policy i row key now P))"
  unfolding persist_spec Let_def
  by (auto simp: fresh_seqs_def spec_enqueue_def spec_enqueueOptimistic_def push_write_def)

lemma applyAck_fresh: "fresh_seqs P (snd (applyAck (spec_api k clone view) t i ack s strategy now P))"
  by (auto simp: applyAck_def spec_settleAck_def spec_settlePessimistic_def Let_def
      intro!: fresh_subset dest: drop_mark_old split: option.split)

lemma prune_fresh: "fresh_seqs P (snd (prune_one (spec_api k clone view) t i P))"
  by (auto simp: prune_one_def bindE_def spec_meta_def spec_del_def ret_def intro!: fresh_subset)

lemma bump_fresh: "fresh_seqs P (snd (spec_bumpAttempts s P))"
  using bump_seqs [of P s] by (intro fresh_subset) (auto simp: spec_bumpAttempts_def split: option.splits)

lemma cursor_fresh: "fresh_seqs P (snd (spec_setCursor cu sc P))"
  by (auto simp: spec_setCursor_def intro!: fresh_subset)

lemma spec_runs_fresh:
  assumes "runs cfg (spec_api k clone view) P P'" and "plane_ok P"
  shows "fresh_seqs P P' \<and> plane_ok P'"
  using assms
proof (induction rule: runs.induct)
  case (runs_refl s)
  then show ?case by simp
next
  case (runs_step s s' now g items res c)
  let ?c = "\<lparr>cl_store = s', cl_log = items\<rparr>"
  note step = runs_step(2)
  have ok: "plane_ok s'" using runs_step by simp
  have "fresh_seqs s' (cl_store c)"
  proof (cases g)
    case (Receive fuel ev)
    have "queue_ok (cl_store ?c)" using ok by (simp add: plane_ok_def)
    from receive_gate [OF this step [unfolded Receive]] show ?thesis
      using receive_fresh by (metis client.select_convs(1) fresh_refl)
  next
    case (Peek_all t)
    then show ?thesis
      using on_store_gate [of "api_all (spec_api k clone view) t" ?c res c] step by (simp add: spec_api_def ret_def)
  qed (use step in \<open>auto dest!: on_store_gate simp: persist_fresh applyAck_fresh prune_fresh
      bump_fresh cursor_fresh spec_meta_def spec_list_def spec_getCursor_def\<close>)
  then show ?case
    using runs_step fresh_trans gate_plane_ok [OF _ step] ok by auto
qed

section \<open>What a settled or failed attempt leaves\<close>

lemma applyAck_settles:
  assumes "applyAck (spec_api k clone view) t i ack s strategy now P = (Inr out, P')"
  shows "s \<notin> plane_seqs P'"
  using assms drop_mark_seqs [of s t i "ack_version ack" "p_queue P"]
  by (auto simp: applyAck_def spec_settleAck_def spec_settlePessimistic_def Let_def find_seq_None
      split: if_splits option.splits)

lemma bump_result:
  assumes "spec_bumpAttempts s P = (res, P')"
  shows "\<exists>n. res = Inr n \<and>
    (if n = 0 then P' = P \<and> s \<notin> plane_seqs P
     else \<exists>w \<in> set (p_queue P'). qw_seq w = s \<and> qw_attempts w = Some n)"
proof (cases "find_seq s (p_queue P)")
  case None
  then have "s \<notin> plane_seqs P" using find_seq_None by blast
  moreover have "res = Inr 0" "P' = P" using assms None by (simp_all add: spec_bumpAttempts_def)
  ultimately show ?thesis by simp
next
  case (Some w)
  have w: "w \<in> set (p_queue P)" "qw_seq w = s" using find_seq_Some [OF Some] by auto
  have "res = Inr (the (qw_attempts (bump_record w)))" "bump_record w \<in> set (p_queue P')"
    using assms Some w by (auto simp: spec_bumpAttempts_def image_iff)
  moreover obtain n where "qw_attempts (bump_record w) = Some n" "n \<noteq> 0" "qw_seq (bump_record w) = s"
    using w(2) by (auto simp: bump_record_def)
  ultimately show ?thesis
    by (intro exI [of _ n]) (auto intro!: bexI [of _ "bump_record w"])
qed

lemma report_spec:
  "\<exists>items. reportTelemetry cfg api ctx pol ph n ty sp now c = (Inr (), c\<lparr>cl_log := cl_log c @ items\<rparr>)"
  by (auto simp: reportTelemetry_def ret_def tell_def Let_def intro: exI [of _ "[]"])

lemma quiet_end: "quiet_span sp \<Longrightarrow> \<exists>items. span_end sp c = (Inr (), c\<lparr>cl_log := cl_log c @ items\<rparr>)"
  by (cases sp) (auto simp: quiet_span_def span_end_def bindE_def tell_def ret_def intro: exI [of _ "[]"])

lemma quiet_error: "quiet_span sp \<Longrightarrow> \<exists>items. span_error sp ty c = (Inr (), c\<lparr>cl_log := cl_log c @ items\<rparr>)"
  by (cases sp) (auto simp: quiet_span_def span_error_def bindE_def tell_def ret_def intro: exI [of _ "[]"])

text \<open>An operation that only reports: it succeeds and leaves the store alone.\<close>

definition only_logs :: "('s client, unit) op \<Rightarrow> bool" where
  "only_logs f \<longleftrightarrow> (\<forall>c. \<exists>items. f c = (Inr (), c\<lparr>cl_log := cl_log c @ items\<rparr>))"

lemma only_logs_report: "only_logs (reportTelemetry cfg api ctx pol ph n ty sp now)"
  using report_spec by (auto simp: only_logs_def)

lemma only_logs_span: "quiet_span sp \<Longrightarrow> only_logs (span_end sp)" "quiet_span sp \<Longrightarrow> only_logs (span_error sp ty)"
  using quiet_end quiet_error by (auto simp: only_logs_def)

lemma only_logs_bindE:
  assumes "only_logs f" and "bindE f (\<lambda>_. g) c = (res, c')"
  obtains d where "g d = (res, c')" "cl_store d = cl_store c"
proof -
  obtain items where "f c = (Inr (), c\<lparr>cl_log := cl_log c @ items\<rparr>)"
    using assms(1) by (auto simp: only_logs_def)
  then have "g (c\<lparr>cl_log := cl_log c @ items\<rparr>) = (res, c')"
    using assms(2) by simp
  then show thesis by (rule that) simp
qed

lemma record_failure_outcome:
  assumes sp: "quiet_span sp"
    and eq: "record_failure cfg (spec_api k clone view) ctx pol sp s now err c = (res, c')"
  shows "(res = Inr Write_acked_via_echo \<and> s \<notin> plane_seqs (cl_store c')) \<or>
    (\<exists>n w. 0 < n \<and> w \<in> set (p_queue (cl_store c')) \<and> qw_seq w = s \<and> qw_attempts w = Some n \<and>
       res = (if pol_failure_mode pol = ThrowError then Inl sync_write_error
              else Inr (Write_queued n (if pol_failure_mode pol = EmitOnly then None else Some err))))"
proof -
  obtain q P where b: "spec_bumpAttempts s (cl_store c) = (q, P)" by (cases "spec_bumpAttempts s (cl_store c)")
  from bump_result [OF b] obtain n where n: "q = Inr n"
    and P: "if n = 0 then P = cl_store c \<and> s \<notin> plane_seqs (cl_store c)
      else \<exists>w \<in> set (p_queue P). qw_seq w = s \<and> qw_attempts w = Some n" by blast
  let ?d = "c\<lparr>cl_store := P\<rparr>"
  have start: "bindE (catchE (on_store (spec_bumpAttempts s)) (\<lambda>_. raise not_durable)) g c = g n ?d" for g
    using b n by (simp add: bindE_def catchE_def on_store_def)
  note eq' = eq [unfolded record_failure_def spec_api_sel start]
  show ?thesis
  proof (cases "n = 0")
    case True
    then obtain d where "bindE (span_end sp) (\<lambda>_. ret Write_acked_via_echo) d = (res, c')"
        "cl_store d = cl_store ?d"
      using eq' by (auto elim: only_logs_bindE [OF only_logs_report])
    then show ?thesis
      using P True by (auto elim!: only_logs_bindE [OF only_logs_span(1) [OF sp]])
  next
    case False
    let ?answer = "if pol_failure_mode pol = ThrowError then raise sync_write_error
           else ret (Write_queued n (if pol_failure_mode pol = EmitOnly then None else Some err))"
    obtain d where d: "(?answer :: (plane client, write_result) op) d = (res, c')" "cl_store d = P"
      using eq' [unfolded if_not_P [OF False]]
      by (auto elim!: only_logs_bindE [OF only_logs_report] only_logs_bindE [OF only_logs_span(1) [OF sp]]
          only_logs_bindE [OF only_logs_span(2) [OF sp]])
    obtain w where "w \<in> set (p_queue P)" "qw_seq w = s" "qw_attempts w = Some n"
      using P False by auto
    then show ?thesis using d False by (auto split: if_splits)
  qed
qed

section \<open>The outcome of a write\<close>

definition queued_with :: "plane \<Rightarrow> nat \<Rightarrow> nat \<Rightarrow> bool" where
  "queued_with P s n \<longleftrightarrow> (\<exists>w \<in> set (p_queue P). qw_seq w = s \<and> qw_attempts w = Some n)"

text \<open>What each answer of \<open>write\<close> says about the write numbered \<open>s\<close>.\<close>

definition outcome_true :: "write_policy \<Rightarrow> nat \<Rightarrow> plane \<Rightarrow> write_result res \<Rightarrow> bool" where
  "outcome_true policy s P res =
     (case res of
        Inr (Write_queued n err) \<Rightarrow> queued_with P s n \<and> (n = 0 \<longleftrightarrow> pol_strategy policy = LocalQueue) \<and>
          (pol_failure_mode policy = EmitOnly \<longrightarrow> err = None)
      | Inr (Write_acked v) \<Rightarrow> s \<notin> plane_seqs P
      | Inr Write_acked_via_echo \<Rightarrow> s \<notin> plane_seqs P
      | Inl e \<Rightarrow> e = sync_write_error \<and> pol_failure_mode policy = ThrowError \<and> (\<exists>n > 0. queued_with P s n))"

lemma attempt_acked:
  assumes sp: "quiet_span sp"
    and eq: "attempt_send cfg (spec_api k clone view) ctx pol sp send i w s now c = (Inr res, c')"
  shows "\<exists>v. res = Write_acked v \<and> s \<notin> plane_seqs (cl_store c')"
proof -
  obtain raw ack out d1 d2 d3 where
    ack: "on_store (applyAck (spec_api k clone view) (wc_table ctx) i ack s (pol_strategy pol) now) d1 = (Inr out, d2)"
    and rest: "bindE (reportTelemetry cfg (spec_api k clone view) ctx pol Acknowledged None None sp now) (\<lambda>_.
      bindE (span_end sp) (\<lambda>_. ret (Write_acked (adopted_version out)))) d2 = (Inr res, c')"
    using eq unfolding attempt_send_def bindE_eq_Inr by blast
  obtain P where P: "applyAck (spec_api k clone view) (wc_table ctx) i ack s (pol_strategy pol) now (cl_store d1) = (Inr out, P)"
    "d2 = d1\<lparr>cl_store := P\<rparr>"
    using ack by (auto simp: on_store_eq)
  have "s \<notin> plane_seqs (cl_store d2)"
    using applyAck_settles [OF P(1)] by (simp add: P(2))
  then show ?thesis
    using rest by (auto elim!: only_logs_bindE [OF only_logs_report] only_logs_bindE [OF only_logs_span(1) [OF sp]])
qed

lemma persist_queued:
  assumes "persist_intent (spec_api k clone view) ctx policy i row key now P = (res, P')"
  shows "\<exists>w. res = Inr (w, p_next_seq P) \<and> queued_with P' (p_next_seq P) 0"
proof -
  have "\<exists>w. fst (persist_intent (spec_api k clone view) ctx policy i row key now P) = Inr (w, p_next_seq P)"
    by (simp add: persist_intent_def bindE_def spec_meta_def spec_get_def ret_def Let_def
        spec_enqueue_def spec_enqueueOptimistic_def)
  moreover have "queued_with (snd (persist_intent (spec_api k clone view) ctx policy i row key now P)) (p_next_seq P) 0"
    unfolding persist_spec Let_def
    by (auto simp: queued_with_def spec_enqueue_def spec_enqueueOptimistic_def)
  ultimately show ?thesis using assms by simp
qed

lemma begin_spec:
  "quiet_sink (cfg_sink cfg) \<Longrightarrow>
     \<exists>sp items. beginTelemetry cfg api ctx policy c = (Inr sp, c\<lparr>cl_log := cl_log c @ items\<rparr>) \<and> quiet_span sp"
  by (auto simp: beginTelemetry_def bindE_def tell_def ret_def quiet_sink_def quiet_span_def
      intro: exI [of _ "[]"])

theorem write_with_true:
  assumes quiet: "quiet_sink (cfg_sink cfg)"
    and send: "pol_strategy policy = LocalQueue \<or> send \<noteq> None"
    and eq: "write_with cfg (spec_api k clone view) ctx policy i row send key now later c = (res, c')"
  shows "outcome_true policy (p_next_seq (cl_store c)) (cl_store c') res"
proof -
  let ?s = "p_next_seq (cl_store c)"
  obtain sp items where sp: "quiet_span sp"
    and b: "beginTelemetry cfg (spec_api k clone view) ctx policy c = (Inr sp, c\<lparr>cl_log := cl_log c @ items\<rparr>)"
    using begin_spec [OF quiet] by blast
  obtain pr P where p: "persist_intent (spec_api k clone view) ctx policy i row key now (cl_store c) = (pr, P)"
    by (cases "persist_intent (spec_api k clone view) ctx policy i row key now (cl_store c)")
  obtain w where w: "pr = Inr (w, ?s)" and q: "queued_with P ?s 0"
    using persist_queued [OF p] by blast
  let ?d = "c\<lparr>cl_log := cl_log c @ items, cl_store := P\<rparr>"
  have on: "on_store (persist_intent (spec_api k clone view) ctx policy i row key now) (c\<lparr>cl_log := cl_log c @ items\<rparr>) =
      (Inr (w, ?s), ?d)"
    using p w by (simp add: on_store_def)
  have given: "\<not> (pol_strategy policy \<noteq> LocalQueue \<and> send = None)" using send by blast
  have bind_begin: "bindE (beginTelemetry cfg (spec_api k clone view) ctx policy) g c = g sp (c\<lparr>cl_log := cl_log c @ items\<rparr>)"
    for g :: "span option \<Rightarrow> (plane client, write_result) op" using b by simp
  have bind_on: "bindE (on_store (persist_intent (spec_api k clone view) ctx policy i row key now)) g
      (c\<lparr>cl_log := cl_log c @ items\<rparr>) = g (w, ?s) ?d" for g :: "sync_write \<times> nat \<Rightarrow> (plane client, write_result) op"
    using on by simp
  let ?tail = "case send of
      Some f \<Rightarrow> if pol_strategy policy = LocalQueue then bindE (span_end sp) (\<lambda>_. ret (Write_queued 0 None))
        else catchE (attempt_send cfg (spec_api k clone view) ctx policy sp f i w ?s later)
               (record_failure cfg (spec_api k clone view) ctx policy sp ?s later)
    | None \<Rightarrow> bindE (span_end sp) (\<lambda>_. ret (Write_queued 0 None))"
  have "bindE (reportTelemetry cfg (spec_api k clone view) ctx policy LocalQueued None None sp now) (\<lambda>_. ?tail) ?d = (res, c')"
    using eq unfolding write_with_def if_not_P [OF given] bind_begin bind_on fst_conv snd_conv .
  then obtain e where e: "?tail e = (res, c')" and es: "cl_store e = P"
    by (auto elim: only_logs_bindE [OF only_logs_report])
  show ?thesis
  proof (cases "pol_strategy policy = LocalQueue")
    case True
    then have "bindE (span_end sp) (\<lambda>_. ret (Write_queued 0 None)) e = (res, c')"
      using e by (cases send) auto
    then show ?thesis
      using es q True by (auto simp: outcome_true_def elim!: only_logs_bindE [OF only_logs_span(1) [OF sp]])
  next
    case False
    then obtain f where f: "send = Some f" using send by auto
    obtain r d where a: "attempt_send cfg (spec_api k clone view) ctx policy sp f i w ?s later e = (r, d)"
      by (cases "attempt_send cfg (spec_api k clone view) ctx policy sp f i w ?s later e")
    show ?thesis
    proof (cases r)
      case (Inr v)
      then have "res = Inr v" "c' = d" using e f False a by (simp_all add: catchE_def)
      then show ?thesis using attempt_acked [OF sp] a Inr by (fastforce simp: outcome_true_def)
    next
      case (Inl err)
      then have "record_failure cfg (spec_api k clone view) ctx policy sp ?s later err d = (res, c')"
        using e f False a by (simp add: catchE_def)
      from record_failure_outcome [OF sp this] show ?thesis
      proof
        assume "res = Inr Write_acked_via_echo \<and> ?s \<notin> plane_seqs (cl_store c')"
        then show ?thesis by (simp add: outcome_true_def)
      next
        assume "\<exists>n w. 0 < n \<and> w \<in> set (p_queue (cl_store c')) \<and> qw_seq w = ?s \<and> qw_attempts w = Some n \<and>
          res = (if pol_failure_mode policy = ThrowError then Inl sync_write_error
              else Inr (Write_queued n (if pol_failure_mode policy = EmitOnly then None else Some err)))"
        then obtain n where "0 < n" "queued_with (cl_store c') ?s n"
          "res = (if pol_failure_mode policy = ThrowError then Inl sync_write_error
              else Inr (Write_queued n (if pol_failure_mode policy = EmitOnly then None else Some err)))"
          unfolding queued_with_def by blast
        then show ?thesis using False by (auto simp: outcome_true_def)
      qed
    qed
  qed
qed

section \<open>The outcome of a flush\<close>

lemma flush_one_outcome:
  assumes "flush_one (spec_api k clone view) send now w c = (res, c')"
  shows "(res = Inr None \<and> qw_seq w \<notin> plane_seqs (cl_store c')) \<or>
    (\<exists>n err. n > 0 \<and> res = Inr (Some \<lparr>ff_write = w, ff_error = err, ff_attempts = Some n\<rparr>) \<and>
       queued_with (cl_store c') (qw_seq w) n)"
proof -
  obtain q d where f: "flush_send (spec_api k clone view) send now w c = (q, d)"
    by (cases "flush_send (spec_api k clone view) send now w c")
  show ?thesis
  proof (cases q)
    case (Inr out)
    obtain raw ack d1 d2 where "on_store (applyAck (spec_api k clone view) (qw_table w) (qw_id w) ack (qw_seq w)
        (settle_strategy w) now) d2 = (Inr out, d)"
      using f Inr by (auto simp: flush_send_def bindE_eq_Inr)
    then obtain P where "applyAck (spec_api k clone view) (qw_table w) (qw_id w) ack (qw_seq w)
        (settle_strategy w) now (cl_store d2) = (Inr out, P)" "cl_store d = P"
      by (auto simp: on_store_eq)
    then have "qw_seq w \<notin> plane_seqs (cl_store d)"
      using applyAck_settles by blast
    moreover have "res = Inr None" "c' = d"
      using assms f Inr by (simp_all add: flush_one_def catchE_def bindE_def ret_def)
    ultimately show ?thesis by simp
  next
    case (Inl err)
    obtain b P where b: "spec_bumpAttempts (qw_seq w) (cl_store d) = (b, P)"
      by (cases "spec_bumpAttempts (qw_seq w) (cl_store d)")
    from bump_result [OF b] obtain n where n: "b = Inr n"
      and P: "if n = 0 then P = cl_store d \<and> qw_seq w \<notin> plane_seqs (cl_store d)
        else \<exists>x \<in> set (p_queue P). qw_seq x = qw_seq w \<and> qw_attempts x = Some n" by blast
    have res: "res = Inr (if n = 0 then None else Some \<lparr>ff_write = w, ff_error = err, ff_attempts = Some n\<rparr>)"
      "cl_store c' = P"
      using assms f Inl b n by (auto simp: flush_one_def catchE_def bindE_def on_store_def ret_def split: if_splits)
    show ?thesis
    proof (cases "n = 0")
      case True
      then show ?thesis using P res by simp
    next
      case False
      then have "queued_with P (qw_seq w) n" using P by (simp add: queued_with_def)
      then show ?thesis using False res by auto
    qed
  qed
qed

lemma flush_loop_counts:
  assumes "flush_loop (spec_api k clone view) send onError now ws n fs c = (Inr (n', fs'), c')"
  shows "n' + length fs' = n + length fs + length ws"
  using assms
proof (induction ws arbitrary: n fs c)
  case Nil
  then show ?case by simp
next
  case (Cons w ws)
  obtain res d where one: "flush_one (spec_api k clone view) send now w c = (res, d)"
    by (cases "flush_one (spec_api k clone view) send now w c")
  from flush_one_outcome [OF one] show ?case
  proof
    assume "res = Inr None \<and> qw_seq w \<notin> plane_seqs (cl_store d)"
    then show ?thesis using Cons one by (auto simp: bindE_def)
  next
    assume "\<exists>m err. m > 0 \<and> res = Inr (Some \<lparr>ff_write = w, ff_error = err, ff_attempts = Some m\<rparr>) \<and>
        queued_with (cl_store d) (qw_seq w) m"
    then show ?thesis using Cons one by (auto simp: bindE_def raise_def split: option.splits)
  qed
qed

text \<open>The failures of a flush are appended; none recorded means every write was flushed.\<close>

lemma flush_loop_mono:
  "flush_loop api send onError now ws n fs c = (Inr (n', fs'), c') \<Longrightarrow> length fs \<le> length fs'"
proof (induction ws arbitrary: n fs c)
  case Nil
  then show ?case by simp
next
  case (Cons w ws)
  then show ?case
    by (fastforce simp: bindE_eq_Inr split: option.splits)
qed

lemma retired_stays:
  assumes "runs cfg (spec_api k clone view) P P'" "plane_ok P" "s < p_next_seq P" "s \<notin> plane_seqs P"
  shows "s \<notin> plane_seqs P' \<and> s < p_next_seq P'"
  using spec_runs_fresh [OF assms(1,2)] assms(3,4) unfolding fresh_seqs_def by force

lemma flush_loop_retires:
  assumes "flush_loop (spec_api k clone view) send onError now ws n [] c = (Inr (n', []), c')"
    and "\<And>w. op_runs cfg (spec_api k clone view) (send w)" and "plane_ok (cl_store c)"
    and "\<forall>w \<in> set ws. qw_seq w < p_next_seq (cl_store c)"
  shows "qw_seq ` set ws \<inter> plane_seqs (cl_store c') = {}"
  using assms(1,3,4)
proof (induction ws arbitrary: n c)
  case Nil
  then show ?case by simp
next
  case (Cons w ws)
  obtain res d where one: "flush_one (spec_api k clone view) send now w c = (res, d)"
    by (cases "flush_one (spec_api k clone view) send now w c")
  have run: "runs cfg (spec_api k clone view) (cl_store c) (cl_store d)"
    by (rule op_runsD [OF flush_one_runs [where send = send] one]) (rule assms(2))
  have d: "plane_ok (cl_store d)" "fresh_seqs (cl_store c) (cl_store d)"
    using spec_runs_fresh [OF run Cons.prems(2)] by auto
  have next_d: "p_next_seq (cl_store c) \<le> p_next_seq (cl_store d)"
    using d(2) by (simp add: fresh_seqs_def)
  have res: "res = Inr None \<and> qw_seq w \<notin> plane_seqs (cl_store d)"
  proof (rule ccontr)
    assume "\<not> ?thesis"
    then obtain f where "res = Inr (Some f)" using flush_one_outcome [OF one] by blast
    then have "flush_loop (spec_api k clone view) send onError now ws n [f] d = (Inr (n', []), c')"
      using Cons.prems(1) one by (auto simp: bindE_def raise_def split: option.splits)
    from flush_loop_mono [OF this] show False by simp
  qed
  then have rest: "flush_loop (spec_api k clone view) send onError now ws (n + 1) [] d = (Inr (n', []), c')"
    using Cons.prems(1) one by (simp add: bindE_def)
  have "runs cfg (spec_api k clone view) (cl_store d) (cl_store c')"
    by (rule op_runsD [OF flush_loop_runs [where send = send] rest]) (rule assms(2))
  moreover have "qw_seq w < p_next_seq (cl_store d)"
    using Cons.prems(3) next_d by auto
  ultimately have "qw_seq w \<notin> plane_seqs (cl_store c')"
    using retired_stays [OF _ d(1)] res by blast
  moreover have "\<forall>x \<in> set ws. qw_seq x < p_next_seq (cl_store d)"
    using Cons.prems(3) next_d by fastforce
  ultimately show ?case
    using Cons.IH [OF rest d(1)] by auto
qed

theorem flush_complete:
  assumes ok: "plane_ok (cl_store c)" and send: "\<And>w. op_runs cfg (spec_api k clone view) (send w)"
    and eq: "flushQueue (spec_api k clone view) send onError now c = (Inr n, c')"
  shows "n = length (p_queue (cl_store c)) \<and> plane_seqs (cl_store c) \<inter> plane_seqs (cl_store c') = {}"
proof -
  let ?q = "p_queue (cl_store c)"
  have l: "on_store spec_list c = (Inr ?q, c)"
    by (simp add: on_store_def spec_list_def client_store_same)
  obtain n' fs where loop: "flush_loop (spec_api k clone view) send onError now ?q 0 [] c = (Inr (n', fs), c')"
    and fs: "fs = []" "n' = n"
    using eq by (auto simp: flushQueue_def bindE_eq_Inr l split: if_splits)
  have "\<forall>w \<in> set ?q. qw_seq w < p_next_seq (cl_store c)"
    using ok by (simp add: plane_ok_def queue_ok_def)
  then show ?thesis
    using flush_loop_counts [OF loop] flush_loop_retires [OF _ send ok] loop fs by simp
qed

theorem flush_failures:
  assumes eq: "flushQueue (spec_api k clone view) send (\<lambda>_. None) now c = (Inl e, c')"
  shows "\<exists>failed flushed. e = queue_flush_error failed flushed \<and> 0 < failed \<and>
    failed + flushed = length (p_queue (cl_store c))"
proof -
  let ?q = "p_queue (cl_store c)"
  have l: "on_store spec_list c = (Inr ?q, c)"
    by (simp add: on_store_def spec_list_def client_store_same)
  have total: "\<exists>n' fs' d'. flush_loop (spec_api k clone view) send (\<lambda>_. None) now ws n fs d = (Inr (n', fs'), d')"
    for ws n fs d
  proof (induction ws arbitrary: n fs d)
    case Nil
    then show ?case by (simp add: ret_def)
  next
    case (Cons w ws)
    obtain res d1 where one: "flush_one (spec_api k clone view) send now w d = (res, d1)"
      by (cases "flush_one (spec_api k clone view) send now w d")
    from flush_one_outcome [OF one] obtain x where x: "res = Inr x" by blast
    show ?case
      using Cons.IH [of "n + 1" fs d1] Cons.IH [of n "fs @ [the x]" d1] one x
      by (cases x) (simp_all add: bindE_def)
  qed
  obtain n' fs' d' where loop: "flush_loop (spec_api k clone view) send (\<lambda>_. None) now ?q 0 [] c = (Inr (n', fs'), d')"
    using total by blast
  then have "e = queue_flush_error (length fs') n'" "fs' \<noteq> []"
    using eq l by (auto simp: flushQueue_def bindE_def ret_def raise_def split: if_splits)
  then show ?thesis
    using flush_loop_counts [OF loop] by (intro exI [of _ "length fs'"] exI [of _ n']) auto
qed

end
