(* ===== verification/Decode.thy ===== *)
theory Decode
  imports Sync_Client
begin

text \<open>
  The transport decoders (decode.mjs) and the write envelope the backend transport posts
  (backend.mjs, \<open>backendSend\<close>): what is let through as a change, and what goes on the wire.
\<close>

section \<open>Incoming changes\<close>

text \<open>\<^verbatim>\<open>isChangeEvent\<close>, and the event a value that passes stands for.\<close>

definition isChangeEvent :: "jsval \<Rightarrow> bool" where
  "isChangeEvent v \<longleftrightarrow>
     truthy v \<and> typeof v = ''object'' \<and> typeof (js_field v ''table'') = ''string'' \<and>
     (js_field v ''op'' = JStr ''upsert'' \<or> js_field v ''op'' = JStr ''delete'') \<and>
     typeof (js_field v ''id'') = ''string'' \<and> js_safe_int (js_field v ''version'') \<noteq> None \<and>
     (is_nullish (js_field v ''write_key'') \<or> typeof (js_field v ''write_key'') = ''string'')"

fun str_of :: "jsval \<Rightarrow> string" where
  "str_of (JStr s) = s"
| "str_of _ = []"

definition event_of :: "jsval \<Rightarrow> change_event" where
  "event_of v =
     \<lparr>ev_table = str_of (js_field v ''table''),
      ev_op = (if js_field v ''op'' = JStr ''delete'' then Delete else Upsert),
      ev_id = str_of (js_field v ''id''),
      ev_version = (case js_safe_int (js_field v ''version'') of Some i \<Rightarrow> i | None \<Rightarrow> 0),
      ev_row = js_field v ''row'', ev_at_ms = js_field v ''at_ms'',
      ev_write_key = (case js_field v ''write_key'' of JStr k \<Rightarrow> Some k | _ \<Rightarrow> None)\<rparr>"

text \<open>
  A frame of the backend stream: text is parsed (\<open>parse\<close> is \<^verbatim>\<open>JSON.parse\<close>, with no result
  where it throws), anything but a sync frame is no change.
\<close>

definition decodeBackendMessage :: "(string \<Rightarrow> jsval option) \<Rightarrow> jsval \<Rightarrow> change_event list" where
  "decodeBackendMessage parse data =
     (case (case data of JStr s \<Rightarrow> parse s | _ \<Rightarrow> Some data) of
        None \<Rightarrow> []
      | Some msg \<Rightarrow>
          (case js_field msg ''changes'' of
             JArr changes \<Rightarrow>
               if truthy msg \<and> js_field msg ''event'' = JStr ''fiducia:sync''
               then map event_of (filter isChangeEvent changes) else []
           | _ \<Rightarrow> []))"

text \<open>
  A Supabase payload: no event without a row id, or without a version that orders it.
  \<open>date\<close> is \<^verbatim>\<open>Date.parse\<close>.
\<close>

definition decodeSupabaseChange ::
    "conv \<Rightarrow> (jsval \<Rightarrow> jsnum) \<Rightarrow> string \<Rightarrow> jsval \<Rightarrow> change_event option" where
  "decodeSupabaseChange cv date table payload =
     (if \<not> truthy payload \<or> typeof payload \<noteq> ''object'' then None
      else
        let isDelete = (js_field payload ''eventType'' = JStr ''DELETE'');
            new = js_field payload ''new''; old = js_field payload ''old'';
            row = coalesce (if isDelete then old else new) JNull
        in if \<not> truthy row \<or> is_nullish (js_field row ''id'') then None
        else
          let rawVersion = coalesce (coalesce (js_field row ''version'') (js_field new ''version''))
                             (js_field old ''version'')
          in case safe_int (cv_Number cv rawVersion) of
               None \<Rightarrow> None
             | Some version \<Rightarrow> Some
                 \<lparr>ev_table = table, ev_op = (if isDelete then Delete else Upsert),
                  ev_id = cv_String cv (js_field row ''id''), ev_version = version, ev_row = row,
                  ev_at_ms = JNum (if truthy (js_field payload ''commit_timestamp'') \<and>
                                      truthy (JNum (date (js_field payload ''commit_timestamp'')))
                                   then date (js_field payload ''commit_timestamp'') else num 0),
                  ev_write_key = None\<rparr>)"

lemma js_safe_int_Some: "js_safe_int v = Some i \<Longrightarrow> v = JNum (num i) \<and> \<bar>i\<bar> \<le> MAX_SAFE"
  by (cases v) (auto dest: safe_int_Some)

lemma safe_i64: "\<bar>i\<bar> \<le> MAX_SAFE \<Longrightarrow> i64_ok i"
  by (auto simp: i64_ok_def MAX_SAFE_def I64_MIN_def I64_MAX_def abs_le_iff)

lemma isChangeEvent_version: "isChangeEvent v \<Longrightarrow> \<bar>ev_version (event_of v)\<bar> \<le> MAX_SAFE"
  by (auto simp: isChangeEvent_def event_of_def dest: js_safe_int_Some)

lemma typeof_string: "typeof v = ''string'' \<longleftrightarrow> (\<exists>s. v = JStr s)"
  by (cases v) auto

text \<open>What passes reads back: the event's fields are the value's.\<close>

lemma event_of_fields:
  assumes "isChangeEvent v"
  shows "js_field v ''table'' = JStr (ev_table (event_of v)) \<and> js_field v ''id'' = JStr (ev_id (event_of v)) \<and>
    js_field v ''version'' = JNum (num (ev_version (event_of v))) \<and>
    js_field v ''op'' = JStr (op_name (ev_op (event_of v))) \<and>
    (is_nullish (js_field v ''write_key'') \<and> ev_write_key (event_of v) = None \<or>
     js_field v ''write_key'' = JStr (the (ev_write_key (event_of v))) \<and> ev_write_key (event_of v) \<noteq> None)"
  using assms
  by (auto simp: isChangeEvent_def event_of_def typeof_string op_name_def is_nullish_def safe_int_num
      dest!: js_safe_int_Some split: if_splits)

lemma decodeBackend_versions:
  "ev \<in> set (decodeBackendMessage parse data) \<Longrightarrow> \<exists>v. isChangeEvent v \<and> ev = event_of v"
  by (auto simp: decodeBackendMessage_def split: option.splits jsval.splits if_splits)

lemma decodeSupabase_safe:
  "decodeSupabaseChange cv date table payload = Some ev \<Longrightarrow>
     \<bar>ev_version ev\<bar> \<le> MAX_SAFE \<and> ev_table ev = table \<and> ev_write_key ev = None"
  by (auto simp: decodeSupabaseChange_def Let_def dest: safe_int_Some split: if_splits option.splits)

section \<open>The write path\<close>

text \<open>
  A string that \<^verbatim>\<open>trim\<close> leaves empty. Of the blanks \<^verbatim>\<open>trim\<close> removes these are the ones
  below 256 (tab, line feed, vertical tab, form feed, carriage return, space, no-break space).
\<close>

definition is_blank :: "char \<Rightarrow> bool" where
  "is_blank c \<longleftrightarrow> (of_char c :: nat) \<in> {9, 10, 11, 12, 13, 32, 160}"

definition blank :: "string \<Rightarrow> bool" where
  "blank s \<longleftrightarrow> list_all is_blank s"

definition fallback_key :: "queued_write \<Rightarrow> string" where
  "fallback_key w =
     qw_table w @ '':'' @ qw_id w @ '':'' @ op_name (qw_op w) @ '':'' @ int_digits (qw_base_version w)"

record send_opts =
  so_token :: "jsval res option"
  so_csrf :: jsval
  so_key :: jsval

record request =
  rq_key :: string
  rq_headers :: "(string \<times> string) list"
  rq_body :: jsval

text \<open>
  The request \<open>backendSend\<close> builds: the idempotency key, the headers and the wire envelope.
  \<open>so_token\<close> is the answer of \<open>getToken\<close>, if one is configured; the URL is left to the
  platform's \<^verbatim>\<open>URL\<close>.
\<close>

definition wireWrite :: "queued_write \<Rightarrow> string \<Rightarrow> jsval" where
  "wireWrite w key =
     JObj [(''id'', JStr (qw_id w)), (''table'', JStr (qw_table w)), (''op'', JStr (op_name (qw_op w))),
           (''payload'', coalesce (qw_payload w) JNull), (''base_version'', JNum (num (qw_base_version w))),
           (''key'', JStr key)]"

definition write_key_val :: "queued_write \<Rightarrow> jsval" where
  "write_key_val w = (case qw_key w of Some k \<Rightarrow> JStr k | None \<Rightarrow> JUndef)"

definition build_request :: "queued_write \<Rightarrow> send_opts \<Rightarrow> request res" where
  "build_request w opts =
     (if \<not> is_nullish (so_key opts) \<and> qw_key w \<noteq> None \<and> so_key opts \<noteq> write_key_val w
      then Inl (Err ''explicit Idempotency-Key does not match the queued write key'')
      else
        let key = coalesce (coalesce (so_key opts) (write_key_val w)) (JStr (fallback_key w)) in
        if typeof key \<noteq> ''string'' \<or> blank (str_of key)
        then Inl (Err ''sync write Idempotency-Key is empty or invalid'')
        else if \<not> is_nullish (so_csrf opts) \<and> (typeof (so_csrf opts) \<noteq> ''string'' \<or> blank (str_of (so_csrf opts)))
        then Inl (Err ''sync write CSRF token is empty'')
        else
          let headers = [(''content-type'', ''application/json''), (''idempotency-key'', str_of key)] @
                (if is_nullish (so_csrf opts) then [] else [(''x-fiducia-csrf'', str_of (so_csrf opts))])
          in case so_token opts of
               None \<Rightarrow> Inr \<lparr>rq_key = str_of key, rq_headers = headers, rq_body = wireWrite w (str_of key)\<rparr>
             | Some (Inl e) \<Rightarrow> Inl e
             | Some (Inr t) \<Rightarrow>
                 if typeof t \<noteq> ''string'' \<or> blank (str_of t)
                 then Inl (Err ''sync write token provider returned no token'')
                 else Inr \<lparr>rq_key = str_of key,
                       rq_headers = headers @ [(''authorization'', ''Bearer '' @ str_of t)],
                       rq_body = wireWrite w (str_of key)\<rparr>)"

text \<open>The answer: its status, and the acknowledgement checked against the write.\<close>

definition check_response :: "queued_write \<Rightarrow> bool \<Rightarrow> nat \<Rightarrow> jsval \<Rightarrow> jsval res" where
  "check_response w ok status ack =
     (if \<not> ok then Inl (Err (''sync write failed: '' @ nat_digits status))
      else if \<not> truthy ack \<or> typeof ack \<noteq> ''object'' \<or> js_field ack ''id'' \<noteq> JStr (qw_id w)
      then Inl (Err ''sync write acknowledgement id does not match the request'')
      else case js_safe_int (js_field ack ''committed_version'') of
        None \<Rightarrow> Inl (Err ''sync write acknowledgement has an invalid committed_version'')
      | Some v \<Rightarrow>
          if v < 0 then Inl (Err ''sync write acknowledgement has an invalid committed_version'')
          else Inr ack)"

text \<open>The key of a request is the write's own key whenever it has one.\<close>

lemma request_key:
  "build_request w opts = Inr rq \<Longrightarrow> qw_key w = Some k \<Longrightarrow> rq_key rq = k"
  by (auto simp: build_request_def write_key_val_def coalesce_def Let_def is_nullish_def
      split: if_splits option.splits sum.splits)

text \<open>An acknowledgement the transport accepts passes the client's own check.\<close>

lemma response_valid:
  "check_response w ok status ack = Inr a \<Longrightarrow>
     \<exists>v. validateAck (sync_write.truncate w) a = Inr \<lparr>ack_id = qw_id w, ack_version = v\<rparr> \<and> 0 \<le> v"
  by (auto simp: check_response_def validateAck_def sync_write.defs split: if_splits option.splits)

section \<open>Properties\<close>


definition sample_frame :: jsval where
  "sample_frame = JObj [(''event'', JStr ''fiducia:sync''), (''changes'', JArr
     [JNull, JObj [(''table'', JStr ''notes''), (''op'', JStr ''delete''), (''id'', JStr ''n1''),
        (''version'', JNum (num 4))]])]"


text \<open>
  A Supabase payload becomes a change only with a version that is a safe integer, so
  the 64-bit core can always order it, and never claims to echo a write.
\<close>
lemma supabase_change_safe:
  assumes "decodeSupabaseChange cv date table payload = Some ev"
  shows "i64_ok (ev_version ev) \<and> ev_table ev = table \<and> ev_write_key ev = None"
  using decodeSupabase_safe [OF assms] by (simp add: safe_i64)

definition sample_payload :: jsval where
  "sample_payload = JObj [(''eventType'', JStr ''UPDATE''),
     (''new'', JObj [(''id'', JStr ''n1''), (''version'', JNum (num 4))])]"

definition sample_conv :: conv where
  "sample_conv = \<lparr>cv_String = str_of, cv_Number = (\<lambda>v. case v of JNum n \<Rightarrow> n | _ \<Rightarrow> NaN)\<rparr>"

text \<open>
  A queued write is always posted under its own idempotency key: with the key in the
  envelope equal to the one in the header, so a retry cannot commit it a second time.
\<close>
lemma request_keeps_key:
  assumes "build_request w opts = Inr rq" and "qw_key w = Some k"
  shows "rq_key rq = k \<and> (''idempotency-key'', k) \<in> set (rq_headers rq) \<and>
    js_field (rq_body rq) ''key'' = JStr k \<and> js_field (rq_body rq) ''id'' = JStr (qw_id w)"
proof -
  have key: "rq_key rq = k" using assms by (rule request_key)
  have "(''idempotency-key'', rq_key rq) \<in> set (rq_headers rq) \<and> rq_body rq = wireWrite w (rq_key rq)"
    using assms(1) by (auto simp: build_request_def Let_def split: if_splits option.splits sum.splits)
  then show ?thesis using key by (simp add: wireWrite_def)
qed

definition sample_write :: queued_write where
  "sample_write = \<lparr>qw_id = ''n1'', qw_table = ''notes'', qw_op = Upsert, qw_payload = JNull,
     qw_base_version = 3, qw_key = Some ''k1'', qw_policy = None, qw_attempts = Some 0,
     qw_superseded = None, qw_seq = 1\<rparr>"

definition sample_opts :: send_opts where
  "sample_opts = \<lparr>so_token = Some (Inr (JStr ''t'')), so_csrf = JUndef, so_key = JUndef\<rparr>"

text \<open>
  An answer the transport accepts is an acknowledgement the client accepts: same row, a
  committed version that is a non-negative safe integer.
\<close>
lemma accepted_response_acknowledges:
  assumes "check_response w ok status ack = Inr a"
  shows "ok \<and> (\<exists>v. validateAck (sync_write.truncate w) a = Inr \<lparr>ack_id = qw_id w, ack_version = v\<rparr> \<and>
    0 \<le> v \<and> i64_ok v)"
proof -
  have "ok" using assms by (auto simp: check_response_def split: if_splits)
  obtain v where v: "validateAck (sync_write.truncate w) a = Inr \<lparr>ack_id = qw_id w, ack_version = v\<rparr>" "0 \<le> v"
    using response_valid [OF assms] by blast
  have "\<bar>v\<bar> \<le> MAX_SAFE"
    using v(1) by (auto simp: validateAck_def dest: js_safe_int_Some split: if_splits option.splits)
  with v \<open>ok\<close> show ?thesis using safe_i64 by blast
qed

end
