(* ===== verification/Convergence.thy ===== *)
theory Convergence
  imports Reconciliation
begin

text \<open>
  Delivery of changes more than once and in different orders. Where no write for the row
  is pending, a second delivery changes nothing but timestamps, and any two deliveries of
  the same upserts agree.
\<close>

section \<open>The contents of a row\<close>

text \<open>A record up to its bookkeeping timestamps.\<close>

definition contents :: "replica option \<Rightarrow> (jsval \<times> int \<times> bool) option" where
  "contents rec = map_option (\<lambda>r. (r_row r, r_version r, r_dirty r)) rec"

definition same_plane :: "plane \<Rightarrow> plane \<Rightarrow> bool" where
  "same_plane P Q \<longleftrightarrow>
     (\<forall>t i. contents (p_rows P t i) = contents (p_rows Q t i)) \<and> p_queue P = p_queue Q \<and>
     p_next_seq P = p_next_seq Q \<and> p_cursor P = p_cursor Q"

lemma same_plane_refl [simp]: "same_plane P P"
  by (simp add: same_plane_def)

lemma contents_simps [simp]:
  "contents None = None" "contents (Some r) = Some (r_row r, r_version r, r_dirty r)"
  "contents rec = None \<longleftrightarrow> rec = None" "None = contents rec \<longleftrightarrow> rec = None"
  by (auto simp: contents_def)

lemma contents_server_row [simp]:
  "contents (server_row clone ev pending now rec) =
     (case ev_op ev of Delete \<Rightarrow> None | Upsert \<Rightarrow> Some (clone (ev_row ev), ev_version ev, pending))"
  by (cases "ev_op ev") (simp_all add: server_row_def)

lemma row_writes_filtered [simp]:
  "row_writes ev (filter (\<lambda>w. \<not> on_row (ev_table ev) (ev_id ev) w) q) = []"
  by (simp add: row_writes_def)

text \<open>A second delivery on a clean row with no write pending.\<close>

lemma receive_settled:
  assumes ev: "wasm_event_ok ev" and ws: "row_writes ev (p_queue P) = []"
    and row: "contents (ev_row_of ev P) =
      (case ev_op ev of Delete \<Rightarrow> None | Upsert \<Rightarrow> Some (clone (ev_row ev), ev_version ev, False))"
  shows "fst (receive clone ev now P) = Inr Change_refreshed \<and> same_plane (snd (receive clone ev now P)) P"
proof -
  have loc: "core_reconcile (meta_of (ev_row_of ev P)) ev = Inr (Ignore AlreadyApplied)"
    using row ev by (cases "ev_op ev"; cases "ev_row_of ev P")
      (auto simp: core_reconcile_def meta_of_def reconcile_Some wasm_event_ok_def)
  have "\<not> r_dirty r" if "ev_row_of ev P = Some r" for r
    using row that by (cases "ev_op ev") auto
  then have clean: "case meta_of (ev_row_of ev P) of None \<Rightarrow> True | Some l \<Rightarrow> \<not> lr_dirty l"
    by (cases "ev_row_of ev P") (simp_all add: meta_of_def)
  have "receive clone ev now P = (Inr Change_refreshed, put_server_plane clone ev now P)"
    using loc clean ws by (simp add: receive_def)
  then show ?thesis
    using row by (auto simp: same_plane_def split: change_op.splits)
qed

theorem receive_again:
  assumes rcv: "receive clone ev now P = (Inr out, P')" and no: "out \<noteq> Echo_adopted"
  shows "\<exists>out'. fst (receive clone ev later P') = Inr out' \<and> same_plane (snd (receive clone ev later P')) P'"
proof -
  have ev: "wasm_event_ok ev" if "find_echo ev (row_writes ev (p_queue P)) = Inr None"
    using rcv that core_reconcile_Inr [of _ ev]
    by (auto simp: receive_def Let_def split: sum.splits)
  have none: "find_echo ev (row_writes ev (p_queue P)) = Inr None"
    using rcv no by (auto simp: receive_def Let_def split: sum.splits option.splits)
  show ?thesis
    using rcv
  proof (cases rule: receive_cases)
    case applied
    then show ?thesis using receive_settled [OF ev [OF none], of P'] by (auto simp: applied(3))
  next
    case (conflict l)
    then show ?thesis using receive_settled [OF ev [OF none], of P'] by auto
  next
    case refreshed
    then show ?thesis using receive_settled [OF ev [OF none], of P'] by (auto simp: refreshed(3))
  next
    case ignored
    show ?thesis
      using rcv unfolding ignored(2)
      by (auto simp: receive_def Let_def ignored(1) split: sum.splits option.splits reconcile_decision.splits if_splits)
  qed (use no in auto)
qed

section \<open>Any order, any number of times\<close>

text \<open>Delivering a list of changes, whatever each of them answers.\<close>

definition deliver :: "(jsval \<Rightarrow> jsval) \<Rightarrow> int \<Rightarrow> change_event list \<Rightarrow> plane \<Rightarrow> plane" where
  "deliver clone now evs P = foldl (\<lambda>Q ev. snd (receive clone ev now Q)) P evs"

lemma deliver_simps [simp]:
  "deliver clone now [] P = P"
  "deliver clone now (evs @ [ev]) P = snd (receive clone ev now (deliver clone now evs P))"
  by (simp_all add: deliver_def)

lemma receive_other_row:
  assumes "\<not> (t = ev_table ev \<and> i = ev_id ev)"
  shows "p_rows (snd (receive clone ev now P)) t i = p_rows P t i"
proof -
  obtain res P' where r: "receive clone ev now P = (res, P')" by (cases "receive clone ev now P")
  then have "p_rows P' t i = p_rows P t i"
    using assms by (cases rule: receive_cases) auto
  then show ?thesis by (simp add: r)
qed

text \<open>Reconciliation never adds a write for a row.\<close>

lemma receive_no_writes:
  assumes "\<forall>w \<in> set (p_queue P). \<not> on_row t i w"
  shows "\<forall>w \<in> set (p_queue (snd (receive clone ev now P))). \<not> on_row t i w"
proof -
  obtain res P' where r: "receive clone ev now P = (res, P')" by (cases "receive clone ev now P")
  then have "\<forall>w \<in> set (p_queue P'). \<not> on_row t i w"
    using assms by (cases rule: receive_cases) (auto simp: drop_mark_mem split: if_splits)
  then show ?thesis by (simp add: r)
qed

text \<open>An upsert on a row with no write pending: taken over unless the row is ahead.\<close>

lemma receive_clean_upsert:
  assumes ev: "wasm_event_ok ev" "ev_op ev = Upsert"
    and row: "case ev_row_of ev P of None \<Rightarrow> True | Some r \<Rightarrow> \<not> r_dirty r \<and> i64_ok (r_version r)"
    and ws: "\<forall>w \<in> set (p_queue P). \<not> on_row (ev_table ev) (ev_id ev) w"
  shows "contents (ev_row_of ev (snd (receive clone ev now P))) =
    (case ev_row_of ev P of
       Some r \<Rightarrow> if ev_version ev < r_version r then Some (r_row r, r_version r, False)
                 else Some (clone (ev_row ev), ev_version ev, False)
     | None \<Rightarrow> Some (clone (ev_row ev), ev_version ev, False))"
proof -
  have no: "row_writes ev (p_queue P) = []"
    using ws by (simp add: row_writes_def filter_empty_conv)
  show ?thesis
  proof (cases "ev_row_of ev P")
    case None
    then show ?thesis
      using ev by (simp add: receive_def no core_reconcile_def meta_of_def)
  next
    case (Some r)
    then show ?thesis
      using ev row by (auto simp: receive_def no core_reconcile_def meta_of_def reconcile_Some)
  qed
qed

text \<open>
  The row after a list of upserts: what it was, as long as no change reached its version;
  otherwise the contents of a change of the highest version delivered.
\<close>

definition on_event :: "string \<Rightarrow> string \<Rightarrow> change_event \<Rightarrow> bool" where
  "on_event t i ev \<longleftrightarrow> ev_table ev = t \<and> ev_id ev = i"

definition newest :: "(jsval \<Rightarrow> jsval) \<Rightarrow> string \<Rightarrow> string \<Rightarrow> change_event list \<Rightarrow> replica option \<Rightarrow>
    (jsval \<times> int \<times> bool) option \<Rightarrow> bool" where
  "newest clone t i evs rec x \<longleftrightarrow>
     (x = contents rec \<and> (\<forall>ev \<in> set evs. on_event t i ev \<longrightarrow>
        (\<exists>r. rec = Some r \<and> ev_version ev < r_version r))) \<or>
     (\<exists>ev \<in> set evs. on_event t i ev \<and> x = Some (clone (ev_row ev), ev_version ev, False) \<and>
        (\<forall>r. rec = Some r \<longrightarrow> r_version r \<le> ev_version ev) \<and>
        (\<forall>ev' \<in> set evs. on_event t i ev' \<longrightarrow> ev_version ev' \<le> ev_version ev))"

lemma contents_version: "contents r = Some (x, v, d) \<Longrightarrow> \<exists>r0. r = Some r0 \<and> r_row r0 = x \<and> r_version r0 = v \<and> r_dirty r0 = d"
  by (cases r) auto

lemma deliver_newest:
  assumes ev: "\<And>ev. ev \<in> set evs \<Longrightarrow> wasm_event_ok ev \<and> ev_op ev = Upsert"
    and row: "case p_rows P t i of None \<Rightarrow> True | Some r \<Rightarrow> \<not> r_dirty r \<and> i64_ok (r_version r)"
    and ws: "\<forall>w \<in> set (p_queue P). \<not> on_row t i w"
  shows "newest clone t i evs (p_rows P t i) (contents (p_rows (deliver clone now evs P) t i)) \<and>
    (\<forall>w \<in> set (p_queue (deliver clone now evs P)). \<not> on_row t i w)"
  using ev
proof (induction evs rule: rev_induct)
  case Nil
  then show ?case using ws by (simp add: newest_def)
next
  case (snoc ev evs)
  let ?Q = "deliver clone now evs P"
  have IH: "newest clone t i evs (p_rows P t i) (contents (p_rows ?Q t i))"
    and no: "\<forall>w \<in> set (p_queue ?Q). \<not> on_row t i w"
    using snoc by auto
  have ev: "wasm_event_ok ev" "ev_op ev = Upsert" and evs: "\<And>e. e \<in> set evs \<Longrightarrow> wasm_event_ok e"
    using snoc.prems by auto
  have no': "\<forall>w \<in> set (p_queue (deliver clone now (evs @ [ev]) P)). \<not> on_row t i w"
    using receive_no_writes [OF no] by simp
  show ?case
  proof (cases "on_event t i ev")
    case False
    have "p_rows (deliver clone now (evs @ [ev]) P) t i = p_rows ?Q t i"
      using receive_other_row [of t ev i clone now ?Q] False by (auto simp: on_event_def)
    then have "newest clone t i (evs @ [ev]) (p_rows P t i) (contents (p_rows (deliver clone now (evs @ [ev]) P) t i))"
      using IH False by (auto simp: newest_def)
    then show ?thesis using no' by simp
  next
    case True
    then have ti: "t = ev_table ev" "i = ev_id ev" by (auto simp: on_event_def)
    have clean: "case ev_row_of ev ?Q of None \<Rightarrow> True | Some r \<Rightarrow> \<not> r_dirty r \<and> i64_ok (r_version r)"
      using IH row evs unfolding ti
      by (auto simp: newest_def wasm_event_ok_def dest!: contents_version split: option.splits)
    note step = receive_clean_upsert [OF ev clean no [unfolded ti], of clone now]
    have "newest clone t i (evs @ [ev]) (p_rows P t i) (contents (p_rows (deliver clone now (evs @ [ev]) P) t i))"
    proof (cases "ev_row_of ev ?Q")
      case None
      then have "\<forall>e \<in> set evs. \<not> on_event t i e" "p_rows P t i = None"
        using IH unfolding ti by (auto simp: newest_def)
      then show ?thesis
        using step True None by (auto simp: newest_def ti)
    next
      case (Some r)
      show ?thesis
      proof (cases "ev_version ev < r_version r")
        case True
        have c: "contents (p_rows (deliver clone now (evs @ [ev]) P) t i) = contents (p_rows ?Q t i)"
          using step Some True clean by (simp add: ti)
        show ?thesis
          unfolding c using IH True Some unfolding ti by (auto simp: newest_def dest!: contents_version [OF sym])
      next
        case False
        have c: "contents (p_rows (deliver clone now (evs @ [ev]) P) t i) = Some (clone (ev_row ev), ev_version ev, False)"
          using step Some False by (simp add: ti)
        have le: "\<forall>e \<in> set evs. on_event t i e \<longrightarrow> ev_version e \<le> ev_version ev"
          "\<forall>r. p_rows P t i = Some r \<longrightarrow> r_version r \<le> ev_version ev"
          using IH False Some unfolding ti by (fastforce simp: newest_def)+
        show ?thesis
          unfolding c newest_def using le True by auto
      qed
    qed
    then show ?thesis using no' by simp
  qed
qed

lemma newest_unique:
  assumes x: "newest clone t i evs rec x" and y: "newest clone t i evs rec y"
    and key: "\<forall>e \<in> set evs. \<forall>e' \<in> set evs. on_event t i e \<longrightarrow> on_event t i e' \<longrightarrow>
        ev_version e = ev_version e' \<longrightarrow> clone (ev_row e) = clone (ev_row e')"
  shows "x = y"
proof (cases "\<forall>ev \<in> set evs. on_event t i ev \<longrightarrow> (\<exists>r. rec = Some r \<and> ev_version ev < r_version r)")
  case True
  then have "z = contents rec" if "newest clone t i evs rec z" for z
    using that unfolding newest_def by (metis not_le)
  then show ?thesis using x y by blast
next
  case False
  obtain e where e: "e \<in> set evs" "on_event t i e" "x = Some (clone (ev_row e), ev_version e, False)"
      "\<forall>ev' \<in> set evs. on_event t i ev' \<longrightarrow> ev_version ev' \<le> ev_version e"
    using x False unfolding newest_def by blast
  obtain e' where e': "e' \<in> set evs" "on_event t i e'" "y = Some (clone (ev_row e'), ev_version e', False)"
      "\<forall>ev' \<in> set evs. on_event t i ev' \<longrightarrow> ev_version ev' \<le> ev_version e'"
    using y False unfolding newest_def by blast
  have "ev_version e \<le> ev_version e'" "ev_version e' \<le> ev_version e"
    using e(1,2,4) e'(1,2,4) by blast+
  then have v: "ev_version e = ev_version e'" by (rule order_antisym)
  have "clone (ev_row e) = clone (ev_row e')"
    using key e(1,2) e'(1,2) v by blast
  then show ?thesis by (simp only: e(3) e'(3) v)
qed

theorem deliver_converges:
  assumes ev: "\<forall>ev \<in> set evs. wasm_event_ok ev \<and> ev_op ev = Upsert"
    and same: "set evs' = set evs"
    and key: "\<forall>e \<in> set evs. \<forall>e' \<in> set evs. on_event t i e \<longrightarrow> on_event t i e' \<longrightarrow>
        ev_version e = ev_version e' \<longrightarrow> clone (ev_row e) = clone (ev_row e')"
    and row: "case p_rows P t i of None \<Rightarrow> True | Some r \<Rightarrow> \<not> r_dirty r \<and> i64_ok (r_version r)"
    and ws: "\<forall>w \<in> set (p_queue P). \<not> on_row t i w"
  shows "contents (p_rows (deliver clone now evs P) t i) = contents (p_rows (deliver clone now evs' P) t i)"
proof -
  have "newest clone t i evs (p_rows P t i) (contents (p_rows (deliver clone now evs P) t i))"
    using deliver_newest [OF _ row ws] ev by blast
  moreover have "newest clone t i evs (p_rows P t i) (contents (p_rows (deliver clone now evs' P) t i))"
    using deliver_newest [OF _ row ws, of evs'] ev same by (simp add: newest_def)
  ultimately show ?thesis by (rule newest_unique [OF _ _ key])
qed

section \<open>Deliveries to an adapter\<close>

text \<open>A transport handing over its changes one after the other, whatever each call answers.\<close>

definition receive_all ::
    "'s store_api \<Rightarrow> config \<Rightarrow> int \<Rightarrow> change_event list \<Rightarrow> 's client \<Rightarrow> 's client" where
  "receive_all api cfg now evs c = foldl (\<lambda>d ev. snd (applyChange 1 cfg api ev now d)) c evs"

lemma receive_all_simps [simp]:
  "receive_all api cfg now [] c = c"
  "receive_all api cfg now (ev # evs) c = receive_all api cfg now evs (snd (applyChange 1 cfg api ev now c))"
  by (simp_all add: receive_all_def)

context reliable_store
begin

lemma receive_all_deliver:
  assumes "invar (cl_store c)" "ready (cl_store c)" "plane_ok (plane_of (cl_store c))"
    and "ev_table ` set evs \<subseteq> tables"
  shows "invar (cl_store (receive_all api cfg now evs c)) \<and> ready (cl_store (receive_all api cfg now evs c)) \<and>
    plane_of (cl_store (receive_all api cfg now evs c)) = deliver clone now evs (plane_of (cl_store c))"
  using assms
proof (induction evs arbitrary: c)
  case Nil
  then show ?case by (simp add: deliver_def)
next
  case (Cons ev evs)
  obtain res d where a: "applyChange 1 cfg api ev now c = (res, d)" by (cases "applyChange 1 cfg api ev now c")
  have step: "invar (cl_store d)" "ready (cl_store d)"
    "receive clone ev now (plane_of (cl_store c)) = (res, plane_of (cl_store d))"
    using applyChange_receive_exact [of c ev 0 cfg now res d] Cons.prems a
    by auto
  have "plane_ok (plane_of (cl_store d))" by (rule receive_plane_ok [OF Cons.prems(3) step(3)])
  from Cons.IH [OF step(1,2) this] show ?case
    using Cons.prems(4) a step(3) by (simp add: deliver_def)
qed

end

end
