(* ===== verification/Sync_Start.thy ===== *)
theory Sync_Start
  imports Decode Convergence Protocol
begin

text \<open>
  The catch-up of start.mjs: \<open>pullAll\<close>, which walks the server's cursor pages, and
  \<open>hydrateAll\<close>, which guards it against running twice. Shown: a page's changes are applied
  before its cursor is stored, so after any outcome the cursor stands for changes that
  have all been delivered.
\<close>

section \<open>Pulling pages\<close>

abbreviation page_limit :: nat where "page_limit \<equiv> 10000"

abbreviation bad_page :: js_error where
  "bad_page \<equiv> Err ''incremental sync returned an invalid cursor page''"

abbreviation no_progress :: js_error where
  "no_progress \<equiv> Err ''incremental sync cursor made no progress''"

abbreviation bad_change :: js_error where
  "bad_change \<equiv> Err ''incremental sync page contains an invalid change event''"

abbreviation too_many_pages :: js_error where
  "too_many_pages \<equiv> Err ''incremental sync exceeded the catch-up page limit''"

text \<open>The checks of a page against the cursor it was asked for.\<close>

definition check_page :: "int \<Rightarrow> jsval \<Rightarrow> (jsval list \<times> int \<times> bool) res" where
  "check_page cursor page =
     (if \<not> truthy page \<or> typeof page \<noteq> ''object'' then Inl bad_page
      else case (js_field page ''changes'', js_safe_int (js_field page ''next_cursor''), js_field page ''has_more'') of
        (JArr changes, Some next_cursor, JBool has_more) \<Rightarrow>
          if next_cursor < cursor then Inl bad_page
          else if (has_more \<or> changes \<noteq> []) \<and> next_cursor = cursor then Inl no_progress
          else Inr (changes, next_cursor, has_more)
      | _ \<Rightarrow> Inl bad_page)"

fun apply_page :: "nat \<Rightarrow> config \<Rightarrow> 's store_api \<Rightarrow> int \<Rightarrow> jsval list \<Rightarrow> ('s client, unit) op" where
  "apply_page fuel cfg api now [] = ret ()"
| "apply_page fuel cfg api now (change # changes) =
     (if \<not> isChangeEvent change then raise bad_change
      else bindE (applyChange fuel cfg api (event_of change) now)
             (\<lambda>_. apply_page fuel cfg api now changes))"

type_synonym 's fetcher = "int \<Rightarrow> int \<Rightarrow> ('s client, jsval) op"

fun pull_pages ::
    "nat \<Rightarrow> nat \<Rightarrow> config \<Rightarrow> 's store_api \<Rightarrow> 's fetcher \<Rightarrow> int \<Rightarrow> string \<Rightarrow> int \<Rightarrow> int \<Rightarrow> ('s client, unit) op" where
  "pull_pages 0 fuel cfg api fetch limit scope now cursor = raise too_many_pages"
| "pull_pages (Suc n) fuel cfg api fetch limit scope now cursor =
     bindE (fetch cursor limit) (\<lambda>page.
     bindE (lift_res (check_page cursor page)) (\<lambda>(changes, next_cursor, has_more).
     bindE (apply_page fuel cfg api now changes) (\<lambda>_.
     bindE (on_store (api_set_cursor api next_cursor scope)) (\<lambda>_.
       if \<not> has_more then ret ()
       else pull_pages n fuel cfg api fetch limit scope now next_cursor))))"

definition pullAll ::
    "nat \<Rightarrow> config \<Rightarrow> 's store_api \<Rightarrow> 's fetcher option \<Rightarrow> jsval \<Rightarrow> string \<Rightarrow> int \<Rightarrow> ('s client, unit) op" where
  "pullAll fuel cfg api pullFetch pullPageSize scope now =
     (case pullFetch of
        None \<Rightarrow> ret ()
      | Some fetch \<Rightarrow>
          (case js_safe_int pullPageSize of
             Some limit \<Rightarrow>
               if limit < 1 \<or> limit > 1000
               then raise (Err ''pullPageSize must be an integer between 1 and 1000'')
               else bindE (on_store (api_get_cursor api scope))
                      (pull_pages page_limit fuel cfg api fetch limit scope now)
           | None \<Rightarrow> raise (Err ''pullPageSize must be an integer between 1 and 1000'')))"

section \<open>Hydrating every table\<close>

text \<open>
  The session \<open>startSync\<close> keeps around the client: the re-entrancy flag and what was
  reported. A hydration that finds the flag set returns at once.
\<close>

record 's session =
  se_client :: "'s client"
  se_hydrating :: bool
  se_reports :: "(string \<times> js_error) list"

definition hydrate_table ::
    "nat \<Rightarrow> config \<Rightarrow> 's store_api \<Rightarrow> conv \<Rightarrow> (string \<Rightarrow> ('s client, jsval) op) \<Rightarrow> bool \<Rightarrow> int \<Rightarrow> string \<Rightarrow>
     's session \<Rightarrow> 's session" where
  "hydrate_table fuel cfg api cv fetch prune now table se =
     (case bindE (fetch table) (\<lambda>rows. hydrate fuel cfg api cv table rows prune now) (se_client se) of
        (Inl e, c) \<Rightarrow> se\<lparr>se_client := c, se_reports := se_reports se @ [(''hydrate-error'', e)]\<rparr>
      | (Inr _, c) \<Rightarrow> se\<lparr>se_client := c\<rparr>)"

definition hydrateAll ::
    "nat \<Rightarrow> config \<Rightarrow> 's store_api \<Rightarrow> conv \<Rightarrow> string list \<Rightarrow> (string \<Rightarrow> ('s client, jsval) op) option \<Rightarrow>
     's fetcher option \<Rightarrow> jsval \<Rightarrow> string \<Rightarrow> bool \<Rightarrow> int \<Rightarrow> 's session \<Rightarrow> 's session" where
  "hydrateAll fuel cfg api cv tables hydrateFetch pullFetch pullPageSize scope prune now se =
     (if (hydrateFetch = None \<and> pullFetch = None) \<or> se_hydrating se then se
      else
        (case pullAll fuel cfg api pullFetch pullPageSize scope now (se_client se) of
           (Inl e, c) \<Rightarrow>
             se\<lparr>se_client := c, se_hydrating := False, se_reports := se_reports se @ [(''pull-error'', e)]\<rparr>
         | (Inr _, c) \<Rightarrow>
             let se' = se\<lparr>se_client := c, se_hydrating := True\<rparr> in
             (case hydrateFetch of
                None \<Rightarrow> se'
              | Some fetch \<Rightarrow> foldl (\<lambda>s t. hydrate_table fuel cfg api cv fetch prune now t s) se' tables)
             \<lparr>se_hydrating := False\<rparr>))"

lemma check_page_Inr:
  "check_page cursor page = Inr (changes, nc, has_more) \<Longrightarrow>
     cursor \<le> nc \<and> \<bar>nc\<bar> \<le> MAX_SAFE \<and> (has_more \<or> changes \<noteq> [] \<longrightarrow> cursor < nc) \<and>
     js_field page ''changes'' = JArr changes \<and> js_field page ''next_cursor'' = JNum (num nc) \<and>
     js_field page ''has_more'' = JBool has_more"
  by (auto simp: check_page_def split: if_splits jsval.splits option.splits dest!: js_safe_int_Some)

section \<open>Catch-up is a run of the client\<close>

lemma apply_page_runs: "op_runs cfg api (apply_page fuel cfg api now changes)"
  by (induction changes) auto

lemma pull_pages_runs:
  "(\<And>c l. op_runs cfg api (fetch c l)) \<Longrightarrow> op_runs cfg api (pull_pages n fuel cfg api fetch limit scope now cursor)"
proof (induction n arbitrary: cursor)
  case 0
  then show ?case by auto
next
  case (Suc n)
  then show ?case by (auto intro!: apply_page_runs split: prod.split)
qed

theorem pullAll_runs:
  "(\<And>f c l. pullFetch = Some f \<Longrightarrow> op_runs cfg api (f c l)) \<Longrightarrow>
     op_runs cfg api (pullAll fuel cfg api pullFetch limit scope now)"
  unfolding pullAll_def by (auto intro!: pull_pages_runs split: option.split)

section \<open>The cursor never runs ahead of the changes\<close>

text \<open>
  \<open>pulled c0 evs c1\<close>: walking valid pages from cursor \<open>c0\<close> to \<open>c1\<close> yields the changes
  \<open>evs\<close>, in order.
\<close>

inductive pulled :: "int \<Rightarrow> change_event list \<Rightarrow> int \<Rightarrow> bool" where
  pulled_none: "pulled c [] c"
| pulled_page: "pulled c0 evs c \<Longrightarrow> check_page c page = Inr (changes, c1, has_more) \<Longrightarrow>
    list_all isChangeEvent changes \<Longrightarrow> pulled c0 (evs @ map event_of changes) c1"

lemma pulled_mono: "pulled c0 evs c1 \<Longrightarrow> c0 \<le> c1"
  by (induction rule: pulled.induct) (auto dest: check_page_Inr)

lemma pulled_progress: "pulled c0 evs c1 \<Longrightarrow> evs \<noteq> [] \<Longrightarrow> c0 < c1"
proof (induction rule: pulled.induct)
  case (pulled_page c0 evs c page changes c1 has_more)
  then show ?case using check_page_Inr [OF pulled_page(2)] pulled_mono [OF pulled_page(1)] by fastforce
qed simp

lemma deliver_append [simp]:
  "deliver clone now (evs @ evs') P = deliver clone now evs' (deliver clone now evs P)"
  by (simp add: deliver_def)

lemma deliver_Cons: "deliver clone now (ev # evs) P = deliver clone now evs (snd (receive clone ev now P))"
  by (simp add: deliver_def)

lemma receive_cursor: "p_cursor (snd (receive clone ev now P)) = p_cursor P"
proof -
  obtain res P' where r: "receive clone ev now P = (res, P')" by (cases "receive clone ev now P")
  then have "p_cursor P' = p_cursor P" by (cases rule: receive_cases) auto
  then show ?thesis by (simp add: r)
qed

lemma deliver_cursor: "p_cursor (deliver clone now evs P) = p_cursor P"
  by (induction evs arbitrary: P) (simp_all add: deliver_Cons receive_cursor)

lemma deliver_ok: "plane_ok P \<Longrightarrow> plane_ok (deliver clone now evs P)"
  by (induction evs arbitrary: P) (auto simp: deliver_Cons receive_plane_ok [OF _ prod.collapse [symmetric]])

text \<open>A cursor set aside: the rows and the queue do not depend on it.\<close>

lemma receive_set_cursor:
  "receive clone ev now (P\<lparr>p_cursor := cu\<rparr>) =
     (fst (receive clone ev now P), (snd (receive clone ev now P))\<lparr>p_cursor := cu\<rparr>)"
  by (simp add: receive_def put_server_plane_def resolve_plane_def adopt_echo_plane_def set_row_def Let_def
      split: sum.split option.split reconcile_decision.split)

lemma deliver_set_cursor:
  "deliver clone now evs (P\<lparr>p_cursor := cu\<rparr>) = (deliver clone now evs P)\<lparr>p_cursor := cu\<rparr>"
  by (induction evs arbitrary: P) (simp_all add: deliver_Cons receive_set_cursor)

lemma receive_error: "fst (receive clone ev now P) = Inl e \<Longrightarrow> snd (receive clone ev now P) = P"
proof -
  assume e: "fst (receive clone ev now P) = Inl e"
  obtain res P' where r: "receive clone ev now P = (res, P')" by (cases "receive clone ev now P")
  then have "receive clone ev now P = (Inl e, P')" using e by simp
  then have "P' = P" by (cases rule: receive_cases) auto
  then show ?thesis by (simp add: r)
qed

definition stored_cursor :: "string \<Rightarrow> plane \<Rightarrow> int" where
  "stored_cursor scope P = (case p_cursor P scope of Some c \<Rightarrow> c | None \<Rightarrow> 0)"

text \<open>A fetch talks to the server only.\<close>

definition fetch_quiet :: "'s fetcher \<Rightarrow> bool" where
  "fetch_quiet fetch \<longleftrightarrow> (\<forall>cu l c res c'. fetch cu l c = (res, c') \<longrightarrow> cl_store c' = cl_store c)"

text \<open>
  What catch-up has done when it ends, however it ends: the stored cursor moved along valid
  pages, and the changes of these pages, then perhaps some of the page it stopped in, were
  delivered to the plane in order.
\<close>

definition caught_up :: "(jsval \<Rightarrow> jsval) \<Rightarrow> int \<Rightarrow> string \<Rightarrow> plane \<Rightarrow> plane \<Rightarrow> bool \<Rightarrow> bool" where
  "caught_up clone now scope P P' finished \<longleftrightarrow>
     (\<exists>evs part. pulled (stored_cursor scope P) evs (stored_cursor scope P') \<and> (finished \<longrightarrow> part = []) \<and>
        P'\<lparr>p_cursor := p_cursor P\<rparr> = deliver clone now (evs @ part) P)"

lemma caught_up_refl: "caught_up clone now scope P P b"
  by (auto simp: caught_up_def intro!: exI [of _ "[]"] pulled_none)

lemma caught_up_part: "caught_up clone now scope P (deliver clone now evs P) False"
  unfolding caught_up_def
  by (intro exI [of _ "[]"] exI [of _ evs]) (simp add: stored_cursor_def deliver_cursor pulled_none flip: deliver_set_cursor)

lemma pulled_trans: "pulled c1 evs' c2 \<Longrightarrow> pulled c0 evs c1 \<Longrightarrow> pulled c0 (evs @ evs') c2"
proof (induction rule: pulled.induct)
  case (pulled_page c1 evs' c page changes c2 has_more)
  from pulled.pulled_page [OF pulled_page.IH [OF pulled_page.prems] pulled_page(2,3)]
  show ?case by simp
qed simp

text \<open>One page delivered and its cursor stored, then the rest.\<close>

lemma caught_up_page:
  assumes page: "check_page (stored_cursor scope P) page = Inr (changes, c1, has_more)"
    and valid: "list_all isChangeEvent changes"
    and Q: "Q = (deliver clone now (map event_of changes) P)\<lparr>p_cursor := (p_cursor P)(scope \<mapsto> c1)\<rparr>"
    and rest: "caught_up clone now scope Q P' b"
  shows "caught_up clone now scope P P' b"
proof -
  have cur: "stored_cursor scope Q = c1" by (simp add: Q stored_cursor_def)
  have QP: "Q\<lparr>p_cursor := p_cursor P\<rparr> = deliver clone now (map event_of changes) P"
    by (simp add: Q flip: deliver_set_cursor)
  obtain evs part where r: "pulled c1 evs (stored_cursor scope P')" "b \<longrightarrow> part = []"
    "P'\<lparr>p_cursor := p_cursor Q\<rparr> = deliver clone now (evs @ part) Q"
    using rest cur by (auto simp: caught_up_def)
  have "P'\<lparr>p_cursor := p_cursor P\<rparr> = (P'\<lparr>p_cursor := p_cursor Q\<rparr>)\<lparr>p_cursor := p_cursor P\<rparr>" by simp
  also have "\<dots> = deliver clone now (evs @ part) (Q\<lparr>p_cursor := p_cursor P\<rparr>)"
    unfolding r(3) deliver_set_cursor ..
  also have "\<dots> = deliver clone now ((map event_of changes @ evs) @ part) P"
    unfolding QP by simp
  finally show ?thesis
    using pulled_trans [OF r(1) pulled_page [OF pulled_none page valid]] r(2)
    unfolding caught_up_def append_Nil by blast
qed

lemma set_cursor_Inr:
  "spec_setCursor c1 scope P = (Inr v, P') \<Longrightarrow> P' = P\<lparr>p_cursor := (p_cursor P)(scope \<mapsto> c1)\<rparr>"
  by (auto simp: spec_setCursor_def split: if_splits)

context store_contract
begin

lemma applyChange_step:
  assumes "invar (cl_store c)" "plane_ok (plane_of (cl_store c))"
    and "applyChange (Suc fuel) cfg api ev now c = (res, c')"
  shows "invar (cl_store c') \<and>
    ((\<exists>e. res = Inl e) \<and> plane_of (cl_store c') = plane_of (cl_store c) \<or>
     (\<exists>out. res = Inr out) \<and> plane_of (cl_store c') = snd (receive clone ev now (plane_of (cl_store c))))"
  using applyChange_atomic [OF assms] receive_error [of clone ev now "plane_of (cl_store c)"]
  by (cases res) auto

text \<open>A page is applied up to the first change that is refused; all of it on success.\<close>

lemma apply_page_delivers:
  assumes "apply_page (Suc fuel) cfg api now changes c = (res, c')"
    and "invar (cl_store c)" "plane_ok (plane_of (cl_store c))"
  shows "\<exists>ys zs. changes = ys @ zs \<and> list_all isChangeEvent ys \<and> (res = Inr () \<longrightarrow> zs = []) \<and>
    invar (cl_store c') \<and> plane_of (cl_store c') = deliver clone now (map event_of ys) (plane_of (cl_store c))"
  using assms
proof (induction changes arbitrary: c)
  case Nil
  then show ?case by simp
next
  case (Cons change changes)
  have stop: ?case if "plane_of (cl_store c') = plane_of (cl_store c)" "invar (cl_store c')" "res \<noteq> Inr ()"
    using that by (intro exI [of _ "[]"] exI [of _ "change # changes"]) simp
  show ?case
  proof (cases "isChangeEvent change")
    case False
    then show ?thesis using Cons.prems by (intro stop) auto
  next
    case True
    obtain q d where a: "applyChange (Suc fuel) cfg api (event_of change) now c = (q, d)"
      by (cases "applyChange (Suc fuel) cfg api (event_of change) now c")
    note step = applyChange_step [OF Cons.prems(2,3) a]
    show ?thesis
    proof (cases q)
      case (Inl e)
      have "c' = d" "res = Inl e" using Cons.prems(1) True a Inl by (simp_all del: applyChange.simps)
      then show ?thesis using step Inl by (intro stop) auto
    next
      case (Inr out)
      have rest: "apply_page (Suc fuel) cfg api now changes d = (res, c')"
        using Cons.prems(1) True a Inr by (simp del: applyChange.simps)
      have d: "invar (cl_store d)" "plane_of (cl_store d) = snd (receive clone (event_of change) now (plane_of (cl_store c)))"
        using step Inr by auto
      have "plane_ok (plane_of (cl_store d))"
        using receive_plane_ok [OF Cons.prems(3), of clone "event_of change" now] d(2) by (metis prod.collapse)
      from Cons.IH [OF rest d(1) this] obtain ys zs where
        "changes = ys @ zs" "list_all isChangeEvent ys" "res = Inr () \<longrightarrow> zs = []" "invar (cl_store c')"
        "plane_of (cl_store c') = deliver clone now (map event_of ys) (plane_of (cl_store d))" by blast
      then show ?thesis
        using True d(2) by (intro exI [of _ "change # ys"] exI [of _ zs]) (simp add: deliver_Cons)
    qed
  qed
qed

text \<open>A page applied and its cursor stored: the next state, or where it stopped.\<close>

lemma page_step:
  assumes f: "bindE (apply_page (Suc fuel) cfg api now changes)
      (\<lambda>_. on_store (api_set_cursor api c1 scope)) c = (q, d)"
    and c: "invar (cl_store c)" "plane_ok (plane_of (cl_store c))"
  shows "invar (cl_store d) \<and>
    (case q of Inl e \<Rightarrow> (\<exists>evs. plane_of (cl_store d) = deliver clone now evs (plane_of (cl_store c)))
     | Inr _ \<Rightarrow> list_all isChangeEvent changes \<and> plane_of (cl_store d) =
         (deliver clone now (map event_of changes) (plane_of (cl_store c)))
           \<lparr>p_cursor := (p_cursor (plane_of (cl_store c)))(scope \<mapsto> c1)\<rparr>)"
proof -
  obtain q1 e where a: "apply_page (Suc fuel) cfg api now changes c = (q1, e)"
    by (cases "apply_page (Suc fuel) cfg api now changes c")
  obtain ys zs where ys: "changes = ys @ zs" "list_all isChangeEvent ys" "q1 = Inr () \<longrightarrow> zs = []"
    "invar (cl_store e)" "plane_of (cl_store e) = deliver clone now (map event_of ys) (plane_of (cl_store c))"
    using apply_page_delivers [OF a c] by blast
  show ?thesis
  proof (cases q1)
    case (Inl er)
    then show ?thesis using f a ys by auto
  next
    case (Inr u)
    obtain r s where s: "api_set_cursor api c1 scope (cl_store e) = (r, s)"
      by (cases "api_set_cursor api c1 scope (cl_store e)")
    have d: "d = e\<lparr>cl_store := s\<rparr>" "q = r"
      using f a Inr s by (simp_all add: bindE_def on_store_def)
    show ?thesis
      using implements_Inl [OF set_cursor_ok ys(4)] implements_Inr [OF set_cursor_ok ys(4)] s d ys Inr
        set_cursor_Inr [of c1 scope "plane_of (cl_store e)"]
      by (cases r) (auto simp: deliver_cursor)
  qed
qed

lemma pull_pages_caught_up:
  assumes "pull_pages n (Suc fuel) cfg api fetch limit scope now
      (stored_cursor scope (plane_of (cl_store c))) c = (res, c')"
    and "fetch_quiet fetch" and "invar (cl_store c)" "plane_ok (plane_of (cl_store c))"
  shows "invar (cl_store c') \<and>
    caught_up clone now scope (plane_of (cl_store c)) (plane_of (cl_store c')) (res = Inr ())"
  using assms
proof (induction n arbitrary: c)
  case 0
  then show ?case by (auto simp: caught_up_refl)
next
  case (Suc n)
  let ?P = "plane_of (cl_store c)" and ?cur = "stored_cursor scope (plane_of (cl_store c))"
  obtain pg d where f: "fetch ?cur limit c = (pg, d)" by (cases "fetch ?cur limit c")
  have d: "cl_store d = cl_store c" using Suc.prems(2) f by (auto simp: fetch_quiet_def)
  show ?case
  proof (cases "\<exists>page cp. pg = Inr page \<and> check_page ?cur page = Inr cp")
    case False
    then have "c' = d"
      using Suc.prems(1) f by (cases pg; cases "check_page ?cur (projr pg)") (auto simp: bindE_def lift_res_def)
    then show ?thesis using d Suc.prems(3) by (simp add: caught_up_refl)
  next
    case True
    then obtain page changes c1 has_more where pg: "pg = Inr page"
      "check_page ?cur page = Inr (changes, c1, has_more)" by auto
    obtain q e where a: "bindE (apply_page (Suc fuel) cfg api now changes)
        (\<lambda>_. on_store (api_set_cursor api c1 scope)) d = (q, e)"
      by (cases "bindE (apply_page (Suc fuel) cfg api now changes) (\<lambda>_. on_store (api_set_cursor api c1 scope)) d")
    have tail: "(case q of Inl er \<Rightarrow> (Inl er, e) | Inr _ \<Rightarrow>
        (if \<not> has_more then ret () else pull_pages n (Suc fuel) cfg api fetch limit scope now c1) e) = (res, c')"
      using Suc.prems(1) f pg a by (auto simp: bindE_def lift_res_def split: prod.splits sum.splits)
    note step = page_step [OF a, unfolded d, OF Suc.prems(3,4)]
    show ?thesis
    proof (cases q)
      case (Inl er)
      then show ?thesis using step tail caught_up_part by auto
    next
      case (Inr u)
      let ?Q = "plane_of (cl_store e)"
      have Q: "list_all isChangeEvent changes" "invar (cl_store e)"
        "?Q = (deliver clone now (map event_of changes) ?P)\<lparr>p_cursor := (p_cursor ?P)(scope \<mapsto> c1)\<rparr>"
        using step Inr by auto
      have okQ: "plane_ok ?Q" and cur: "stored_cursor scope ?Q = c1"
        using deliver_ok [OF Suc.prems(4)] unfolding Q(3)
        by (simp_all add: plane_ok_def queue_ok_def dirty_queued_def ids_ok_def stored_cursor_def)
      have "invar (cl_store c') \<and> caught_up clone now scope ?Q (plane_of (cl_store c')) (res = Inr ())"
      proof (cases has_more)
        case False
        then show ?thesis using tail Inr Q(2) by (simp add: caught_up_refl)
      next
        case True
        then show ?thesis using tail Inr cur by (intro Suc.IH Suc.prems(2) Q(2) okQ) simp
      qed
      then show ?thesis using caught_up_page [OF pg(2) Q(1,3)] by blast
    qed
  qed
qed

theorem pullAll_caught_up:
  assumes "pullAll (Suc fuel) cfg api (Some fetch) limit scope now c = (res, c')"
    and "fetch_quiet fetch" and "invar (cl_store c)" "plane_ok (plane_of (cl_store c))"
  shows "invar (cl_store c') \<and>
    caught_up clone now scope (plane_of (cl_store c)) (plane_of (cl_store c')) (res = Inr ())"
proof (cases "\<exists>l. js_safe_int limit = Some l \<and> 1 \<le> l \<and> l \<le> 1000")
  case False
  then have "c' = c"
    using assms(1) by (auto simp: pullAll_def split: option.splits if_splits)
  then show ?thesis using assms(3) by (simp add: caught_up_refl)
next
  case True
  then obtain l where l: "js_safe_int limit = Some l" "\<not> (l < 1 \<or> l > 1000)" by auto
  obtain q s where g: "api_get_cursor api scope (cl_store c) = (q, s)"
    by (cases "api_get_cursor api scope (cl_store c)")
  have rest: "(case q of Inl e \<Rightarrow> (Inl e, c\<lparr>cl_store := s\<rparr>)
      | Inr cu \<Rightarrow> pull_pages page_limit (Suc fuel) cfg api fetch l scope now cu (c\<lparr>cl_store := s\<rparr>)) = (res, c')"
    using assms(1) l g unfolding pullAll_def
    by (auto simp: bindE_def on_store_def split: sum.splits simp del: pull_pages.simps)
  show ?thesis
  proof (cases q)
    case (Inl e)
    then show ?thesis
      using rest implements_Inl [OF get_cursor_ok assms(3) g [unfolded Inl]] by (auto simp: caught_up_refl)
  next
    case (Inr cu)
    have s: "invar s" "plane_of s = plane_of (cl_store c)" "cu = stored_cursor scope (plane_of (cl_store c))"
      using implements_Inr [OF get_cursor_ok assms(3) g [unfolded Inr]]
      by (auto simp: spec_getCursor_def stored_cursor_def)
    then show ?thesis
      using pull_pages_caught_up [of page_limit fuel cfg fetch l scope now "c\<lparr>cl_store := s\<rparr>"] rest Inr assms(2,4)
      by (simp del: pull_pages.simps)
  qed
qed

end

end
