(* ===== verification/Object_Store.thy ===== *)
theory Object_Store
  imports Replica
begin

text \<open>
  Record collections keyed by a field of the record. An IndexedDB object store with a
  \<^verbatim>\<open>keyPath\<close> is a list sorted by key (\<^verbatim>\<open>getAll\<close> returns it in this order); the rows of
  the localStorage document are an array searched with \<^verbatim>\<open>findIndex\<close>. Both satisfy the
  interface \<open>keyed_store\<close>, from which the adapters' proofs are done.
\<close>

section \<open>Interface\<close>

locale keyed_store =
  fixes key :: "'r \<Rightarrow> 'k"
    and get :: "'k \<Rightarrow> 's \<Rightarrow> 'r option"
    and put :: "'r \<Rightarrow> 's \<Rightarrow> 's"
    and del :: "'k \<Rightarrow> 's \<Rightarrow> 's"
    and invar :: "'s \<Rightarrow> bool"
  assumes get_put: "invar s \<Longrightarrow> get k (put r s) = (if k = key r then Some r else get k s)"
    and get_del: "invar s \<Longrightarrow> get k (del k' s) = (if k = k' then None else get k s)"
    and get_key: "invar s \<Longrightarrow> get k s = Some r \<Longrightarrow> key r = k"
    and invar_put: "invar s \<Longrightarrow> invar (put r s)"
    and invar_del: "invar s \<Longrightarrow> invar (del k s)"
begin

lemma lookup_put: "invar s \<Longrightarrow> (\<lambda>k. get k (put r s)) = (\<lambda>k. get k s)(key r := Some r)"
  by (auto simp: get_put)

lemma lookup_del: "invar s \<Longrightarrow> (\<lambda>k. get k (del k' s)) = (\<lambda>k. get k s)(k' := None)"
  by (auto simp: get_del)

lemma put_overwrites:
  "invar s \<Longrightarrow> key r = key r' \<Longrightarrow> get k (put r (put r' s)) = get k (put r s)"
  by (simp add: get_put invar_put)

lemma put_commutes:
  "invar s \<Longrightarrow> key r \<noteq> key r' \<Longrightarrow> get k (put r (put r' s)) = get k (put r' (put r s))"
  by (simp add: get_put invar_put)

lemma del_put_other:
  "invar s \<Longrightarrow> key r \<noteq> k' \<Longrightarrow> get k (del k' (put r s)) = get k (put r (del k' s))"
  by (simp add: get_put get_del invar_put invar_del)

end

section \<open>An object store with a key path\<close>

definition os_get :: "('r \<Rightarrow> 'k) \<Rightarrow> 'k \<Rightarrow> 'r list \<Rightarrow> 'r option" where
  "os_get key k s = find (\<lambda>r. key r = k) s"

fun os_put :: "('r \<Rightarrow> 'k :: linorder) \<Rightarrow> 'r \<Rightarrow> 'r list \<Rightarrow> 'r list" where
  "os_put key r [] = [r]"
| "os_put key r (x # xs) =
     (if key r < key x then r # x # xs
      else if key r = key x then r # xs
      else x # os_put key r xs)"

definition os_delete :: "('r \<Rightarrow> 'k) \<Rightarrow> 'k \<Rightarrow> 'r list \<Rightarrow> 'r list" where
  "os_delete key k s = filter (\<lambda>r. key r \<noteq> k) s"

definition os_sorted :: "('r \<Rightarrow> 'k :: linorder) \<Rightarrow> 'r list \<Rightarrow> bool" where
  "os_sorted key s \<longleftrightarrow> sorted_wrt (<) (map key s)"

lemma set_os_put: "set (os_put key r s) \<subseteq> insert r (set s)"
  by (induction s) auto

lemma os_get_os_put_same: "os_get key (key r) (os_put key r s) = Some r"
  by (induction s) (auto simp: os_get_def)

lemma os_get_os_put_other: "k \<noteq> key r \<Longrightarrow> os_get key k (os_put key r s) = os_get key k s"
  by (induction s) (auto simp: os_get_def)

lemma os_get_os_delete: "os_get key k (os_delete key k' s) = (if k = k' then None else os_get key k s)"
  by (induction s) (auto simp: os_get_def os_delete_def)

lemma os_sorted_put: "os_sorted key s \<Longrightarrow> os_sorted key (os_put key r s)"
proof (induction s)
  case Nil
  then show ?case by (simp add: os_sorted_def)
next
  case (Cons x xs)
  have "set (os_put key r xs) \<subseteq> insert r (set xs)"
    by (rule set_os_put)
  with Cons show ?case
    by (auto simp: os_sorted_def)
qed

lemma os_sorted_delete: "os_sorted key s \<Longrightarrow> os_sorted key (os_delete key k s)"
  by (simp add: os_sorted_def os_delete_def sorted_map_filter)

interpretation os: keyed_store key "os_get key" "os_put key" "os_delete key" "os_sorted key"
  for key :: "'r \<Rightarrow> 'k :: linorder"
proof unfold_locales
  show "os_get key k (os_put key r s) = (if k = key r then Some r else os_get key k s)" for k r s
    by (auto simp: os_get_os_put_same os_get_os_put_other)
  show "os_get key k s = Some r \<Longrightarrow> key r = k" for k r s
    by (auto simp: os_get_def dest: find_Some_mem)
qed (simp_all add: os_get_os_delete os_sorted_put os_sorted_delete)

subsection \<open>Appending under a fresh key, rewriting in a loop\<close>

lemma os_put_append: "(\<And>x. x \<in> set s \<Longrightarrow> key x < key r) \<Longrightarrow> os_put key r s = s @ [r]"
proof (induction s)
  case Nil
  then show ?case by simp
next
  case (Cons a s)
  then have "key a < key r" by simp
  then have "\<not> key r < key a" and "key r \<noteq> key a" by auto
  with Cons show ?case by simp
qed

lemma os_put_present:
  "os_sorted key s \<Longrightarrow> key r \<in> key ` set s \<Longrightarrow>
     os_put key r s = map (\<lambda>x. if key x = key r then r else x) s"
proof (induction s)
  case Nil
  then show ?case by simp
next
  case (Cons x xs)
  have gt: "\<forall>y \<in> set xs. key x < key y" and xs: "os_sorted key xs"
    using Cons.prems(1) by (auto simp: os_sorted_def)
  show ?case
  proof (cases "key r = key x")
    case True
    have "map (\<lambda>y. if key y = key r then r else y) xs = xs"
      using True gt by (intro map_idI) auto
    with True show ?thesis by simp
  next
    case False
    then have "key r \<in> key ` set xs" and "\<not> key r < key x"
      using Cons.prems(2) gt by auto
    with False Cons.IH [OF xs] show ?thesis by auto
  qed
qed

lemma os_sorted_map_cong:
  "(\<And>x. x \<in> set s \<Longrightarrow> key (f x) = key x) \<Longrightarrow> os_sorted key (map f s) = os_sorted key s"
proof -
  assume "\<And>x. x \<in> set s \<Longrightarrow> key (f x) = key x"
  then have "map key (map f s) = map key s" by simp
  then show ?thesis by (simp only: os_sorted_def)
qed

text \<open>
  The loops of the queue: every record of a snapshot that satisfies \<open>P\<close> is changed and
  put back. On a sorted store this is a \<^term>\<open>map\<close>.
\<close>

definition put_where :: "('r \<Rightarrow> 'k :: linorder) \<Rightarrow> ('r \<Rightarrow> bool) \<Rightarrow> ('r \<Rightarrow> 'r) \<Rightarrow> 'r list \<Rightarrow> 'r list \<Rightarrow> 'r list" where
  "put_where key P f snapshot s =
     fold (\<lambda>c q. if P c then os_put key (f c) q else q) snapshot s"

lemma put_where_map_aux:
  assumes keyf: "\<And>x. key (f x) = key x" and base: "os_sorted key base"
  shows "set ws \<subseteq> set base \<Longrightarrow> (\<And>x. key (h x) = key x) \<Longrightarrow>
    put_where key P f ws (map h base) =
      map (\<lambda>x. if x \<in> set ws \<and> P x then f x else h x) base"
proof (induction ws arbitrary: h)
  case Nil
  then show ?case by (simp add: put_where_def)
next
  case (Cons c ws)
  define h' where "h' = (\<lambda>x. if P c \<and> x = c then f c else h x)"
  have dist: "distinct (map key base)"
    using base by (simp add: os_sorted_def sorted_map_key)
  have c: "c \<in> set base" and ws: "set ws \<subseteq> set base"
    using Cons.prems(1) by auto
  have inj: "key (h x) = key (f c) \<longleftrightarrow> x = c" if "x \<in> set base" for x
    using that c dist Cons.prems(2) keyf by (auto simp: distinct_map dest: inj_onD)
  have step: "(if P c then os_put key (f c) (map h base) else map h base) = map h' base"
  proof (cases "P c")
    case True
    have "key (f c) = key (h c)" and "h c \<in> set (map h base)"
      using c keyf Cons.prems(2) by auto
    then have "key (f c) \<in> key ` set (map h base)"
      by (rule image_eqI)
    moreover have "os_sorted key (map h base)"
      using base Cons.prems(2) by (simp add: os_sorted_map_cong)
    ultimately have "os_put key (f c) (map h base) =
        map (\<lambda>x. if key x = key (f c) then f c else x) (map h base)"
      by (rule os_put_present [rotated])
    also have "\<dots> = map h' base"
      using True inj by (auto simp: h'_def)
    finally show ?thesis using True by simp
  next
    case False
    then show ?thesis by (simp add: h'_def)
  qed
  have "key (h' x) = key x" for x
    using Cons.prems(2) keyf by (simp add: h'_def)
  then have "put_where key P f ws (map h' base) =
      map (\<lambda>x. if x \<in> set ws \<and> P x then f x else h' x) base"
    by (rule Cons.IH [OF ws])
  then show ?case
    by (auto simp: put_where_def step h'_def)
qed

lemma put_where_map:
  assumes "\<And>x. key (f x) = key x" and "os_sorted key s"
  shows "put_where key P f s s = map (\<lambda>x. if P x then f x else x) s"
  using put_where_map_aux [OF assms, of s "\<lambda>x. x" P] by simp

lemma fold_os_delete:
  "fold (os_delete key) ks s = filter (\<lambda>r. key r \<notin> set ks) s"
  by (induction ks arbitrary: s) (auto simp: os_delete_def intro: filter_cong)

section \<open>The rows of the localStorage document\<close>

text \<open>Rows of all tables in one array; \<^verbatim>\<open>{ table, ...record }\<close> is a pair.\<close>

type_synonym ls_row = "string \<times> replica"

abbreviation row_key :: "ls_row \<Rightarrow> string \<times> string" where
  "row_key r \<equiv> (fst r, r_id (snd r))"

fun rowIndex :: "ls_row list \<Rightarrow> string \<Rightarrow> string \<Rightarrow> nat option" where
  "rowIndex [] t i = None"
| "rowIndex (r # rs) t i =
     (if fst r = t \<and> r_id (snd r) = i then Some 0 else map_option Suc (rowIndex rs t i))"

definition rowRecord :: "ls_row list \<Rightarrow> string \<Rightarrow> string \<Rightarrow> replica option" where
  "rowRecord rows t i = (case rowIndex rows t i of None \<Rightarrow> None | Some n \<Rightarrow> Some (snd (rows ! n)))"

definition putRow :: "ls_row list \<Rightarrow> string \<Rightarrow> replica \<Rightarrow> ls_row list" where
  "putRow rows t rec =
     (case rowIndex rows t (r_id rec) of
        None \<Rightarrow> rows @ [(t, rec)]
      | Some n \<Rightarrow> rows[n := (t, rec)])"

text \<open>\<^verbatim>\<open>rows.splice(index, 1)\<close>.\<close>

definition deleteRow :: "ls_row list \<Rightarrow> string \<Rightarrow> string \<Rightarrow> ls_row list" where
  "deleteRow rows t i =
     (case rowIndex rows t i of None \<Rightarrow> rows | Some n \<Rightarrow> take n rows @ drop (Suc n) rows)"

lemma rowIndex_Some:
  "rowIndex rows t i = Some n \<Longrightarrow> n < length rows \<and> row_key (rows ! n) = (t, i)"
  by (induction rows arbitrary: n) (auto split: if_splits)

lemma rowRecord_Cons:
  "rowRecord (r # rs) t i =
     (if fst r = t \<and> r_id (snd r) = i then Some (snd r) else rowRecord rs t i)"
  by (auto simp: rowRecord_def split: option.splits)

lemma rowRecord_Nil [simp]: "rowRecord [] t i = None"
  by (simp add: rowRecord_def)

lemma putRow_Cons:
  "putRow (r # rs) t rec =
     (if fst r = t \<and> r_id (snd r) = r_id rec then (t, rec) # rs else r # putRow rs t rec)"
  by (auto simp: putRow_def split: option.splits)

lemma putRow_Nil [simp]: "putRow [] t rec = [(t, rec)]"
  by (simp add: putRow_def)

lemma deleteRow_Cons:
  "deleteRow (r # rs) t i =
     (if fst r = t \<and> r_id (snd r) = i then rs else r # deleteRow rs t i)"
  by (auto simp: deleteRow_def split: option.splits)

lemma deleteRow_Nil [simp]: "deleteRow [] t i = []"
  by (simp add: deleteRow_def)

lemma rowRecord_putRow:
  "rowRecord (putRow rows t rec) t' i =
     (if t' = t \<and> i = r_id rec then Some rec else rowRecord rows t' i)"
  by (induction rows) (auto simp: rowRecord_Cons putRow_Cons)

lemma rowRecord_None: "(t, i) \<notin> row_key ` set rows \<Longrightarrow> rowRecord rows t i = None"
  by (induction rows) (auto simp: rowRecord_Cons)

lemma rowRecord_deleteRow:
  "distinct (map row_key rows) \<Longrightarrow>
     rowRecord (deleteRow rows t i) t' i' =
       (if t' = t \<and> i' = i then None else rowRecord rows t' i')"
proof (induction rows)
  case Nil
  then show ?case by simp
next
  case (Cons r rs)
  have "rowRecord rs t i = None" if "row_key r = (t, i)"
    using that Cons.prems by (intro rowRecord_None) auto
  with Cons show ?case by (auto simp: rowRecord_Cons deleteRow_Cons)
qed

lemma keys_putRow: "row_key ` set (putRow rows t rec) = insert (t, r_id rec) (row_key ` set rows)"
  by (induction rows) (auto simp: putRow_Cons)

lemma distinct_putRow: "distinct (map row_key rows) \<Longrightarrow> distinct (map row_key (putRow rows t rec))"
proof (induction rows)
  case Nil
  then show ?case by simp
next
  case (Cons r rs)
  have "row_key ` set (putRow rs t rec) = insert (t, r_id rec) (row_key ` set rs)"
    by (rule keys_putRow)
  with Cons show ?case by (auto simp: putRow_Cons)
qed

lemma set_deleteRow: "set (deleteRow rows t i) \<subseteq> set rows"
  by (induction rows) (auto simp: deleteRow_Cons)

lemma distinct_deleteRow: "distinct (map row_key rows) \<Longrightarrow> distinct (map row_key (deleteRow rows t i))"
proof (induction rows)
  case Nil
  then show ?case by simp
next
  case (Cons r rs)
  then show ?case
    using set_deleteRow [of rs t i] by (auto simp: deleteRow_Cons)
qed

interpretation rows: keyed_store row_key "\<lambda>(t, i) rows. map_option (Pair t) (rowRecord rows t i)"
  "\<lambda>r rows. putRow rows (fst r) (snd r)" "\<lambda>(t, i) rows. deleteRow rows t i"
  "\<lambda>rows. distinct (map row_key rows)"
proof unfold_locales
  fix k :: "string \<times> string" and s r
  show "(case k of (t, i) \<Rightarrow> \<lambda>rows. map_option (Pair t) (rowRecord rows t i)) s = Some r \<Longrightarrow>
      row_key r = k"
    by (cases k) (induction s, auto simp: rowRecord_Cons split: if_splits)
qed (auto simp: rowRecord_putRow rowRecord_deleteRow distinct_putRow distinct_deleteRow
  split: if_splits)

end
