(* ===== verification/Idb_Store.thy ===== *)
theory Idb_Store
  imports Write_Outcome Sync_Start Object_Store
begin

text \<open>
  The IndexedDB adapter (store.mjs): a database with one object store per synced table, the
  \<^verbatim>\<open>_queue\<close> store with its key generator and the \<^verbatim>\<open>_sync_meta\<close> store, the transactions
  every operation runs in, and the methods \<open>openStore\<close> and \<open>makeQueue\<close> return. The last
  section shows that they implement the abstract plane.
\<close>

section \<open>The database\<close>

text \<open>
  \<open>db_faults\<close> is the environment's plan: one entry for each coming transaction, true when
  the platform aborts it at commit (quota, an uncloneable value, a crash). A transaction
  beyond the plan is not aborted.
\<close>

record idb =
  db_open :: bool
  db_names :: "string list"
  db_rows :: "string \<Rightarrow> replica list"
  db_queue :: "queued_write list"
  db_seq :: nat
  db_meta :: "(string \<times> int) list"
  db_faults :: "bool list"

definition QUEUE_STORE :: string where "QUEUE_STORE = ''_queue''"
definition META_STORE :: string where "META_STORE = ''_sync_meta''"

abbreviation upd_rows :: "string \<Rightarrow> (replica list \<Rightarrow> replica list) \<Rightarrow> idb \<Rightarrow> idb" where
  "upd_rows t f db \<equiv> db\<lparr>db_rows := (db_rows db)(t := f (db_rows db t))\<rparr>"

abbreviation upd_queue :: "(queued_write list \<Rightarrow> queued_write list) \<Rightarrow> idb \<Rightarrow> idb" where
  "upd_queue f db \<equiv> db\<lparr>db_queue := f (db_queue db)\<rparr>"

section \<open>Transactions\<close>

text \<open>
  \<open>withTransaction\<close>: \<^verbatim>\<open>db.transaction\<close> throws on a closed database or an unknown store;
  an error in the body aborts; otherwise the result is returned once the commit is durable.
  An aborted transaction leaves nothing behind, the key generator included.
\<close>

definition commit :: "idb \<Rightarrow> 'a \<Rightarrow> idb \<Rightarrow> 'a res \<times> idb" where
  "commit before v after =
     (case db_faults before of
        [] \<Rightarrow> (Inr v, after)
      | fault # plan \<Rightarrow>
          if fault then (Inl (JsError ''AbortError'' ''IndexedDB transaction aborted''), before\<lparr>db_faults := plan\<rparr>)
          else (Inr v, after\<lparr>db_faults := plan\<rparr>))"

definition withTransaction :: "string list \<Rightarrow> (idb, 'a) op \<Rightarrow> (idb, 'a) op" where
  "withTransaction names operation db =
     (if \<not> db_open db
      then (Inl (JsError ''InvalidStateError'' ''The database connection is closing.''), db)
      else if \<not> set names \<subseteq> set (db_names db)
      then (Inl (JsError ''NotFoundError'' ''One of the specified object stores was not found.''), db)
      else case operation db of
             (Inl e, _) \<Rightarrow> (Inl e, db)
           | (Inr v, db') \<Rightarrow> commit db v db')"

definition withStore :: "string \<Rightarrow> (idb, 'a) op \<Rightarrow> (idb, 'a) op" where
  "withStore name operation = withTransaction [name] operation"

section \<open>The store object\<close>

definition get_tx :: "string \<Rightarrow> string \<Rightarrow> (idb, jsval) op" where
  "get_tx table i db =
     ((Inr (case os_get r_id i (db_rows db table) of Some rec \<Rightarrow> r_row rec | None \<Rightarrow> JNull), db))"

definition idb_get :: "string \<Rightarrow> string \<Rightarrow> (idb, jsval) op" where
  "idb_get table i = withStore table (get_tx table i)"

definition meta_tx :: "string \<Rightarrow> string \<Rightarrow> (idb, local_row option) op" where
  "meta_tx table i db =
     ((Inr (case os_get r_id i (db_rows db table) of
             Some rec \<Rightarrow> Some \<lparr>lr_version = r_version rec, lr_dirty = r_dirty rec\<rparr>
           | None \<Rightarrow> None), db))"

definition idb_meta :: "string \<Rightarrow> string \<Rightarrow> (idb, local_row option) op" where
  "idb_meta table i = withStore table (meta_tx table i)"

text \<open>\<open>replicaMeta\<close>: the record without its row.\<close>

record replica_meta =
  rm_version :: int
  rm_dirty :: bool
  rm_created_at :: "int option"
  rm_updated_at :: "int option"
  rm_synced_at :: "int option"

definition replica_meta_of :: "replica \<Rightarrow> replica_meta" where
  "replica_meta_of rec = \<lparr>rm_version = r_version rec, rm_dirty = r_dirty rec,
     rm_created_at = r_created_at rec, rm_updated_at = r_updated_at rec,
     rm_synced_at = r_synced_at rec\<rparr>"

definition idb_replicaMeta :: "string \<Rightarrow> string \<Rightarrow> (idb, replica_meta option) op" where
  "idb_replicaMeta table i = withStore table (\<lambda>db.
     (Inr (map_option replica_meta_of (os_get r_id i (db_rows db table))), db))"

definition put_tx :: "string \<Rightarrow> string \<Rightarrow> jsval \<Rightarrow> int \<Rightarrow> bool \<Rightarrow> int \<Rightarrow> (idb, unit) op" where
  "put_tx table i row version dirty now db =
     (let existing = os_get r_id i (db_rows db table)
     in (Inr (), upd_rows table
           (os_put r_id (replicaRecord existing i row version dirty (\<not> dirty) now)) db))"

definition idb_put :: "string \<Rightarrow> string \<Rightarrow> jsval \<Rightarrow> int \<Rightarrow> bool \<Rightarrow> int \<Rightarrow> (idb, unit) op" where
  "idb_put table i row version dirty now = withStore table (put_tx table i row version dirty now)"

definition setMeta_tx :: "string \<Rightarrow> string \<Rightarrow> int option \<Rightarrow> bool option \<Rightarrow> int \<Rightarrow> (idb, bool) op" where
  "setMeta_tx table i version dirty now db =
     (case os_get r_id i (db_rows db table) of
       None \<Rightarrow> (Inr False, db)
     | Some rec \<Rightarrow> (Inr True, upd_rows table
         (os_put r_id (touchReplicaRecord rec version dirty (dirty = Some False) now)) db))"

definition idb_setMeta :: "string \<Rightarrow> string \<Rightarrow> int option \<Rightarrow> bool option \<Rightarrow> int \<Rightarrow> (idb, bool) op" where
  "idb_setMeta table i version dirty now = withStore table (setMeta_tx table i version dirty now)"

definition del_tx :: "string \<Rightarrow> string \<Rightarrow> (idb, unit) op" where
  "del_tx table i db =
     ((Inr (), upd_rows table (os_delete r_id i) db))"

definition idb_del :: "string \<Rightarrow> string \<Rightarrow> (idb, unit) op" where
  "idb_del table i = withStore table (del_tx table i)"

definition idb_all :: "string \<Rightarrow> (idb, jsval list) op" where
  "idb_all table = withStore table (\<lambda>db. (Inr (map r_row (db_rows db table)), db))"

definition cursor_key :: "string \<Rightarrow> string" where
  "cursor_key scope = ''cursor:'' @ scope"

definition getCursor_tx :: "string \<Rightarrow> (idb, int) op" where
  "getCursor_tx scope db =
     ((Inr (case os_get fst (cursor_key scope) (db_meta db) of Some rec \<Rightarrow> snd rec | None \<Rightarrow> 0), db))"

definition idb_getCursor :: "string \<Rightarrow> (idb, int) op" where
  "idb_getCursor scope = withStore META_STORE (getCursor_tx scope)"

definition setCursor_tx :: "int \<Rightarrow> string \<Rightarrow> (idb, int) op" where
  "setCursor_tx cursor scope db =
     (let key = cursor_key scope; current = os_get fst key (db_meta db) in
      if (case current of Some rec \<Rightarrow> cursor < snd rec | None \<Rightarrow> False)
      then (Inl cursor_backwards, db)
      else (Inr cursor, db\<lparr>db_meta := os_put fst (key, cursor) (db_meta db)\<rparr>))"

definition idb_setCursor :: "int \<Rightarrow> string \<Rightarrow> (idb, int) op" where
  "idb_setCursor cursor scope =
     (if \<not> (\<bar>cursor\<bar> \<le> MAX_SAFE) \<or> cursor < 0 then raise cursor_invalid
      else withStore META_STORE (setCursor_tx cursor scope))"

section \<open>The queue object\<close>

text \<open>\<^verbatim>\<open>queued.add({ ...write, attempts: 0 })\<close> under the key generator's next number.\<close>

definition queue_add :: "sync_write \<Rightarrow> idb \<Rightarrow> nat \<times> idb" where
  "queue_add w db =
     (db_seq db, db\<lparr>db_queue := os_put qw_seq (queue_record w (db_seq db)) (db_queue db),
                    db_seq := db_seq db + 1\<rparr>)"

definition enqueue_tx :: "sync_write \<Rightarrow> (idb, nat) op" where
  "enqueue_tx w db =
     (let (s, db') = queue_add w db in (Inr s, db'))"

definition idb_enqueue :: "sync_write \<Rightarrow> (idb, nat) op" where
  "idb_enqueue w = withStore QUEUE_STORE (enqueue_tx w)"

definition enqueueOptimistic_tx :: "sync_write \<Rightarrow> jsval \<Rightarrow> int \<Rightarrow> (idb, nat) op" where
  "enqueueOptimistic_tx w row now db =
     (let existing = os_get r_id (qw_id w) (db_rows db (qw_table w));
         db1 = (case qw_op w of
                  Delete \<Rightarrow> upd_rows (qw_table w) (os_delete r_id (qw_id w)) db
                | Upsert \<Rightarrow> upd_rows (qw_table w)
                    (os_put r_id (replicaRecord existing (qw_id w) row (qw_base_version w) True False now)) db);
         (s, db2) = queue_add w db1
     in (Inr s, db2))"

definition idb_enqueueOptimistic :: "sync_write \<Rightarrow> jsval \<Rightarrow> int \<Rightarrow> (idb, nat) op" where
  "idb_enqueueOptimistic w row now = withTransaction [qw_table w, QUEUE_STORE] (enqueueOptimistic_tx w row now)"

definition list_tx :: "(idb, queued_write list) op" where
  "list_tx db =
     ((Inr (db_queue db), db))"

definition idb_list :: "(idb, queued_write list) op" where
  "idb_list = withStore QUEUE_STORE (list_tx)"

definition remove_tx :: "nat \<Rightarrow> (idb, unit) op" where
  "remove_tx s db =
     ((Inr (), upd_queue (os_delete qw_seq s) db))"

definition idb_remove :: "nat \<Rightarrow> (idb, unit) op" where
  "idb_remove s = withStore QUEUE_STORE (remove_tx s)"

text \<open>The loop that marks the older queued writes of a row, over a snapshot of the queue.\<close>

abbreviation put_older :: "string \<Rightarrow> string \<Rightarrow> nat \<Rightarrow> int \<Rightarrow> queued_write list \<Rightarrow> queued_write list \<Rightarrow> queued_write list" where
  "put_older table i s v writes \<equiv>
     put_where qw_seq (\<lambda>c. qw_seq c < s \<and> on_row table i c) (mark_superseded v) writes"

definition settleAck_tx :: "string \<Rightarrow> string \<Rightarrow> nat \<Rightarrow> int \<Rightarrow> int \<Rightarrow> (idb, settle_outcome) op" where
  "settleAck_tx table i s committed now db =
     (let write = os_get qw_seq s (db_queue db);
         rec = os_get r_id i (db_rows db table);
         writes = db_queue db in
     case write of
       None \<Rightarrow> (Inr Missing, db)
     | Some w \<Rightarrow>
       if qw_table w \<noteq> table \<or> qw_id w \<noteq> i then (Inl ack_identity_changed, db)
       else
         let hasOther = list_ex (\<lambda>c. qw_seq c \<noteq> s \<and> on_row table i c) writes;
             db1 = upd_queue (put_older table i s committed writes) db;
             (outcome, db2) =
               (case rec of
                  None \<Rightarrow> (Superseded, db1)
                | Some r \<Rightarrow>
                    let (r', out) = (if r_version r \<le> committed
                                     then (r\<lparr>r_version := committed\<rparr>, Adopt committed)
                                     else (r, Superseded))
                    in (out, upd_rows table
                          (os_put r_id (touchReplicaRecord r' None (Some hasOther) True now)) db1))
         in (Inr (Settled outcome), upd_queue (os_delete qw_seq s) db2))"

definition idb_settleAck :: "string \<Rightarrow> string \<Rightarrow> nat \<Rightarrow> int \<Rightarrow> int \<Rightarrow> (idb, settle_outcome) op" where
  "idb_settleAck table i s committed now = withTransaction [table, QUEUE_STORE] (settleAck_tx table i s committed now)"

definition adoptEcho_tx :: "change_event \<Rightarrow> nat \<Rightarrow> int \<Rightarrow> (idb, bool) op" where
  "adoptEcho_tx ev s now db =
     (let table = ev_table ev; i = ev_id ev;
         rec = os_get r_id i (db_rows db table);
         writes = db_queue db in
     case os_get qw_seq s (db_queue db) of
       None \<Rightarrow> (Inr False, db)
     | Some echo \<Rightarrow>
       if qw_table echo \<noteq> table \<or> qw_id echo \<noteq> i then (Inl echo_identity_changed, db)
       else
         let remaining = filter (\<lambda>c. qw_seq c \<noteq> s \<and> on_row table i c) writes;
             hasNewer = list_ex (\<lambda>c. s < qw_seq c) remaining;
             pending = (remaining \<noteq> []);
             touch = (\<lambda>r. upd_rows table
                 (os_put r_id (touchReplicaRecord r None (Some pending) True now)) db);
             db1 =
               (if superseded_at echo (ev_version ev)
                then (case rec of Some r \<Rightarrow> touch r | None \<Rightarrow> db)
                else if \<not> hasNewer
                then (if (case rec of None \<Rightarrow> True | Some r \<Rightarrow> r_version r \<le> ev_version ev)
                      then (case ev_op ev of
                              Delete \<Rightarrow> upd_rows table (os_delete r_id i) db
                            | Upsert \<Rightarrow> upd_rows table
                                (os_put r_id (replicaRecord rec i (ev_row ev) (ev_version ev) pending True now)) db)
                      else (case rec of Some r \<Rightarrow> touch r | None \<Rightarrow> db))
                else (case rec of
                        Some r \<Rightarrow> upd_rows table
                          (os_put r_id (touchReplicaRecord r (Some (max (r_version r) (ev_version ev)))
                             (Some True) True now)) db
                      | None \<Rightarrow> db));
             db2 = upd_queue (put_where qw_seq (\<lambda>c. qw_seq c < s) (mark_superseded (ev_version ev)) remaining) db1
         in (Inr True, upd_queue (os_delete qw_seq s) db2))"

definition idb_adoptEcho :: "change_event \<Rightarrow> nat \<Rightarrow> int \<Rightarrow> (idb, bool) op" where
  "idb_adoptEcho ev s now = withTransaction [ev_table ev, QUEUE_STORE] (adoptEcho_tx ev s now)"

definition resolveConflict_tx :: "change_event \<Rightarrow> nat list \<Rightarrow> int \<Rightarrow> (idb, unit) op" where
  "resolveConflict_tx ev seqs now db =
     (let table = ev_table ev; i = ev_id ev;
         rec = os_get r_id i (db_rows db table);
         writes = db_queue db;
         hasNewer = list_ex (\<lambda>w. qw_seq w \<notin> set seqs \<and> on_row table i w) writes;
         db1 =
           (if \<not> hasNewer
            then (case ev_op ev of
                    Delete \<Rightarrow> upd_rows table (os_delete r_id i) db
                  | Upsert \<Rightarrow> upd_rows table
                      (os_put r_id (replicaRecord rec i (ev_row ev) (ev_version ev) False True now)) db)
            else (case rec of
                    Some r \<Rightarrow> upd_rows table
                      (os_put r_id (touchReplicaRecord r (Some (max (r_version r) (ev_version ev)))
                         (Some True) True now)) db
                  | None \<Rightarrow> db))
     in (Inr (), upd_queue (fold (os_delete qw_seq) seqs) db1))"

definition idb_resolveConflict :: "change_event \<Rightarrow> nat list \<Rightarrow> int \<Rightarrow> (idb, unit) op" where
  "idb_resolveConflict ev seqs now = withTransaction [ev_table ev, QUEUE_STORE] (resolveConflict_tx ev seqs now)"

definition settlePessimistic_tx :: "string \<Rightarrow> string \<Rightarrow> nat \<Rightarrow> int \<Rightarrow> int \<Rightarrow> (idb, settle_outcome) op" where
  "settlePessimistic_tx table i s committed now db =
     (let rec = os_get r_id i (db_rows db table);
         writes = db_queue db in
     case os_get qw_seq s (db_queue db) of
       None \<Rightarrow> (Inr Missing, db)
     | Some w \<Rightarrow>
       if qw_table w \<noteq> table \<or> qw_id w \<noteq> i then (Inl ack_identity_changed, db)
       else
         let other = filter (\<lambda>c. qw_seq c \<noteq> s \<and> on_row table i c) writes;
             newer = (case rec of Some r \<Rightarrow> r_dirty r \<and> list_ex (\<lambda>c. s < qw_seq c) other | None \<Rightarrow> False);
             db1 = upd_queue (put_where qw_seq (\<lambda>c. qw_seq c < s) (mark_superseded committed) other) db;
             (outcome, db2) =
               (case (newer, rec) of
                  (True, Some r) \<Rightarrow>
                    (Superseded, upd_rows table
                       (os_put r_id (touchReplicaRecord r (Some (max (r_version r) committed))
                          (Some True) True now)) db1)
                | _ \<Rightarrow>
                  (case qw_op w of
                     Delete \<Rightarrow> (Adopt committed, upd_rows table (os_delete r_id i) db1)
                   | Upsert \<Rightarrow> (Adopt committed, upd_rows table
                       (os_put r_id (replicaRecord rec i (qw_payload w) committed (other \<noteq> []) True now)) db1)))
         in (Inr (Settled outcome), upd_queue (os_delete qw_seq s) db2))"

definition idb_settlePessimistic :: "string \<Rightarrow> string \<Rightarrow> nat \<Rightarrow> int \<Rightarrow> int \<Rightarrow> (idb, settle_outcome) op" where
  "idb_settlePessimistic table i s committed now = withTransaction [table, QUEUE_STORE] (settlePessimistic_tx table i s committed now)"

definition bumpAttempts_tx :: "nat \<Rightarrow> (idb, nat) op" where
  "bumpAttempts_tx s db =
     (case os_get qw_seq s (db_queue db) of
       None \<Rightarrow> (Inr 0, db)
     | Some rec \<Rightarrow>
         (Inr ((case qw_attempts rec of Some n \<Rightarrow> n | None \<Rightarrow> 0) + 1),
          upd_queue (os_put qw_seq (bump_record rec)) db))"

definition idb_bumpAttempts :: "nat \<Rightarrow> (idb, nat) op" where
  "idb_bumpAttempts s = withStore QUEUE_STORE (bumpAttempts_tx s)"

definition idb_api :: "idb store_api" where
  "idb_api =
     \<lparr>api_kind = ''indexeddb'', api_get = idb_get, api_meta = idb_meta, api_put = idb_put,
      api_del = idb_del, api_all = idb_all, api_get_cursor = idb_getCursor,
      api_set_cursor = idb_setCursor, api_enqueue = idb_enqueue,
      api_enqueue_optimistic = idb_enqueueOptimistic, api_list = idb_list,
      api_settle_ack = idb_settleAck, api_settle_pessimistic = idb_settlePessimistic,
      api_adopt_echo = idb_adoptEcho, api_resolve_conflict = idb_resolveConflict,
      api_bump_attempts = idb_bumpAttempts\<rparr>"


section \<open>Invariant and abstraction\<close>

definition idb_inv :: "idb \<Rightarrow> bool" where
  "idb_inv db \<longleftrightarrow>
     os_sorted qw_seq (db_queue db) \<and> (\<forall>w \<in> set (db_queue db). qw_seq w < db_seq db) \<and>
     (\<forall>t. os_sorted r_id (db_rows db t)) \<and> os_sorted fst (db_meta db)"

definition idb_plane :: "idb \<Rightarrow> plane" where
  "idb_plane db =
     \<lparr>p_rows = (\<lambda>t i. os_get r_id i (db_rows db t)), p_queue = db_queue db,
      p_next_seq = db_seq db,
      p_cursor = (\<lambda>scope. map_option snd (os_get fst (cursor_key scope) (db_meta db)))\<rparr>"

definition idb_ready :: "string list \<Rightarrow> idb \<Rightarrow> bool" where
  "idb_ready tables db \<longleftrightarrow>
     db_open db \<and> set (tables @ [QUEUE_STORE, META_STORE]) \<subseteq> set (db_names db) \<and> db_faults db = []"

lemma idb_plane_sel [simp]:
  "p_rows (idb_plane db) t i = os_get r_id i (db_rows db t)"
  "p_queue (idb_plane db) = db_queue db"
  "p_next_seq (idb_plane db) = db_seq db"
  "p_cursor (idb_plane db) sc = map_option snd (os_get fst (cursor_key sc) (db_meta db))"
  by (simp_all add: idb_plane_def)

lemma idb_plane_faults [simp]: "idb_plane (db\<lparr>db_faults := p\<rparr>) = idb_plane db"
  by (simp add: idb_plane_def)

lemma idb_inv_faults [simp]: "idb_inv (db\<lparr>db_faults := p\<rparr>) = idb_inv db"
  by (simp add: idb_inv_def)

lemma idb_inv_sorted:
  "idb_inv db \<Longrightarrow> os_sorted qw_seq (db_queue db)"
  "idb_inv db \<Longrightarrow> os_sorted r_id (db_rows db t)"
  "idb_inv db \<Longrightarrow> os_sorted fst (db_meta db)"
  by (auto simp: idb_inv_def)

lemma idb_plane_put:
  "idb_inv db \<Longrightarrow>
     idb_plane (upd_rows t (os_put r_id r) db) = set_row t (r_id r) (Some r) (idb_plane db)"
  by (auto simp: idb_plane_def set_row_def fun_eq_iff os.get_put idb_inv_sorted)

lemma idb_plane_del:
  "idb_inv db \<Longrightarrow>
     idb_plane (upd_rows t (os_delete r_id i) db) = set_row t i None (idb_plane db)"
  by (auto simp: idb_plane_def set_row_def fun_eq_iff os.get_del idb_inv_sorted)

lemma idb_plane_queue [simp]:
  "idb_plane (db\<lparr>db_queue := q\<rparr>) = (idb_plane db)\<lparr>p_queue := q\<rparr>"
  by (simp add: idb_plane_def)

lemma idb_inv_put: "idb_inv db \<Longrightarrow> idb_inv (upd_rows t (os_put r_id r) db)"
  by (auto simp: idb_inv_def os.invar_put)

lemma idb_inv_del: "idb_inv db \<Longrightarrow> idb_inv (upd_rows t (os_delete r_id i) db)"
  by (auto simp: idb_inv_def os.invar_del)

lemma idb_inv_map_queue:
  "idb_inv db \<Longrightarrow> (\<And>w. qw_seq (f w) = qw_seq w) \<Longrightarrow> idb_inv (db\<lparr>db_queue := map f (db_queue db)\<rparr>)"
  by (auto simp: idb_inv_def os_sorted_map_cong)

lemma idb_inv_filter_queue:
  "idb_inv db \<Longrightarrow> idb_inv (db\<lparr>db_queue := filter P (db_queue db)\<rparr>)"
  by (auto simp: idb_inv_def os_sorted_def sorted_map_filter)

text \<open>The marking loops rewrite the queue in place.\<close>

lemma put_older_mark:
  "idb_inv db \<Longrightarrow>
     put_older t i s v (db_queue db) (db_queue db) = mark_older t i s v (db_queue db)"
  by (simp add: put_where_map mark_older_def idb_inv_sorted)

lemma put_remaining_mark:
  assumes "idb_inv db"
  shows "put_where qw_seq (\<lambda>c. qw_seq c < s) (mark_superseded v)
      (filter (\<lambda>c. qw_seq c \<noteq> s \<and> on_row t i c) (db_queue db)) (db_queue db) =
    mark_older t i s v (db_queue db)"
  using put_where_map_aux [of qw_seq "mark_superseded v" "db_queue db"
      "filter (\<lambda>c. qw_seq c \<noteq> s \<and> on_row t i c) (db_queue db)" "\<lambda>x. x" "\<lambda>c. qw_seq c < s"]
    assms by (auto simp: mark_older_def idb_inv_sorted)

lemma delete_is_drop: "os_delete qw_seq s q = drop_seq s q"
  by (simp add: os_delete_def drop_seq_def)

lemma find_seq_os_get: "os_get qw_seq s q = find_seq s q"
  by (simp add: os_get_def find_seq_def)

lemma queue_add_plane:
  assumes "idb_inv db" and "queue_add w db = (s, db')"
  shows "idb_inv db' \<and> s = db_seq db \<and> idb_plane db' = push_write (\<lambda>x. x) w (idb_plane db) \<and>
    db_open db' = db_open db \<and> db_names db' = db_names db \<and> db_faults db' = db_faults db"
proof -
  have fresh: "os_put qw_seq (queue_record w (db_seq db)) (db_queue db) =
      db_queue db @ [queue_record w (db_seq db)]"
    using assms(1) by (intro os_put_append) (auto simp: idb_inv_def)
  show ?thesis
    using assms fresh
    by (auto simp: queue_add_def push_write_def idb_plane_def idb_inv_def os_sorted_def
        sorted_wrt_append less_Suc_eq)
qed

section \<open>Transaction bodies implement the abstract operations\<close>

definition tx_ok :: "(idb, 'a) op \<Rightarrow> (plane, 'a) op \<Rightarrow> bool" where
  "tx_ok body g \<longleftrightarrow>
     (\<forall>db. idb_inv db \<longrightarrow>
        (case body db of
           (Inl e, _) \<Rightarrow> g (idb_plane db) = (Inl e, idb_plane db)
         | (Inr v, db') \<Rightarrow> idb_inv db' \<and> db_open db' = db_open db \<and> db_names db' = db_names db \<and>
             db_faults db' = db_faults db \<and> g (idb_plane db) = (Inr v, idb_plane db')))"

lemma tx_okD:
  assumes "tx_ok body g" and "idb_inv db" and "body db = (q, db')"
  shows "case q of Inl e \<Rightarrow> g (idb_plane db) = (Inl e, idb_plane db)
    | Inr v \<Rightarrow> idb_inv db' \<and> db_open db' = db_open db \<and> db_names db' = db_names db \<and>
        db_faults db' = db_faults db \<and> g (idb_plane db) = (Inr v, idb_plane db')"
  using assms(1)[unfolded tx_ok_def, rule_format, OF assms(2)] unfolding assms(3) prod.case .

lemma withTransaction_cases:
  assumes "withTransaction names body db = (r, db')"
  obtains (refused) e where "r = Inl e" "db' = db"
    | (aborted) e plan where "r = Inl e" "db' = db\<lparr>db_faults := plan\<rparr>"
    | (committed) v d where "body db = (Inr v, d)" "r = Inr v" "db_faults db = []" "db' = d"
    | (planned) v d plan where "body db = (Inr v, d)" "r = Inr v" "db' = d\<lparr>db_faults := plan\<rparr>"
proof -
  obtain q d where b: "body db = (q, d)" by (cases "body db")
  show ?thesis
  proof (cases q)
    case (Inl e)
    then have "\<exists>e. r = Inl e" and "db' = db"
      using assms unfolding withTransaction_def b by (auto split: if_splits)
    then show ?thesis using refused by blast
  next
    case (Inr v)
    have tx: "(if \<not> db_open db
        then (Inl (JsError ''InvalidStateError'' ''The database connection is closing.''), db)
        else if \<not> set names \<subseteq> set (db_names db)
        then (Inl (JsError ''NotFoundError'' ''One of the specified object stores was not found.''), db)
        else commit db v d) = (r, db')"
      using assms unfolding withTransaction_def b Inr prod.case sum.case .
    show ?thesis
    proof (cases "\<exists>e. r = Inl e \<and> db' = db")
      case True
      then show ?thesis using refused by blast
    next
      case False
      then have "commit db v d = (r, db')"
        using tx by (metis prod.inject)
      with b Inr show ?thesis
        using aborted committed planned
        by (cases "db_faults db") (auto simp: commit_def split: if_splits)
    qed
  qed
qed

lemma tx_ok_implements:
  assumes "tx_ok body g"
  shows "implements idb_inv idb_plane (withTransaction names body) g"
proof (rule implementsI)
  fix db e db'
  assume "idb_inv db" and "withTransaction names body db = (Inl e, db')"
  then show "idb_inv db' \<and> idb_plane db' = idb_plane db"
    by (auto elim: withTransaction_cases)
next
  fix db v db'
  assume inv: "idb_inv db" and eq: "withTransaction names body db = (Inr v, db')"
  from eq show "idb_inv db' \<and> g (idb_plane db) = (Inr v, idb_plane db')"
    by (cases rule: withTransaction_cases) (use tx_okD [OF assms inv] in auto)
qed

lemma tx_ok_exact:
  assumes body: "tx_ok body g" and names: "set names \<subseteq> set (tables @ [QUEUE_STORE, META_STORE])"
  shows "implements_exactly idb_inv (idb_ready tables) idb_plane (withTransaction names body) g"
proof (rule implements_exactlyI)
  fix db r db'
  assume inv: "idb_inv db" and ready: "idb_ready tables db"
    and eq: "withTransaction names body db = (r, db')"
  have names_ok: "set names \<subseteq> set (db_names db)" and open_db: "db_open db" and plan: "db_faults db = []"
    using names ready by (auto simp: idb_ready_def)
  obtain q d where b: "body db = (q, d)" by (cases "body db")
  show "idb_inv db' \<and> idb_ready tables db' \<and> g (idb_plane db) = (r, idb_plane db')"
  proof (cases q)
    case (Inl e)
    then have "r = Inl e" and "db' = db"
      using eq open_db names_ok unfolding withTransaction_def b by simp_all
    then show ?thesis using tx_okD [OF body inv b] Inl inv ready by simp
  next
    case (Inr v)
    then have "r = Inr v" and "db' = d"
      using eq open_db plan names_ok unfolding withTransaction_def b commit_def by simp_all
    then show ?thesis using tx_okD [OF body inv b] Inr ready by (simp add: idb_ready_def)
  qed
qed

lemma get_row_id: "idb_inv db \<Longrightarrow> os_get r_id i (db_rows db t) = Some r \<Longrightarrow> r_id r = i"
  by (rule os.get_key) (auto simp: idb_inv_sorted)

lemmas idb_plane_ops = idb_plane_put idb_plane_del
lemmas idb_inv_ops = idb_inv_put idb_inv_del
lemmas idb_queue_ops = find_seq_os_get delete_is_drop put_older_mark put_remaining_mark fold_os_delete

lemma idb_inv_mark:
  "idb_inv db \<Longrightarrow> idb_inv (db\<lparr>db_queue := mark_older t i s v (db_queue db)\<rparr>)"
  unfolding mark_older_def by (rule idb_inv_map_queue) auto

lemma idb_inv_drop: "idb_inv db \<Longrightarrow> idb_inv (db\<lparr>db_queue := drop_seq s (db_queue db)\<rparr>)"
  unfolding drop_seq_def by (rule idb_inv_filter_queue)

lemma idb_inv_drop_mark:
  "idb_inv db \<Longrightarrow> idb_inv (db\<lparr>db_queue := drop_seq s (mark_older t i s' v (db_queue db))\<rparr>)"
  using idb_inv_drop [OF idb_inv_mark, of db] by simp

lemma list_ex_filter_other:
  "list_ex P (filter Q xs) = list_ex (\<lambda>x. Q x \<and> P x) xs"
  by (induction xs) auto

lemma list_ex_nonempty: "list_ex Q xs \<longleftrightarrow> filter Q xs \<noteq> []"
  by (induction xs) auto

lemma qw_attempts_bump [simp]:
  "qw_attempts (bump_record w) = Some ((case qw_attempts w of Some n \<Rightarrow> n | None \<Rightarrow> 0) + 1)"
  by (simp add: bump_record_def)

lemma get_tx_ok: "tx_ok (get_tx t i) (spec_get (\<lambda>x. x) t i)"
  by (simp add: tx_ok_def get_tx_def spec_get_def)

lemma meta_tx_ok: "tx_ok (meta_tx t i) (spec_meta t i)"
  by (simp add: tx_ok_def meta_tx_def spec_meta_def meta_of_def split: option.splits)

lemma put_tx_ok: "tx_ok (put_tx t i row v d now) (spec_put (\<lambda>x. x) t i row v d now)"
  by (simp add: tx_ok_def put_tx_def spec_put_def idb_plane_put idb_inv_put Let_def)

lemma setMeta_tx_ok: "tx_ok (setMeta_tx t i v d now) (spec_setMeta t i v d now)"
  by (auto simp: tx_ok_def setMeta_tx_def spec_setMeta_def idb_plane_put idb_inv_put get_row_id
      split: option.splits)

lemma del_tx_ok: "tx_ok (del_tx t i) (spec_del t i)"
  by (simp add: tx_ok_def del_tx_def spec_del_def idb_plane_del idb_inv_del)

lemma getCursor_tx_ok: "tx_ok (getCursor_tx sc) (spec_getCursor sc)"
  by (simp add: tx_ok_def getCursor_tx_def spec_getCursor_def split: option.splits)

lemma enqueue_tx_ok: "tx_ok (enqueue_tx w) (spec_enqueue (\<lambda>x. x) w)"
  by (auto simp: tx_ok_def enqueue_tx_def spec_enqueue_def dest: queue_add_plane split: prod.splits)

lemma list_tx_ok: "tx_ok list_tx spec_list"
  by (simp add: tx_ok_def list_tx_def spec_list_def)

lemma remove_tx_ok: "tx_ok (remove_tx s) (spec_remove s)"
  by (simp add: tx_ok_def remove_tx_def spec_remove_def delete_is_drop idb_inv_drop)

lemma put_bumped:
  assumes "os_sorted qw_seq q" and "find_seq s q = Some w"
  shows "os_put qw_seq (bump_record w) q = map (\<lambda>c. if qw_seq c = s then bump_record c else c) q"
proof -
  have w: "w \<in> set q" "qw_seq w = s"
    using assms(2) by (auto simp: find_seq_def dest: find_Some_mem)
  have same: "c = w" if "c \<in> set q" "qw_seq c = s" for c
    using that w assms(1) by (metis distinct_map inj_onD os_sorted_def sorted_map_key)
  have "os_put qw_seq (bump_record w) q =
      map (\<lambda>x. if qw_seq x = qw_seq (bump_record w) then bump_record w else x) q"
    by (rule os_put_present [OF assms(1)]) (use w in auto)
  also have "\<dots> = map (\<lambda>c. if qw_seq c = s then bump_record c else c) q"
  proof (rule map_cong [OF refl])
    fix x assume x: "x \<in> set q"
    show "(if qw_seq x = qw_seq (bump_record w) then bump_record w else x) =
        (if qw_seq x = s then bump_record x else x)"
      using same [OF x] w(2) by (cases "qw_seq x = s") auto
  qed
  finally show ?thesis .
qed

lemma bumpAttempts_tx_ok: "tx_ok (bumpAttempts_tx s) (spec_bumpAttempts s)"
  unfolding tx_ok_def
proof (intro allI impI)
  fix db
  assume inv: "idb_inv db"
  show "case bumpAttempts_tx s db of
      (Inl e, _) \<Rightarrow> spec_bumpAttempts s (idb_plane db) = (Inl e, idb_plane db)
    | (Inr v, db') \<Rightarrow> idb_inv db' \<and> db_open db' = db_open db \<and> db_names db' = db_names db \<and>
        db_faults db' = db_faults db \<and> spec_bumpAttempts s (idb_plane db) = (Inr v, idb_plane db')"
  proof (cases "find_seq s (db_queue db)")
    case None
    then show ?thesis
      using inv by (simp add: bumpAttempts_tx_def spec_bumpAttempts_def find_seq_os_get)
  next
    case (Some w)
    then show ?thesis
      using inv put_bumped [OF idb_inv_sorted(1) [OF inv] Some]
      by (simp add: bumpAttempts_tx_def spec_bumpAttempts_def find_seq_os_get idb_inv_map_queue)
  qed
qed

lemma setCursor_tx_ok:
  "tx_ok (setCursor_tx c sc)
     (\<lambda>P. if (case p_cursor P sc of Some c' \<Rightarrow> c < c' | None \<Rightarrow> False)
          then (Inl cursor_backwards, P) else (Inr c, P\<lparr>p_cursor := (p_cursor P)(sc \<mapsto> c)\<rparr>))"
  by (auto simp: tx_ok_def setCursor_tx_def Let_def idb_plane_def idb_inv_def os.get_put os.invar_put
      cursor_key_def fun_eq_iff split: option.splits)


text \<open>The operations that rewrite a row and the queue together.\<close>

lemma enqueueOptimistic_tx_ok:
  "tx_ok (enqueueOptimistic_tx w row now) (spec_enqueueOptimistic (\<lambda>x. x) w row now)"
  unfolding tx_ok_def
proof (intro allI impI)
  fix db
  assume inv: "idb_inv db"
  define db1 where "db1 = (case qw_op w of
      Delete \<Rightarrow> upd_rows (qw_table w) (os_delete r_id (qw_id w)) db
    | Upsert \<Rightarrow> upd_rows (qw_table w) (os_put r_id (replicaRecord
        (os_get r_id (qw_id w) (db_rows db (qw_table w))) (qw_id w) row (qw_base_version w) True False now)) db)"
  obtain s db2 where add: "queue_add w db1 = (s, db2)" by (cases "queue_add w db1")
  have inv1: "idb_inv db1"
    using inv by (cases "qw_op w") (simp_all add: db1_def idb_inv_ops)
  have same: "db_open db1 = db_open db" "db_names db1 = db_names db" "db_faults db1 = db_faults db"
      "db_seq db1 = db_seq db"
    by (cases "qw_op w"; simp add: db1_def)+
  have plane1: "idb_plane db1 = set_row (qw_table w) (qw_id w)
      (case qw_op w of Delete \<Rightarrow> None
       | Upsert \<Rightarrow> Some (replicaRecord (p_rows (idb_plane db) (qw_table w) (qw_id w)) (qw_id w) row
                          (qw_base_version w) True False now)) (idb_plane db)"
    using inv by (cases "qw_op w") (simp_all add: db1_def idb_plane_ops)
  have tx: "enqueueOptimistic_tx w row now db = (Inr s, db2)"
    using add by (simp add: enqueueOptimistic_tx_def Let_def db1_def)
  show "case enqueueOptimistic_tx w row now db of
      (Inl e, _) \<Rightarrow> spec_enqueueOptimistic (\<lambda>x. x) w row now (idb_plane db) = (Inl e, idb_plane db)
    | (Inr v, db') \<Rightarrow> idb_inv db' \<and> db_open db' = db_open db \<and> db_names db' = db_names db \<and>
        db_faults db' = db_faults db \<and>
        spec_enqueueOptimistic (\<lambda>x. x) w row now (idb_plane db) = (Inr v, idb_plane db')"
    using queue_add_plane [OF inv1 add] same
    by (simp add: tx spec_enqueueOptimistic_def plane1)
qed


definition row_effect ::
    "string \<Rightarrow> string \<Rightarrow> idb \<Rightarrow> (string \<Rightarrow> replica list) \<Rightarrow> replica option \<Rightarrow> bool" where
  "row_effect t i db rs r \<longleftrightarrow>
     (\<forall>t'. os_sorted r_id (rs t')) \<and>
     (\<forall>t' i'. os_get r_id i' (rs t') = (if t' = t \<and> i' = i then r else os_get r_id i' (db_rows db t')))"

lemma row_effect_put:
  "idb_inv db \<Longrightarrow> r_id r = i \<Longrightarrow>
     row_effect t i db ((db_rows db)(t := os_put r_id r (db_rows db t))) (Some r)"
  by (auto simp: row_effect_def os.get_put os.invar_put idb_inv_sorted)

lemma row_effect_delete:
  "idb_inv db \<Longrightarrow> row_effect t i db ((db_rows db)(t := os_delete r_id i (db_rows db t))) None"
  by (auto simp: row_effect_def os.get_del os.invar_del idb_inv_sorted)

lemma row_effect_none:
  "idb_inv db \<Longrightarrow> os_get r_id i (db_rows db t) = r \<Longrightarrow> row_effect t i db (db_rows db) r"
  by (auto simp: row_effect_def idb_inv_sorted)

lemmas row_effects = row_effect_put row_effect_delete row_effect_none

lemma tx_row_queue:
  assumes inv: "idb_inv db" and row: "row_effect t i db (db_rows db') r"
    and queue: "idb_inv (db\<lparr>db_queue := db_queue db'\<rparr>)"
    and same: "db_seq db' = db_seq db" "db_meta db' = db_meta db"
  shows "idb_inv db' \<and> idb_plane db' = (set_row t i r (idb_plane db))\<lparr>p_queue := db_queue db'\<rparr>"
proof
  show "idb_inv db'"
    using inv row queue same by (simp add: idb_inv_def row_effect_def)
  show "idb_plane db' = (set_row t i r (idb_plane db))\<lparr>p_queue := db_queue db'\<rparr>"
    using row same by (auto simp: idb_plane_def set_row_def row_effect_def fun_eq_iff)
qed

lemma tx_okI:
  assumes "\<And>db. idb_inv db \<Longrightarrow> case body db of
      (Inl e, _) \<Rightarrow> g (idb_plane db) = (Inl e, idb_plane db)
    | (Inr v, db') \<Rightarrow> idb_inv db' \<and> db_open db' = db_open db \<and> db_names db' = db_names db \<and>
        db_faults db' = db_faults db \<and> g (idb_plane db) = (Inr v, idb_plane db')"
  shows "tx_ok body g"
  using assms unfolding tx_ok_def by blast

text \<open>
  The three operations that settle a queued write share their shape: unknown sequence,
  identity changed, or one row replaced, the write retired and older ones marked.
\<close>

definition settles ::
    "(idb, 'a) op \<Rightarrow> (plane, 'a) op \<Rightarrow> string \<Rightarrow> string \<Rightarrow> nat \<Rightarrow> int \<Rightarrow> idb \<Rightarrow> bool" where
  "settles body g t i s v db \<longleftrightarrow>
     (\<exists>u db'. body db = (Inr u, db') \<and>
        row_effect t i db (db_rows db') (p_rows (snd (g (idb_plane db))) t i) \<and>
        db_queue db' = drop_seq s (mark_older t i s v (db_queue db)) \<and>
        db_seq db' = db_seq db \<and> db_meta db' = db_meta db \<and> db_open db' = db_open db \<and>
        db_names db' = db_names db \<and> db_faults db' = db_faults db \<and>
        g (idb_plane db) = (Inr u, (set_row t i (p_rows (snd (g (idb_plane db))) t i) (idb_plane db))
          \<lparr>p_queue := drop_seq s (mark_older t i s v (db_queue db))\<rparr>))"

lemma tx_ok_settles:
  assumes none: "\<And>db. find_seq s (db_queue db) = None \<Longrightarrow>
      body db = (Inr u0, db) \<and> g (idb_plane db) = (Inr u0, idb_plane db)"
    and other: "\<And>db w. find_seq s (db_queue db) = Some w \<Longrightarrow> \<not> on_row t i w \<Longrightarrow>
      fst (body db) = Inl e0 \<and> g (idb_plane db) = (Inl e0, idb_plane db)"
    and found: "\<And>db w. idb_inv db \<Longrightarrow> find_seq s (db_queue db) = Some w \<Longrightarrow> on_row t i w \<Longrightarrow>
      (\<And>r. os_get r_id i (db_rows db t) = Some r \<Longrightarrow> r_id r = i) \<Longrightarrow> settles body g t i s v db"
  shows "tx_ok body g"
proof (rule tx_okI)
  fix db
  assume inv: "idb_inv db"
  show "case body db of
      (Inl e, _) \<Rightarrow> g (idb_plane db) = (Inl e, idb_plane db)
    | (Inr v, db') \<Rightarrow> idb_inv db' \<and> db_open db' = db_open db \<and> db_names db' = db_names db \<and>
        db_faults db' = db_faults db \<and> g (idb_plane db) = (Inr v, idb_plane db')"
  proof (cases "find_seq s (db_queue db)")
    case None
    then show ?thesis using none [OF None] inv by simp
  next
    case (Some w)
    show ?thesis
    proof (cases "on_row t i w")
      case False
      then obtain d where "body db = (Inl e0, d)" "g (idb_plane db) = (Inl e0, idb_plane db)"
        using other [OF Some False] by (cases "body db") auto
      then show ?thesis by simp
    next
      case True
      have "settles body g t i s v db"
        by (rule found [OF inv Some True]) (rule get_row_id [OF inv])
      then obtain u d where b: "body db = (Inr u, d)"
        and row: "row_effect t i db (db_rows d) (p_rows (snd (g (idb_plane db))) t i)"
        and q: "db_queue d = drop_seq s (mark_older t i s v (db_queue db))"
        and same: "db_seq d = db_seq db" "db_meta d = db_meta db" "db_open d = db_open db"
          "db_names d = db_names db" "db_faults d = db_faults db"
        and g: "g (idb_plane db) = (Inr u, (set_row t i (p_rows (snd (g (idb_plane db))) t i) (idb_plane db))
          \<lparr>p_queue := drop_seq s (mark_older t i s v (db_queue db))\<rparr>)"
        unfolding settles_def by blast
      have "idb_inv (db\<lparr>db_queue := db_queue d\<rparr>)"
        using idb_inv_drop_mark [OF inv] q by simp
      from tx_row_queue [OF inv row this same(1,2)]
      have "idb_inv d" and "g (idb_plane db) = (Inr u, idb_plane d)"
        using g q by metis+
      then show ?thesis using same unfolding b by simp
    qed
  qed
qed

lemma settleAck_tx_ok: "tx_ok (settleAck_tx t i s v now) (spec_settleAck t i s v now)"
proof (rule tx_ok_settles [where s = s and t = t and i = i and v = v])
  fix db w
  assume inv: "idb_inv db" and w: "find_seq s (db_queue db) = Some w" "on_row t i w"
    and rid: "\<And>r. os_get r_id i (db_rows db t) = Some r \<Longrightarrow> r_id r = i"
  note defs = settles_def settleAck_tx_def spec_settleAck_def find_seq_os_get w
    w(2) [unfolded on_row_def] put_older_mark [OF inv] delete_is_drop other_writes_def
    list_ex_nonempty Let_def ack_row_def keep_row_def
  show "settles (settleAck_tx t i s v now) (spec_settleAck t i s v now) t i s v db"
    using inv rid by (cases "os_get r_id i (db_rows db t)") (auto simp: defs row_effects)
qed (auto simp: settleAck_tx_def spec_settleAck_def find_seq_os_get on_row_def Let_def)

lemma adoptEcho_tx_ok: "tx_ok (adoptEcho_tx ev s now) (spec_adoptEcho (\<lambda>x. x) ev s now)"
proof (rule tx_ok_settles [where s = s and t = "ev_table ev" and i = "ev_id ev" and v = "ev_version ev"])
  fix db w
  assume inv: "idb_inv db" and w: "find_seq s (db_queue db) = Some w" "on_row (ev_table ev) (ev_id ev) w"
    and rid: "\<And>r. os_get r_id (ev_id ev) (db_rows db (ev_table ev)) = Some r \<Longrightarrow> r_id r = ev_id ev"
  note defs = settles_def adoptEcho_tx_def spec_adoptEcho_def find_seq_os_get w
    w(2) [unfolded on_row_def] put_remaining_mark [OF inv] delete_is_drop other_writes_def
    Let_def echo_row_def server_row_def keep_row_def raise_row_def
  show "settles (adoptEcho_tx ev s now) (spec_adoptEcho (\<lambda>x. x) ev s now)
      (ev_table ev) (ev_id ev) s (ev_version ev) db"
    using inv rid
    by (cases "os_get r_id (ev_id ev) (db_rows db (ev_table ev))"; cases "ev_op ev")
      (auto simp: defs row_effects)
qed (auto simp: adoptEcho_tx_def spec_adoptEcho_def find_seq_os_get on_row_def Let_def)

lemma settlePessimistic_tx_ok:
  "tx_ok (settlePessimistic_tx t i s v now) (spec_settlePessimistic (\<lambda>x. x) t i s v now)"
proof (rule tx_ok_settles [where s = s and t = t and i = i and v = v])
  fix db w
  assume inv: "idb_inv db" and w: "find_seq s (db_queue db) = Some w" "on_row t i w"
    and rid: "\<And>r. os_get r_id i (db_rows db t) = Some r \<Longrightarrow> r_id r = i"
  note defs = settles_def settlePessimistic_tx_def spec_settlePessimistic_def find_seq_os_get w
    w(2) [unfolded on_row_def] put_remaining_mark [OF inv] delete_is_drop other_writes_def
    Let_def pessimistic_row_def keep_row_def raise_row_def
  show "settles (settlePessimistic_tx t i s v now) (spec_settlePessimistic (\<lambda>x. x) t i s v now) t i s v db"
    using inv rid
    by (cases "os_get r_id i (db_rows db t)"; cases "qw_op w") (auto simp: defs row_effects)
qed (auto simp: settlePessimistic_tx_def spec_settlePessimistic_def find_seq_os_get on_row_def Let_def)

lemma resolveConflict_tx_ok:
  "tx_ok (resolveConflict_tx ev seqs now) (spec_resolveConflict (\<lambda>x. x) ev seqs now)"
proof (rule tx_okI)
  fix db
  assume inv: "idb_inv db"
  let ?t = "ev_table ev" and ?i = "ev_id ev"
  have rid: "r_id r = ?i" if "os_get r_id ?i (db_rows db ?t) = Some r" for r
    using get_row_id [OF inv that] .
  obtain d where d: "resolveConflict_tx ev seqs now db = (Inr (), d)"
    by (cases "resolveConflict_tx ev seqs now db") (simp add: resolveConflict_tx_def Let_def)
  let ?newer = "list_ex (\<lambda>w. qw_seq w \<notin> set seqs \<and> on_row ?t ?i w) (db_queue db)"
  have q: "db_queue d = filter (\<lambda>w. qw_seq w \<notin> set seqs) (db_queue db)"
    and same: "db_seq d = db_seq db" "db_meta d = db_meta db" "db_open d = db_open db"
      "db_names d = db_names db" "db_faults d = db_faults db"
    using d by (auto simp: resolveConflict_tx_def Let_def fold_os_delete
        split: if_splits option.splits change_op.splits)
  have row: "row_effect ?t ?i db (db_rows d)
      (conflict_row (\<lambda>x. x) ev ?newer now (os_get r_id ?i (db_rows db ?t)))"
    using d inv rid
    by (auto simp: resolveConflict_tx_def Let_def conflict_row_def server_row_def raise_row_def row_effects
        split: if_splits option.splits change_op.splits)
  have "idb_inv (db\<lparr>db_queue := db_queue d\<rparr>)"
    unfolding q by (rule idb_inv_filter_queue [OF inv])
  from tx_row_queue [OF inv row this same(1,2)]
  show "case resolveConflict_tx ev seqs now db of
      (Inl e, _) \<Rightarrow> spec_resolveConflict (\<lambda>x. x) ev seqs now (idb_plane db) = (Inl e, idb_plane db)
    | (Inr v, db') \<Rightarrow> idb_inv db' \<and> db_open db' = db_open db \<and> db_names db' = db_names db \<and>
        db_faults db' = db_faults db \<and>
        spec_resolveConflict (\<lambda>x. x) ev seqs now (idb_plane db) = (Inr v, idb_plane db')"
    unfolding d prod.case sum.case
    using q same by (simp add: spec_resolveConflict_def Let_def)
qed

section \<open>The adapter meets the contract\<close>

lemma setCursor_guard:
  "\<not> \<bar>c\<bar> \<le> MAX_SAFE \<or> c < 0 \<Longrightarrow>
     idb_setCursor c sc = raise cursor_invalid \<and> spec_setCursor c sc = raise cursor_invalid"
  "\<not> (\<not> \<bar>c\<bar> \<le> MAX_SAFE \<or> c < 0) \<Longrightarrow>
     idb_setCursor c sc = withTransaction [META_STORE] (setCursor_tx c sc) \<and>
     spec_setCursor c sc = (\<lambda>P. if (case p_cursor P sc of Some c' \<Rightarrow> c < c' | None \<Rightarrow> False)
          then (Inl cursor_backwards, P) else (Inr c, P\<lparr>p_cursor := (p_cursor P)(sc \<mapsto> c)\<rparr>))"
  by (auto simp: idb_setCursor_def spec_setCursor_def withStore_def raise_def fun_eq_iff)

lemma idb_setCursor_implements: "implements idb_inv idb_plane (idb_setCursor c sc) (spec_setCursor c sc)"
proof (cases "\<not> \<bar>c\<bar> \<le> MAX_SAFE \<or> c < 0")
  case True
  then show ?thesis by (simp only: setCursor_guard(1) implements_raise)
next
  case False
  note g = setCursor_guard(2) [OF False, of sc]
  show ?thesis
    unfolding conjunct1 [OF g] conjunct2 [OF g] by (rule tx_ok_implements [OF setCursor_tx_ok])
qed

lemma idb_setCursor_exact:
  "implements_exactly idb_inv (idb_ready tables) idb_plane (idb_setCursor c sc) (spec_setCursor c sc)"
proof (cases "\<not> \<bar>c\<bar> \<le> MAX_SAFE \<or> c < 0")
  case True
  then show ?thesis by (simp only: setCursor_guard(1) implements_exactly_raise)
next
  case False
  note g = setCursor_guard(2) [OF False, of sc]
  show ?thesis
    unfolding conjunct1 [OF g] conjunct2 [OF g] by (rule tx_ok_exact [OF setCursor_tx_ok]) simp
qed

lemmas idb_op_defs =
  idb_get_def idb_meta_def idb_put_def idb_setMeta_def idb_del_def idb_getCursor_def
  idb_enqueue_def idb_enqueueOptimistic_def idb_list_def idb_remove_def idb_settleAck_def
  idb_adoptEcho_def idb_resolveConflict_def idb_settlePessimistic_def idb_bumpAttempts_def
  withStore_def

lemmas idb_tx_ok =
  get_tx_ok meta_tx_ok put_tx_ok setMeta_tx_ok del_tx_ok getCursor_tx_ok enqueue_tx_ok
  enqueueOptimistic_tx_ok list_tx_ok remove_tx_ok settleAck_tx_ok adoptEcho_tx_ok
  resolveConflict_tx_ok settlePessimistic_tx_ok bumpAttempts_tx_ok

interpretation idb: reliable_store idb_api "\<lambda>x. x" "\<lambda>x. x" idb_inv idb_plane
  "set tables" "idb_ready tables" for tables
proof unfold_locales
  show "idb_inv st' \<and> idb_plane st' = idb_plane st"
    if "idb_inv st" "api_all idb_api t st = (res, st')" for t st res st'
    using that unfolding idb_api_def idb_all_def withStore_def store_api.simps
    by (auto elim!: withTransaction_cases)
qed (simp_all add: idb_api_def idb_op_defs idb_setCursor_implements idb_setCursor_exact
    tx_ok_implements [OF idb_tx_ok(1)] tx_ok_exact [OF idb_tx_ok(1)] tx_ok_implements tx_ok_exact idb_tx_ok)


end
