(* ===== verification/Local_Storage.thy ===== *)
theory Local_Storage
  imports Idb_Store
begin

text \<open>
  The localStorage adapter (local-storage.mjs): the whole plane is one JSON document under
  one key, loaded before and written after every mutation by one \<^verbatim>\<open>setItem\<close>. The last
  section shows that it implements the same abstract plane as the IndexedDB adapter, up to
  the JSON round trip of the stored values.
\<close>

section \<open>What a JSON round trip makes of a value\<close>

text \<open>
  \<open>JUndef\<close> stands for a value \<^verbatim>\<open>JSON.stringify\<close> leaves out; inside an array it becomes
  \<open>null\<close>, and so do the numbers JSON cannot express.
\<close>

fun json_image :: "jsval \<Rightarrow> jsval"
  and json_elems :: "jsval list \<Rightarrow> jsval list"
  and json_props :: "props \<Rightarrow> props" where
  "json_image JUndef = JUndef"
| "json_image JNull = JNull"
| "json_image (JBool b) = JBool b"
| "json_image (JNum n) = (case n of Fin r \<Rightarrow> JNum (Fin r) | _ \<Rightarrow> JNull)"
| "json_image (JStr s) = JStr s"
| "json_image (JArr xs) = JArr (json_elems xs)"
| "json_image (JObj ps) = JObj (json_props ps)"
| "json_image (JOpaque c j) = json_image j"
| "json_elems [] = []"
| "json_elems (x # xs) =
     (let y = json_image x in (if y = JUndef then JNull else y) # json_elems xs)"
| "json_props [] = []"
| "json_props ((k, v) # ps) =
     (let w = json_image v in if w = JUndef then json_props ps else (k, w) # json_props ps)"

lemma json_image_idem:
  "json_image (json_image v) = json_image v"
  "json_elems (json_elems xs) = json_elems xs"
  "json_props (json_props ps) = json_props ps"
proof (induction v and xs and ps rule: json_image_json_elems_json_props.induct)
  case (4 n)
  then show ?case by (cases n) auto
qed (auto simp: Let_def)

section \<open>The document\<close>

record ls_doc =
  ld_format :: int
  ld_revision :: "nat option"
  ld_next_seq :: nat
  ld_rows :: "ls_row list"
  ld_queue :: "queued_write list"
  ld_cursors :: "(string \<times> int) list"

definition FORMAT_VERSION :: int where "FORMAT_VERSION = 1"

definition freshState :: ls_doc where
  "freshState = \<lparr>ld_format = FORMAT_VERSION, ld_revision = Some 0, ld_next_seq = 1,
     ld_rows = [], ld_queue = [], ld_cursors = []\<rparr>"

text \<open>
  What is stored under the key: nothing, text that is no JSON, JSON that is no document
  (not an object, or a list missing), or a document of some format.
\<close>

datatype stored_item = NoItem | Malformed | Foreign | Doc ls_doc

text \<open>\<open>ls_faults\<close> plans the coming \<^verbatim>\<open>setItem\<close> calls: true where the quota is exceeded.\<close>

record ls_state =
  ls_tables :: "string list"
  ls_item :: stored_item
  ls_faults :: "bool list"

abbreviation incompatible :: js_error where
  "incompatible \<equiv> Err ''localStorage sync state is incompatible''"

definition load :: "ls_state \<Rightarrow> ls_doc res" where
  "load s =
     (case ls_item s of
        NoItem \<Rightarrow> Inr freshState
      | Malformed \<Rightarrow> Inl (JsError ''SyntaxError'' ''Unexpected token'')
      | Foreign \<Rightarrow> Inl incompatible
      | Doc d \<Rightarrow> if ld_format d \<noteq> FORMAT_VERSION then Inl incompatible else Inr d)"

definition json_row :: "ls_row \<Rightarrow> ls_row" where
  "json_row r = (fst r, (snd r)\<lparr>r_row := json_image (r_row (snd r))\<rparr>)"

definition json_write :: "queued_write \<Rightarrow> queued_write" where
  "json_write w = w\<lparr>qw_payload := json_image (qw_payload w)\<rparr>"

text \<open>\<^verbatim>\<open>JSON.parse(JSON.stringify(state))\<close>.\<close>

definition json_doc :: "ls_doc \<Rightarrow> ls_doc" where
  "json_doc d = d\<lparr>ld_rows := map json_row (ld_rows d), ld_queue := map json_write (ld_queue d)\<rparr>"

definition update :: "(ls_doc \<Rightarrow> 'a res \<times> ls_doc) \<Rightarrow> (ls_state, 'a) op" where
  "update operation s =
     (case load s of
        Inl e \<Rightarrow> (Inl e, s)
      | Inr d \<Rightarrow>
        (case operation d of
           (Inl e, _) \<Rightarrow> (Inl e, s)
         | (Inr result, d') \<Rightarrow>
           let saved = json_doc (d'\<lparr>ld_revision :=
                  Some ((case ld_revision d' of Some n \<Rightarrow> n | None \<Rightarrow> 0) + 1)\<rparr>) in
           (case ls_faults s of
              [] \<Rightarrow> (Inr result, s\<lparr>ls_item := Doc saved\<rparr>)
            | fault # plan \<Rightarrow>
                if fault
                then (Inl (JsError ''QuotaExceededError'' ''setItem failed''), s\<lparr>ls_faults := plan\<rparr>)
                else (Inr result, s\<lparr>ls_item := Doc saved, ls_faults := plan\<rparr>))))"

definition assertTable :: "string \<Rightarrow> (ls_state, 'a) op \<Rightarrow> (ls_state, 'a) op" where
  "assertTable table operation s =
     (if table \<notin> set (ls_tables s)
      then (Inl (JsErrorAt ''Error'' ''sync table is not configured: '' (JStr table)), s)
      else operation s)"

text \<open>Reading without writing back.\<close>

definition peek :: "(ls_doc \<Rightarrow> 'a) \<Rightarrow> (ls_state, 'a) op" where
  "peek f s = (case load s of Inl e \<Rightarrow> (Inl e, s) | Inr d \<Rightarrow> (Inr (f d), s))"

text \<open>Changing the record found at \<open>rowIndex\<close> in place.\<close>

definition mutRow :: "ls_row list \<Rightarrow> string \<Rightarrow> string \<Rightarrow> (replica \<Rightarrow> replica) \<Rightarrow> ls_row list" where
  "mutRow rows t i f =
     (case rowIndex rows t i of None \<Rightarrow> rows | Some n \<Rightarrow> rows[n := (fst (rows ! n), f (snd (rows ! n)))])"

abbreviation upd_doc_rows :: "(ls_row list \<Rightarrow> ls_row list) \<Rightarrow> ls_doc \<Rightarrow> ls_doc" where
  "upd_doc_rows f d \<equiv> d\<lparr>ld_rows := f (ld_rows d)\<rparr>"

section \<open>The store object\<close>

definition ls_get :: "string \<Rightarrow> string \<Rightarrow> (ls_state, jsval) op" where
  "ls_get table i = assertTable table (peek (\<lambda>d.
     coalesce (case rowRecord (ld_rows d) table i of Some rec \<Rightarrow> r_row rec | None \<Rightarrow> JUndef) JNull))"

definition ls_meta :: "string \<Rightarrow> string \<Rightarrow> (ls_state, local_row option) op" where
  "ls_meta table i = assertTable table (peek (\<lambda>d.
     case rowRecord (ld_rows d) table i of
       Some rec \<Rightarrow> Some \<lparr>lr_version = r_version rec, lr_dirty = r_dirty rec\<rparr> | None \<Rightarrow> None))"

definition ls_replicaMeta :: "string \<Rightarrow> string \<Rightarrow> (ls_state, replica_meta option) op" where
  "ls_replicaMeta table i = assertTable table (peek (\<lambda>d.
     map_option replica_meta_of (rowRecord (ld_rows d) table i)))"

definition put_doc :: "string \<Rightarrow> string \<Rightarrow> jsval \<Rightarrow> int \<Rightarrow> bool \<Rightarrow> int \<Rightarrow> ls_doc \<Rightarrow> unit res \<times> ls_doc" where
  "put_doc table i row version dirty now d =
     (let existing = rowRecord (ld_rows d) table i
     in (Inr (), upd_doc_rows (\<lambda>rows. putRow rows table
           (replicaRecord existing i row version dirty (\<not> dirty) now)) d))"

definition ls_put :: "string \<Rightarrow> string \<Rightarrow> jsval \<Rightarrow> int \<Rightarrow> bool \<Rightarrow> int \<Rightarrow> (ls_state, unit) op" where
  "ls_put table i row version dirty now = assertTable table (update (put_doc table i row version dirty now))"

definition setMeta_doc :: "string \<Rightarrow> string \<Rightarrow> int option \<Rightarrow> bool option \<Rightarrow> int \<Rightarrow> ls_doc \<Rightarrow> bool res \<times> ls_doc" where
  "setMeta_doc table i version dirty now d =
     (case rowRecord (ld_rows d) table i of
       None \<Rightarrow> (Inr False, d)
     | Some rec \<Rightarrow> (Inr True, upd_doc_rows (\<lambda>rows. mutRow rows table i
         (\<lambda>r. touchReplicaRecord r version dirty (dirty = Some False) now)) d))"

definition ls_setMeta :: "string \<Rightarrow> string \<Rightarrow> int option \<Rightarrow> bool option \<Rightarrow> int \<Rightarrow> (ls_state, bool) op" where
  "ls_setMeta table i version dirty now = assertTable table (update (setMeta_doc table i version dirty now))"

definition del_doc :: "string \<Rightarrow> string \<Rightarrow> ls_doc \<Rightarrow> unit res \<times> ls_doc" where
  "del_doc table i d =
     ((Inr (), upd_doc_rows (\<lambda>rows. deleteRow rows table i) d))"

definition ls_del :: "string \<Rightarrow> string \<Rightarrow> (ls_state, unit) op" where
  "ls_del table i = assertTable table (update (del_doc table i))"

definition ls_all :: "string \<Rightarrow> (ls_state, jsval list) op" where
  "ls_all table = assertTable table (peek (\<lambda>d.
     map (\<lambda>r. r_row (snd r)) (filter (\<lambda>r. fst r = table) (ld_rows d))))"

definition ls_getCursor :: "string \<Rightarrow> (ls_state, int) op" where
  "ls_getCursor scope = peek (\<lambda>d.
     case find (\<lambda>c. fst c = scope) (ld_cursors d) of Some c \<Rightarrow> snd c | None \<Rightarrow> 0)"

definition setCursor_doc :: "int \<Rightarrow> string \<Rightarrow> ls_doc \<Rightarrow> int res \<times> ls_doc" where
  "setCursor_doc cursor scope d =
     (let current = find (\<lambda>c. fst c = scope) (ld_cursors d) in
      if (case current of Some c \<Rightarrow> cursor < snd c | None \<Rightarrow> False)
      then (Inl cursor_backwards, d)
      else (Inr cursor, d\<lparr>ld_cursors :=
              (case current of
                 Some c \<Rightarrow> map (\<lambda>c. if fst c = scope then (scope, cursor) else c) (ld_cursors d)
               | None \<Rightarrow> ld_cursors d @ [(scope, cursor)])\<rparr>))"

definition ls_setCursor :: "int \<Rightarrow> string \<Rightarrow> (ls_state, int) op" where
  "ls_setCursor cursor scope =
     (if \<not> (\<bar>cursor\<bar> \<le> MAX_SAFE) \<or> cursor < 0 then raise cursor_invalid
      else update (setCursor_doc cursor scope))"

section \<open>The queue object\<close>

text \<open>\<^verbatim>\<open>const seq = state.next_seq++; state.queue.push({ ...write, attempts: 0, seq })\<close>.\<close>

definition ls_push :: "sync_write \<Rightarrow> ls_doc \<Rightarrow> nat res \<times> ls_doc" where
  "ls_push w d =
     (Inr (ld_next_seq d),
      d\<lparr>ld_queue := ld_queue d @ [queue_record w (ld_next_seq d)], ld_next_seq := ld_next_seq d + 1\<rparr>)"

definition ls_enqueue :: "sync_write \<Rightarrow> (ls_state, nat) op" where
  "ls_enqueue w = update (ls_push w)"

definition enqueueOptimistic_doc :: "sync_write \<Rightarrow> jsval \<Rightarrow> int \<Rightarrow> ls_doc \<Rightarrow> nat res \<times> ls_doc" where
  "enqueueOptimistic_doc w row now d =
     (let existing = rowRecord (ld_rows d) (qw_table w) (qw_id w);
         d1 = (case qw_op w of
                 Delete \<Rightarrow> upd_doc_rows (\<lambda>rows. deleteRow rows (qw_table w) (qw_id w)) d
               | Upsert \<Rightarrow> upd_doc_rows (\<lambda>rows. putRow rows (qw_table w)
                   (replicaRecord existing (qw_id w) row (qw_base_version w) True False now)) d)
     in ls_push w d1)"

definition ls_enqueueOptimistic :: "sync_write \<Rightarrow> jsval \<Rightarrow> int \<Rightarrow> (ls_state, nat) op" where
  "ls_enqueueOptimistic w row now = assertTable (qw_table w) (update (enqueueOptimistic_doc w row now))"

definition ls_list :: "(ls_state, queued_write list) op" where
  "ls_list = peek ld_queue"

definition remove_doc :: "nat \<Rightarrow> ls_doc \<Rightarrow> unit res \<times> ls_doc" where
  "remove_doc s d =
     ((Inr (), d\<lparr>ld_queue := filter (\<lambda>w. qw_seq w \<noteq> s) (ld_queue d)\<rparr>))"

definition ls_remove :: "nat \<Rightarrow> (ls_state, unit) op" where
  "ls_remove s = update (remove_doc s)"

text \<open>Marking the older ones among the queue's elements that \<open>filter\<close> selected.\<close>

abbreviation mark_in_queue ::
    "(queued_write \<Rightarrow> bool) \<Rightarrow> nat \<Rightarrow> int \<Rightarrow> queued_write list \<Rightarrow> queued_write list" where
  "mark_in_queue sel s v q \<equiv>
     map (\<lambda>c. if sel c then (if qw_seq c < s then mark_superseded v c else c) else c) q"

definition settleAck_doc :: "string \<Rightarrow> string \<Rightarrow> nat \<Rightarrow> int \<Rightarrow> int \<Rightarrow> ls_doc \<Rightarrow> settle_outcome res \<times> ls_doc" where
  "settleAck_doc table i s committed now d =
     (case find (\<lambda>c. qw_seq c = s) (ld_queue d) of
       None \<Rightarrow> (Inr Missing, d)
     | Some w \<Rightarrow>
       if qw_table w \<noteq> table \<or> qw_id w \<noteq> i then (Inl ack_identity_changed, d)
       else
         let sel = (\<lambda>c. qw_seq c \<noteq> s \<and> on_row table i c);
             other = filter sel (ld_queue d);
             q = mark_in_queue sel s committed (ld_queue d);
             (outcome, rows) =
               (case rowRecord (ld_rows d) table i of
                  None \<Rightarrow> (Superseded, ld_rows d)
                | Some rec \<Rightarrow>
                    (if r_version rec \<le> committed
                     then (Adopt committed, mutRow (ld_rows d) table i
                             (\<lambda>r. touchReplicaRecord (r\<lparr>r_version := committed\<rparr>) None (Some (other \<noteq> [])) True now))
                     else (Superseded, mutRow (ld_rows d) table i
                             (\<lambda>r. touchReplicaRecord r None (Some (other \<noteq> [])) True now))))
         in (Inr (Settled outcome),
             d\<lparr>ld_rows := rows, ld_queue := filter (\<lambda>c. qw_seq c \<noteq> s) q\<rparr>))"

definition ls_settleAck :: "string \<Rightarrow> string \<Rightarrow> nat \<Rightarrow> int \<Rightarrow> int \<Rightarrow> (ls_state, settle_outcome) op" where
  "ls_settleAck table i s committed now = assertTable table (update (settleAck_doc table i s committed now))"

definition settlePessimistic_doc :: "string \<Rightarrow> string \<Rightarrow> nat \<Rightarrow> int \<Rightarrow> int \<Rightarrow> ls_doc \<Rightarrow> settle_outcome res \<times> ls_doc" where
  "settlePessimistic_doc table i s committed now d =
     (case find (\<lambda>c. qw_seq c = s) (ld_queue d) of
       None \<Rightarrow> (Inr Missing, d)
     | Some w \<Rightarrow>
       if qw_table w \<noteq> table \<or> qw_id w \<noteq> i then (Inl ack_identity_changed, d)
       else
         let sel = (\<lambda>c. qw_seq c \<noteq> s \<and> on_row table i c);
             other = filter sel (ld_queue d);
             q = mark_in_queue sel s committed (ld_queue d);
             existing = rowRecord (ld_rows d) table i;
             preserveNewer = ((case existing of Some r \<Rightarrow> r_dirty r | None \<Rightarrow> False)
                              \<and> list_ex (\<lambda>c. s < qw_seq c) other);
             (outcome, rows) =
               (if preserveNewer
                then (Superseded, mutRow (ld_rows d) table i
                        (\<lambda>r. touchReplicaRecord r (Some (max (r_version r) committed)) (Some True) True now))
                else case qw_op w of
                       Delete \<Rightarrow> (Adopt committed, deleteRow (ld_rows d) table i)
                     | Upsert \<Rightarrow> (Adopt committed, putRow (ld_rows d) table
                         (replicaRecord existing i (qw_payload w) committed (other \<noteq> []) True now)))
         in (Inr (Settled outcome),
             d\<lparr>ld_rows := rows, ld_queue := filter (\<lambda>c. qw_seq c \<noteq> s) q\<rparr>))"

definition ls_settlePessimistic :: "string \<Rightarrow> string \<Rightarrow> nat \<Rightarrow> int \<Rightarrow> int \<Rightarrow> (ls_state, settle_outcome) op" where
  "ls_settlePessimistic table i s committed now = assertTable table (update (settlePessimistic_doc table i s committed now))"

definition adoptEcho_doc :: "change_event \<Rightarrow> nat \<Rightarrow> int \<Rightarrow> ls_doc \<Rightarrow> bool res \<times> ls_doc" where
  "adoptEcho_doc ev s now d =
     (let table = ev_table ev; i = ev_id ev in
     case find (\<lambda>c. qw_seq c = s) (ld_queue d) of
       None \<Rightarrow> (Inr False, d)
     | Some echo \<Rightarrow>
       if qw_table echo \<noteq> table \<or> qw_id echo \<noteq> i then (Inl echo_identity_changed, d)
       else
         let sel = (\<lambda>c. qw_seq c \<noteq> s \<and> on_row table i c);
             remaining = filter sel (ld_queue d);
             newer = list_ex (\<lambda>c. s < qw_seq c) remaining;
             existing = rowRecord (ld_rows d) table i;
             touched = mutRow (ld_rows d) table i
               (\<lambda>r. touchReplicaRecord r None (Some (remaining \<noteq> [])) True now);
             rows =
               (if superseded_at echo (ev_version ev)
                then (case existing of Some _ \<Rightarrow> touched | None \<Rightarrow> ld_rows d)
                else if \<not> newer
                then (if (case existing of None \<Rightarrow> True | Some r \<Rightarrow> r_version r \<le> ev_version ev)
                      then (case ev_op ev of
                              Delete \<Rightarrow> deleteRow (ld_rows d) table i
                            | Upsert \<Rightarrow> putRow (ld_rows d) table
                                (replicaRecord existing i (ev_row ev) (ev_version ev) (remaining \<noteq> []) True now))
                      else touched)
                else (case existing of
                        Some _ \<Rightarrow> mutRow (ld_rows d) table i
                          (\<lambda>r. touchReplicaRecord r (Some (max (r_version r) (ev_version ev))) (Some True) True now)
                      | None \<Rightarrow> ld_rows d))
         in (Inr True, d\<lparr>ld_rows := rows,
               ld_queue := filter (\<lambda>c. qw_seq c \<noteq> s) (mark_in_queue sel s (ev_version ev) (ld_queue d))\<rparr>))"

definition ls_adoptEcho :: "change_event \<Rightarrow> nat \<Rightarrow> int \<Rightarrow> (ls_state, bool) op" where
  "ls_adoptEcho ev s now = assertTable (ev_table ev) (update (adoptEcho_doc ev s now))"

definition resolveConflict_doc :: "change_event \<Rightarrow> nat list \<Rightarrow> int \<Rightarrow> ls_doc \<Rightarrow> unit res \<times> ls_doc" where
  "resolveConflict_doc ev seqs now d =
     (let table = ev_table ev; i = ev_id ev;
         newer = list_ex (\<lambda>w. qw_seq w \<notin> set seqs \<and> on_row table i w) (ld_queue d);
         existing = rowRecord (ld_rows d) table i;
         rows =
           (if \<not> newer
            then (case ev_op ev of
                    Delete \<Rightarrow> deleteRow (ld_rows d) table i
                  | Upsert \<Rightarrow> putRow (ld_rows d) table
                      (replicaRecord existing i (ev_row ev) (ev_version ev) False True now))
            else (case existing of
                    Some _ \<Rightarrow> mutRow (ld_rows d) table i
                      (\<lambda>r. touchReplicaRecord r (Some (max (r_version r) (ev_version ev))) (Some True) True now)
                  | None \<Rightarrow> ld_rows d))
     in (Inr (), d\<lparr>ld_rows := rows, ld_queue := filter (\<lambda>w. qw_seq w \<notin> set seqs) (ld_queue d)\<rparr>))"

definition ls_resolveConflict :: "change_event \<Rightarrow> nat list \<Rightarrow> int \<Rightarrow> (ls_state, unit) op" where
  "ls_resolveConflict ev seqs now = assertTable (ev_table ev) (update (resolveConflict_doc ev seqs now))"

definition bumpAttempts_doc :: "nat \<Rightarrow> ls_doc \<Rightarrow> nat res \<times> ls_doc" where
  "bumpAttempts_doc s d =
     (case find (\<lambda>c. qw_seq c = s) (ld_queue d) of
       None \<Rightarrow> (Inr 0, d)
     | Some w \<Rightarrow>
         (Inr ((case qw_attempts w of Some n \<Rightarrow> n | None \<Rightarrow> 0) + 1),
          d\<lparr>ld_queue := map (\<lambda>c. if qw_seq c = s then bump_record c else c) (ld_queue d)\<rparr>))"

definition ls_bumpAttempts :: "nat \<Rightarrow> (ls_state, nat) op" where
  "ls_bumpAttempts s = update (bumpAttempts_doc s)"

definition ls_api :: "ls_state store_api" where
  "ls_api =
     \<lparr>api_kind = ''local_storage'', api_get = ls_get, api_meta = ls_meta, api_put = ls_put,
      api_del = ls_del, api_all = ls_all, api_get_cursor = ls_getCursor,
      api_set_cursor = ls_setCursor, api_enqueue = ls_enqueue,
      api_enqueue_optimistic = ls_enqueueOptimistic, api_list = ls_list,
      api_settle_ack = ls_settleAck, api_settle_pessimistic = ls_settlePessimistic,
      api_adopt_echo = ls_adoptEcho, api_resolve_conflict = ls_resolveConflict,
      api_bump_attempts = ls_bumpAttempts\<rparr>"

section \<open>Invariant and abstraction\<close>

definition doc_inv :: "ls_doc \<Rightarrow> bool" where
  "doc_inv d \<longleftrightarrow> distinct (map row_key (ld_rows d)) \<and> json_doc d = d"

definition doc_plane :: "ls_doc \<Rightarrow> plane" where
  "doc_plane d =
     \<lparr>p_rows = rowRecord (ld_rows d), p_queue = ld_queue d, p_next_seq = ld_next_seq d,
      p_cursor = (\<lambda>scope. map_option snd (find (\<lambda>c. fst c = scope) (ld_cursors d)))\<rparr>"

definition ls_inv :: "ls_state \<Rightarrow> bool" where
  "ls_inv s \<longleftrightarrow> (case load s of Inr d \<Rightarrow> doc_inv d | Inl _ \<Rightarrow> True)"

text \<open>A document that cannot be loaded holds nothing the client can reach.\<close>

definition ls_plane :: "ls_state \<Rightarrow> plane" where
  "ls_plane s = (case load s of Inr d \<Rightarrow> doc_plane d | Inl _ \<Rightarrow> doc_plane freshState)"

definition ls_ready :: "string list \<Rightarrow> ls_state \<Rightarrow> bool" where
  "ls_ready tables s \<longleftrightarrow> set tables \<subseteq> set (ls_tables s) \<and> (\<exists>d. load s = Inr d) \<and> ls_faults s = []"

definition view_null :: "jsval \<Rightarrow> jsval" where
  "view_null v = coalesce v JNull"

lemma doc_plane_sel [simp]:
  "p_rows (doc_plane d) t i = rowRecord (ld_rows d) t i"
  "p_queue (doc_plane d) = ld_queue d"
  "p_next_seq (doc_plane d) = ld_next_seq d"
  "p_cursor (doc_plane d) sc = map_option snd (find (\<lambda>c. fst c = sc) (ld_cursors d))"
  by (simp_all add: doc_plane_def)

lemma doc_plane_revision [simp]:
  "doc_plane (d\<lparr>ld_revision := n\<rparr>) = doc_plane d"
  "json_doc (d\<lparr>ld_revision := n\<rparr>) = (json_doc d)\<lparr>ld_revision := n\<rparr>"
  by (simp_all add: doc_plane_def json_doc_def)

lemma row_key_json [simp]: "row_key (json_row r) = row_key r"
  by (simp add: json_row_def)

lemma json_row_idem [simp]: "json_row (json_row r) = json_row r"
  by (simp add: json_row_def json_image_idem)

lemma json_write_idem [simp]: "json_write (json_write w) = json_write w"
  by (simp add: json_write_def json_image_idem)

lemma json_doc_idem [simp]: "json_doc (json_doc d) = json_doc d"
  by (simp add: json_doc_def)

lemma doc_inv_json: "distinct (map row_key (ld_rows d)) \<Longrightarrow> doc_inv (json_doc d)"
proof -
  have "map row_key (ld_rows (json_doc d)) = map row_key (ld_rows d)"
    by (simp add: json_doc_def)
  then show "distinct (map row_key (ld_rows d)) \<Longrightarrow> doc_inv (json_doc d)"
    unfolding doc_inv_def by (simp only: json_doc_idem)
qed

lemma doc_inv_revision [simp]: "doc_inv (d\<lparr>ld_revision := n\<rparr>) = doc_inv d"
proof -
  have "json_doc (d\<lparr>ld_revision := n\<rparr>) = d\<lparr>ld_revision := n\<rparr> \<longleftrightarrow> json_doc d = d"
    by (cases d) (simp add: json_doc_def)
  then show ?thesis by (simp add: doc_inv_def)
qed

lemma rowRecord_json:
  "rowRecord (map json_row rows) t i =
     map_option (\<lambda>r. r\<lparr>r_row := json_image (r_row r)\<rparr>) (rowRecord rows t i)"
  by (induction rows) (auto simp: rowRecord_Cons json_row_def)

lemma doc_inv_row:
  assumes "doc_inv d" and "rowRecord (ld_rows d) t i = Some r"
  shows "r_id r = i \<and> json_image (r_row r) = r_row r"
proof
  have "map json_row (ld_rows d) = ld_rows d"
    using assms(1) by (metis doc_inv_def json_doc_def ls_doc.select_convs(4) ls_doc.surjective ls_doc.update_convs(4,5))
  then have "rowRecord (map json_row (ld_rows d)) t i = Some r"
    using assms(2) by simp
  then have "r\<lparr>r_row := json_image (r_row r)\<rparr> = r"
    using assms(2) by (simp add: rowRecord_json)
  then show "json_image (r_row r) = r_row r"
    by (metis replica.select_convs(2) replica.surjective replica.update_convs(2))
  show "r_id r = i"
    using rows.get_key [of "ld_rows d" "(t, i)" "(t, r)"] assms by (simp add: doc_inv_def)
qed

lemma doc_inv_queue:
  assumes "doc_inv d" shows "map json_write (ld_queue d) = ld_queue d"
  using assms by (metis doc_inv_def json_doc_def ls_doc.select_convs(5) ls_doc.surjective ls_doc.update_convs(4,5))

lemma rowRecord_mutRow:
  "(\<And>r. r_id (f r) = r_id r) \<Longrightarrow>
     rowRecord (mutRow rows t i f) t' i' =
       (if t' = t \<and> i' = i then map_option f (rowRecord rows t i) else rowRecord rows t' i')"
proof (induction rows)
  case Nil
  then show ?case by (simp add: mutRow_def)
next
  case (Cons r rs)
  have "mutRow (r # rs) t i f =
      (if fst r = t \<and> r_id (snd r) = i then (fst r, f (snd r)) # rs else r # mutRow rs t i f)"
    by (auto simp: mutRow_def split: option.splits)
  with Cons show ?case by (auto simp: rowRecord_Cons)
qed

lemma keys_mutRow: "(\<And>r. r_id (f r) = r_id r) \<Longrightarrow> map row_key (mutRow rows t i f) = map row_key rows"
proof (induction rows)
  case Nil
  then show ?case by (simp add: mutRow_def)
next
  case (Cons r rs)
  have "mutRow (r # rs) t i f =
      (if fst r = t \<and> r_id (snd r) = i then (fst r, f (snd r)) # rs else r # mutRow rs t i f)"
    by (auto simp: mutRow_def split: option.splits)
  with Cons show ?case by auto
qed

section \<open>Document updates implement the abstract operations\<close>

definition doc_ok :: "(ls_doc \<Rightarrow> 'a res \<times> ls_doc) \<Rightarrow> (plane, 'a) op \<Rightarrow> bool" where
  "doc_ok f g \<longleftrightarrow>
     (\<forall>d. doc_inv d \<longrightarrow>
        (case f d of
           (Inl e, _) \<Rightarrow> g (doc_plane d) = (Inl e, doc_plane d)
         | (Inr v, d') \<Rightarrow> distinct (map row_key (ld_rows d')) \<and> ld_format d' = ld_format d \<and>
             g (doc_plane d) = (Inr v, doc_plane (json_doc d'))))"

lemma doc_okD:
  assumes "doc_ok f g" and "doc_inv d" and "f d = (q, d')"
  shows "case q of Inl e \<Rightarrow> g (doc_plane d) = (Inl e, doc_plane d)
    | Inr v \<Rightarrow> distinct (map row_key (ld_rows d')) \<and> ld_format d' = ld_format d \<and>
        g (doc_plane d) = (Inr v, doc_plane (json_doc d'))"
  using assms(1) [unfolded doc_ok_def, rule_format, OF assms(2)] unfolding assms(3) prod.case .

lemma freshState_inv: "doc_inv freshState"
  by (simp add: doc_inv_def freshState_def json_doc_def)

lemma load_format: "load s = Inr d \<Longrightarrow> ld_format d = FORMAT_VERSION"
  by (auto simp: load_def freshState_def split: stored_item.splits if_splits)

text \<open>One \<^term>\<open>update\<close>: refused, or committed unless the quota is exceeded.\<close>

lemma update_cases:
  assumes inv: "ls_inv s" and ok: "doc_ok f g" and eq: "update f s = (r, s')"
  obtains (unloadable) e where "load s = Inl e" "r = Inl e" "s' = s"
    | (thrown) e where "r = Inl e" "s' = s" "g (ls_plane s) = (Inl e, ls_plane s)"
    | (quota) e plan where "ls_faults s \<noteq> []" "r = Inl e" "s' = s\<lparr>ls_faults := plan\<rparr>"
    | (saved) v where "r = Inr v" "ls_inv s'" "g (ls_plane s) = (Inr v, ls_plane s')"
        "ls_tables s' = ls_tables s" "\<exists>d. load s' = Inr d" "ls_faults s = [] \<Longrightarrow> ls_faults s' = []"
proof (cases "load s")
  case (Inl e)
  have "update f s = (Inl e, s)"
    unfolding update_def Inl by simp
  then have "r = Inl e" "s' = s"
    using eq by simp_all
  with Inl show ?thesis by (rule unloadable)
next
  case (Inr d)
  have d: "doc_inv d" and pl: "ls_plane s = doc_plane d"
    using inv Inr by (simp_all add: ls_inv_def ls_plane_def)
  obtain q d' where fd: "f d = (q, d')" by (cases "f d")
  note res = doc_okD [OF ok d fd]
  show ?thesis
  proof (cases q)
    case q: (Inl e)
    have "update f s = (Inl e, s)"
      unfolding update_def Inr sum.case fd q prod.case by simp
    then have "r = Inl e" "s' = s"
      using eq by simp_all
    moreover have "g (ls_plane s) = (Inl e, ls_plane s)"
      using res unfolding q pl by simp
    ultimately show ?thesis by (rule thrown)
  next
    case q: (Inr v)
    define saved' where "saved' = json_doc (d'\<lparr>ld_revision :=
        Some ((case ld_revision d' of Some n \<Rightarrow> n | None \<Rightarrow> 0) + 1)\<rparr>)"
    have fmt: "ld_format saved' = FORMAT_VERSION"
      using res q load_format [OF Inr] by (simp add: saved'_def json_doc_def)
    have dinv: "doc_inv saved'" and dpl: "doc_plane saved' = doc_plane (json_doc d')"
      using res q doc_inv_json [of d'] by (simp_all add: saved'_def)
    have ld: "load (s\<lparr>ls_item := Doc saved'\<rparr>) = Inr saved'"
      and ld': "load (s\<lparr>ls_item := Doc saved', ls_faults := p\<rparr>) = Inr saved'" for p
      using fmt by (simp_all add: load_def)
    have upd: "update f s = (case ls_faults s of
        [] \<Rightarrow> (Inr v, s\<lparr>ls_item := Doc saved'\<rparr>)
      | fault # plan \<Rightarrow>
          if fault then (Inl (JsError ''QuotaExceededError'' ''setItem failed''), s\<lparr>ls_faults := plan\<rparr>)
          else (Inr v, s\<lparr>ls_item := Doc saved', ls_faults := plan\<rparr>))"
      unfolding update_def Inr sum.case fd q prod.case saved'_def Let_def by (rule refl)
    have gs: "g (ls_plane s) = (Inr v, doc_plane saved')"
      using res q pl dpl by simp
    show ?thesis
    proof (cases "ls_faults s")
      case Nil
      then have "r = Inr v" "s' = s\<lparr>ls_item := Doc saved'\<rparr>"
        using eq upd by simp_all
      then show ?thesis
        using saved gs dinv ld Nil by (simp add: ls_inv_def ls_plane_def)
    next
      case (Cons fault plan)
      show ?thesis
      proof (cases fault)
        case True
        then have "r = Inl (JsError ''QuotaExceededError'' ''setItem failed'')"
            "s' = s\<lparr>ls_faults := plan\<rparr>"
          using eq upd Cons by auto
        moreover have "ls_faults s \<noteq> []" using Cons by simp
        ultimately show ?thesis by (intro quota)
      next
        case False
        then have "r = Inr v" "s' = s\<lparr>ls_item := Doc saved', ls_faults := plan\<rparr>"
          using eq upd Cons by simp_all
        then show ?thesis
          using saved gs dinv ld' Cons by (simp add: ls_inv_def ls_plane_def)
      qed
    qed
  qed
qed


lemma doc_ok_implements: "doc_ok f g \<Longrightarrow> implements ls_inv ls_plane (update f) g"
proof (rule implementsI)
  fix s e s'
  assume ok: "doc_ok f g" and inv: "ls_inv s" and eq: "update f s = (Inl e, s')"
  from inv ok eq show "ls_inv s' \<and> ls_plane s' = ls_plane s"
    by (cases rule: update_cases) (use inv in \<open>auto simp: ls_inv_def ls_plane_def load_def\<close>)
next
  fix s v s'
  assume ok: "doc_ok f g" and inv: "ls_inv s" and eq: "update f s = (Inr v, s')"
  from inv ok eq show "ls_inv s' \<and> g (ls_plane s) = (Inr v, ls_plane s')"
    by (cases rule: update_cases) auto
qed

lemma doc_ok_exact:
  assumes ok: "doc_ok f g"
  shows "implements_exactly ls_inv (ls_ready tables) ls_plane (update f) g"
proof (rule implements_exactlyI)
  fix s r s'
  assume inv: "ls_inv s" and ready: "ls_ready tables s" and eq: "update f s = (r, s')"
  from inv ok eq show "ls_inv s' \<and> ls_ready tables s' \<and> g (ls_plane s) = (r, ls_plane s')"
    by (cases rule: update_cases) (use inv ready in \<open>auto simp: ls_ready_def\<close>)
qed

lemma peek_implements:
  assumes "\<And>d. g (doc_plane d) = (Inr (f d), doc_plane d)"
  shows "implements ls_inv ls_plane (peek f) g"
  by (rule implementsI) (auto simp: peek_def ls_plane_def assms split: sum.splits)

lemma peek_exact:
  assumes "\<And>d. g (doc_plane d) = (Inr (f d), doc_plane d)"
  shows "implements_exactly ls_inv (ls_ready tables) ls_plane (peek f) g"
  by (rule implements_exactlyI) (auto simp: peek_def ls_plane_def ls_ready_def assms split: sum.splits)

lemma assertTable_implements:
  "implements ls_inv ls_plane f g \<Longrightarrow> implements ls_inv ls_plane (assertTable t f) g"
  by (rule implementsI)
    (auto simp: assertTable_def split: if_splits dest: implements_Inl implements_Inr)

lemma assertTable_exact:
  "implements_exactly ls_inv (ls_ready tables) ls_plane f g \<Longrightarrow> t \<in> set tables \<Longrightarrow>
     implements_exactly ls_inv (ls_ready tables) ls_plane (assertTable t f) g"
  by (rule implements_exactlyI)
    (auto simp: assertTable_def ls_ready_def split: if_splits dest!: implements_exactlyD)

text \<open>
  The effect of an update on the abstract plane: one row replaced (by its JSON image) and
  the queue rewritten by operations that commute with the JSON round trip.
\<close>

definition json_rec :: "replica \<Rightarrow> replica" where
  "json_rec r = r\<lparr>r_row := json_image (r_row r)\<rparr>"

lemma json_rec_sel [simp]:
  "r_id (json_rec r) = r_id r" "r_version (json_rec r) = r_version r"
  "r_dirty (json_rec r) = r_dirty r"
  by (simp_all add: json_rec_def)

lemma json_replicaRecord:
  "json_rec (replicaRecord e i row v d s now) = replicaRecord e i (json_image row) v d s now"
  by (simp add: json_rec_def replicaRecord_def)

lemma json_touched:
  "json_image (r_row r) = r_row r \<Longrightarrow> json_rec (touchReplicaRecord r v d s now) = touchReplicaRecord r v d s now"
  by (simp add: json_rec_def touchReplicaRecord_def)

lemma json_doc_rows:
  "rowRecord (ld_rows (json_doc d)) t i = map_option json_rec (rowRecord (ld_rows d) t i)"
  by (simp add: json_doc_def rowRecord_json json_rec_def [abs_def])

lemma json_rows_inv: "doc_inv d \<Longrightarrow> map_option json_rec (rowRecord (ld_rows d) t i) = rowRecord (ld_rows d) t i"
  by (metis doc_inv_def json_doc_rows)

lemma doc_plane_row:
  assumes inv: "doc_inv d"
    and rows: "\<And>t' i'. rowRecord (ld_rows d') t' i' =
        (if t' = t \<and> i' = i then r else rowRecord (ld_rows d) t' i')"
    and same: "ld_next_seq d' = ld_next_seq d" "ld_cursors d' = ld_cursors d"
  shows "doc_plane (json_doc d') =
      (set_row t i (map_option json_rec r) (doc_plane d))\<lparr>p_queue := map json_write (ld_queue d')\<rparr>"
proof -
  have "rowRecord (ld_rows (json_doc d')) t' i' =
      (if t' = t \<and> i' = i then map_option json_rec r else rowRecord (ld_rows d) t' i')" for t' i'
    using json_rows_inv [OF inv] by (simp add: json_doc_rows rows)
  then have "rowRecord (ld_rows (json_doc d')) =
      (rowRecord (ld_rows d))(t := (rowRecord (ld_rows d) t)(i := map_option json_rec r))"
    by (auto simp: fun_eq_iff)
  then show ?thesis
    using same by (simp add: doc_plane_def set_row_def json_doc_def)
qed

lemma json_write_sel [simp]:
  "qw_seq (json_write w) = qw_seq w" "on_row t i (json_write w) = on_row t i w"
  by (simp_all add: json_write_def on_row_def)

lemma json_write_mark [simp]: "json_write (mark_superseded v w) = mark_superseded v (json_write w)"
  by (simp add: json_write_def mark_superseded_def)

lemma json_write_bump [simp]: "json_write (bump_record w) = bump_record (json_write w)"
  by (simp add: json_write_def bump_record_def)

lemma json_write_queue_record:
  "json_write (queue_record w s) = queue_record (clone_write json_image w) s"
  by (simp add: json_write_def queue_record_def clone_write_def)

lemma mark_in_queue_older:
  "mark_in_queue (\<lambda>c. qw_seq c \<noteq> s \<and> on_row t i c) s v q = mark_older t i s v q"
  by (auto simp: mark_older_def)

lemma json_drop_mark:
  assumes "doc_inv d"
  shows "map json_write (drop_seq s (mark_older t i s v (ld_queue d))) =
     drop_seq s (mark_older t i s v (ld_queue d))"
proof -
  have w: "json_write w = w" if "w \<in> set (ld_queue d)" for w
    using doc_inv_queue [OF assms] that by (metis map_eq_conv map_ident)
  show ?thesis
    by (rule map_idI) (auto simp: drop_seq_def mark_older_def w)
qed

lemma json_filter_queue:
  assumes "doc_inv d"
  shows "map json_write (filter P (ld_queue d)) = filter P (ld_queue d)"
proof -
  have w: "json_write w = w" if "w \<in> set (ld_queue d)" for w
    using doc_inv_queue [OF assms] that by (metis map_eq_conv map_ident)
  show ?thesis by (rule map_idI) (auto simp: w)
qed

lemma doc_okI:
  assumes "\<And>d. doc_inv d \<Longrightarrow> case f d of
      (Inl e, _) \<Rightarrow> g (doc_plane d) = (Inl e, doc_plane d)
    | (Inr v, d') \<Rightarrow> distinct (map row_key (ld_rows d')) \<and> ld_format d' = ld_format d \<and>
        g (doc_plane d) = (Inr v, doc_plane (json_doc d'))"
  shows "doc_ok f g"
  using assms unfolding doc_ok_def by blast

lemma doc_inv_distinct: "doc_inv d \<Longrightarrow> distinct (map row_key (ld_rows d))"
  by (simp add: doc_inv_def)

text \<open>The shape of a row after an update: replaced, removed, changed in place or untouched.\<close>

definition doc_row_effect :: "string \<Rightarrow> string \<Rightarrow> ls_doc \<Rightarrow> ls_row list \<Rightarrow> replica option \<Rightarrow> bool" where
  "doc_row_effect t i d rows r \<longleftrightarrow>
     distinct (map row_key rows) \<and>
     (\<exists>r0. map_option json_rec r0 = r \<and>
        (\<forall>t' i'. rowRecord rows t' i' = (if t' = t \<and> i' = i then r0 else rowRecord (ld_rows d) t' i')))"

lemma doc_row_put:
  "doc_inv d \<Longrightarrow> r_id r = i \<Longrightarrow>
     doc_row_effect t i d (putRow (ld_rows d) t r) (Some (json_rec r))"
  by (auto simp: doc_row_effect_def distinct_putRow doc_inv_distinct rowRecord_putRow
      intro!: exI [of _ "Some r"])

lemma doc_row_delete: "doc_inv d \<Longrightarrow> doc_row_effect t i d (deleteRow (ld_rows d) t i) None"
  by (auto simp: doc_row_effect_def distinct_deleteRow doc_inv_distinct rowRecord_deleteRow
      intro!: exI [of _ None])

lemma doc_row_none: "doc_inv d \<Longrightarrow> doc_row_effect t i d (ld_rows d) (rowRecord (ld_rows d) t i)"
  by (auto simp: doc_row_effect_def doc_inv_distinct json_rows_inv
      intro!: exI [of _ "rowRecord (ld_rows d) t i"])

lemma doc_row_mut:
  assumes "doc_inv d" and "\<And>r. r_id (f r) = r_id r"
    and "\<And>r. json_image (r_row r) = r_row r \<Longrightarrow> json_rec (f r) = f r"
  shows "doc_row_effect t i d (mutRow (ld_rows d) t i f) (map_option f (rowRecord (ld_rows d) t i))"
proof -
  have "map_option json_rec (map_option f (rowRecord (ld_rows d) t i)) =
      map_option f (rowRecord (ld_rows d) t i)"
    using doc_inv_row [OF assms(1), of t i] assms(3) by (cases "rowRecord (ld_rows d) t i") auto
  then show ?thesis
    using assms(1,2) by (auto simp: doc_row_effect_def keys_mutRow doc_inv_distinct rowRecord_mutRow
        intro!: exI [of _ "map_option f (rowRecord (ld_rows d) t i)"])
qed

lemma doc_plane_effect:
  assumes inv: "doc_inv d" and row: "doc_row_effect t i d (ld_rows d') r"
    and same: "ld_next_seq d' = ld_next_seq d" "ld_cursors d' = ld_cursors d"
  shows "doc_plane (json_doc d') =
      (set_row t i r (doc_plane d))\<lparr>p_queue := map json_write (ld_queue d')\<rparr>"
proof -
  obtain r0 where "map_option json_rec r0 = r"
    and "\<And>t' i'. rowRecord (ld_rows d') t' i' = (if t' = t \<and> i' = i then r0 else rowRecord (ld_rows d) t' i')"
    using row by (auto simp: doc_row_effect_def)
  then show ?thesis using doc_plane_row [OF inv _ same, of t i r0] by simp
qed

text \<open>
  An update that goes through: one row replaced, the queue rewritten, everything else kept.
\<close>

definition doc_step ::
    "string \<Rightarrow> string \<Rightarrow> (ls_doc \<Rightarrow> 'a res \<times> ls_doc) \<Rightarrow> (plane, 'a) op \<Rightarrow> ls_doc \<Rightarrow> bool" where
  "doc_step t i f g d \<longleftrightarrow>
     (\<exists>u d'. f d = (Inr u, d') \<and>
        doc_row_effect t i d (ld_rows d') (p_rows (snd (g (doc_plane d))) t i) \<and>
        ld_next_seq d' = ld_next_seq d \<and> ld_cursors d' = ld_cursors d \<and> ld_format d' = ld_format d \<and>
        g (doc_plane d) = (Inr u, (set_row t i (p_rows (snd (g (doc_plane d))) t i) (doc_plane d))
          \<lparr>p_queue := map json_write (ld_queue d')\<rparr>))"

lemma doc_step_case:
  assumes inv: "doc_inv d" and step: "doc_step t i f g d"
  shows "case f d of
      (Inl e, _) \<Rightarrow> g (doc_plane d) = (Inl e, doc_plane d)
    | (Inr v, d') \<Rightarrow> distinct (map row_key (ld_rows d')) \<and> ld_format d' = ld_format d \<and>
        g (doc_plane d) = (Inr v, doc_plane (json_doc d'))"
proof -
  obtain u d' where f: "f d = (Inr u, d')"
    and row: "doc_row_effect t i d (ld_rows d') (p_rows (snd (g (doc_plane d))) t i)"
    and same: "ld_next_seq d' = ld_next_seq d" "ld_cursors d' = ld_cursors d" "ld_format d' = ld_format d"
    and g: "g (doc_plane d) = (Inr u, (set_row t i (p_rows (snd (g (doc_plane d))) t i) (doc_plane d))
          \<lparr>p_queue := map json_write (ld_queue d')\<rparr>)"
    using step unfolding doc_step_def by blast
  have "g (doc_plane d) = (Inr u, doc_plane (json_doc d'))"
    using g doc_plane_effect [OF inv row same(1,2)] by simp
  then show ?thesis
    using row same(3) unfolding f by (simp add: doc_row_effect_def)
qed

text \<open>The settling operations: unknown sequence, identity changed, or a step.\<close>

lemma doc_ok_settles:
  assumes none: "\<And>d. find_seq s (ld_queue d) = None \<Longrightarrow>
      f d = (Inr u0, d) \<and> g (doc_plane d) = (Inr u0, doc_plane d)"
    and other: "\<And>d w. find_seq s (ld_queue d) = Some w \<Longrightarrow> \<not> on_row t i w \<Longrightarrow>
      fst (f d) = Inl e0 \<and> g (doc_plane d) = (Inl e0, doc_plane d)"
    and found: "\<And>d w. doc_inv d \<Longrightarrow> find_seq s (ld_queue d) = Some w \<Longrightarrow> on_row t i w \<Longrightarrow>
      doc_step t i f g d"
  shows "doc_ok f g"
proof (rule doc_okI)
  fix d
  assume inv: "doc_inv d"
  show "case f d of
      (Inl e, _) \<Rightarrow> g (doc_plane d) = (Inl e, doc_plane d)
    | (Inr v, d') \<Rightarrow> distinct (map row_key (ld_rows d')) \<and> ld_format d' = ld_format d \<and>
        g (doc_plane d) = (Inr v, doc_plane (json_doc d'))"
  proof (cases "find_seq s (ld_queue d)")
    case None
    have "json_doc d = d" using inv by (simp add: doc_inv_def)
    then show ?thesis using none [OF None] doc_inv_distinct [OF inv] by simp
  next
    case (Some w)
    show ?thesis
    proof (cases "on_row t i w")
      case False
      then obtain d1 where "f d = (Inl e0, d1)" "g (doc_plane d) = (Inl e0, doc_plane d)"
        using other [OF Some False] by (cases "f d") auto
      then show ?thesis by simp
    next
      case True
      show ?thesis by (rule doc_step_case [OF inv found [OF inv Some True]])
    qed
  qed
qed

lemma doc_row_touch:
  assumes "doc_inv d" and "map_option f (rowRecord (ld_rows d) t i) = r1"
    and "\<And>r. r_id (f r) = r_id r"
    and "\<And>r. json_image (r_row r) = r_row r \<Longrightarrow> json_rec (f r) = f r"
  shows "doc_row_effect t i d (mutRow (ld_rows d) t i f) r1"
  using doc_row_mut [OF assms(1,3,4), of t i] assms(2) by simp

lemma doc_row_same:
  "doc_inv d \<Longrightarrow> rowRecord (ld_rows d) t i = r \<Longrightarrow> doc_row_effect t i d (ld_rows d) r"
  using doc_row_none by blast

lemmas doc_row_effects = doc_row_put doc_row_delete doc_row_touch doc_row_same

lemma put_doc_ok: "doc_ok (put_doc t i row v d now) (spec_put json_image t i row v d now)"
proof (rule doc_okI, rule doc_step_case)
  fix doc
  assume inv: "doc_inv doc"
  show "doc_step t i (put_doc t i row v d now) (spec_put json_image t i row v d now) doc"
    using doc_row_put [OF inv, of "replicaRecord (rowRecord (ld_rows doc) t i) i row v d (\<not> d) now" i t]
    by (simp add: doc_step_def put_doc_def spec_put_def Let_def json_replicaRecord doc_inv_queue [OF inv])
qed

lemma del_doc_ok: "doc_ok (del_doc t i) (spec_del t i)"
proof (rule doc_okI, rule doc_step_case)
  fix d
  assume inv: "doc_inv d"
  show "doc_step t i (del_doc t i) (spec_del t i) d"
    by (simp add: doc_step_def del_doc_def spec_del_def doc_row_delete [OF inv] doc_inv_queue [OF inv])
qed

lemma setMeta_doc_ok: "doc_ok (setMeta_doc t i v dd now) (spec_setMeta t i v dd now)"
proof (rule doc_okI, rule doc_step_case)
  fix d
  assume inv: "doc_inv d"
  show "doc_step t i (setMeta_doc t i v dd now) (spec_setMeta t i v dd now) d"
    using inv by (cases "rowRecord (ld_rows d) t i")
      (auto simp: doc_step_def setMeta_doc_def spec_setMeta_def doc_row_effects doc_inv_queue json_touched set_row_same)
qed

lemma settleAck_doc_ok: "doc_ok (settleAck_doc t i s v now) (spec_settleAck t i s v now)"
proof (rule doc_ok_settles [where s = s and t = t and i = i])
  fix d w
  assume inv: "doc_inv d" and w: "find_seq s (ld_queue d) = Some w" "on_row t i w"
  note defs = doc_step_def settleAck_doc_def spec_settleAck_def w(1) [unfolded find_seq_def] w(1)
    w(2) w(2) [unfolded on_row_def] other_writes_def Let_def ack_row_def keep_row_def
    mark_in_queue_older drop_seq_def [symmetric] json_drop_mark [OF inv] json_touched
  show "doc_step t i (settleAck_doc t i s v now) (spec_settleAck t i s v now) d"
    using inv by (cases "rowRecord (ld_rows d) t i") (auto simp: defs doc_row_effects)
qed (auto simp: settleAck_doc_def spec_settleAck_def find_seq_def on_row_def Let_def)

lemma adoptEcho_doc_ok: "doc_ok (adoptEcho_doc ev s now) (spec_adoptEcho json_image ev s now)"
proof (rule doc_ok_settles [where s = s and t = "ev_table ev" and i = "ev_id ev"])
  fix d w
  assume inv: "doc_inv d" and w: "find_seq s (ld_queue d) = Some w" "on_row (ev_table ev) (ev_id ev) w"
  note defs = doc_step_def adoptEcho_doc_def spec_adoptEcho_def w(1) [unfolded find_seq_def] w(1)
    w(2) w(2) [unfolded on_row_def] other_writes_def Let_def echo_row_def server_row_def keep_row_def
    raise_row_def mark_in_queue_older drop_seq_def [symmetric] json_drop_mark [OF inv] json_touched
    json_replicaRecord [symmetric]
  show "doc_step (ev_table ev) (ev_id ev) (adoptEcho_doc ev s now) (spec_adoptEcho json_image ev s now) d"
    using inv by (cases "rowRecord (ld_rows d) (ev_table ev) (ev_id ev)"; cases "ev_op ev")
      (auto simp: defs doc_row_effects)
qed (auto simp: adoptEcho_doc_def spec_adoptEcho_def find_seq_def on_row_def Let_def)

lemma doc_payload:
  assumes "doc_inv d" and "find_seq s (ld_queue d) = Some w"
  shows "json_image (qw_payload w) = qw_payload w"
proof -
  have "w \<in> set (ld_queue d)"
    using assms(2) by (auto simp: find_seq_def dest: find_Some_mem)
  then have "json_write w = w"
    using doc_inv_queue [OF assms(1)] by (metis map_eq_conv map_ident)
  then show ?thesis
    by (metis json_write_def sync_write.select_convs(4) sync_write.surjective sync_write.update_convs(4))
qed

lemma settlePessimistic_doc_ok:
  "doc_ok (settlePessimistic_doc t i s v now) (spec_settlePessimistic json_image t i s v now)"
proof (rule doc_ok_settles [where s = s and t = t and i = i])
  fix d w
  assume inv: "doc_inv d" and w: "find_seq s (ld_queue d) = Some w" "on_row t i w"
  note defs = doc_step_def settlePessimistic_doc_def spec_settlePessimistic_def w(1) [unfolded find_seq_def] w(1)
    w(2) w(2) [unfolded on_row_def] other_writes_def Let_def pessimistic_row_def keep_row_def
    raise_row_def mark_in_queue_older drop_seq_def [symmetric] json_drop_mark [OF inv] json_touched
    json_replicaRecord [symmetric]
  show "doc_step t i (settlePessimistic_doc t i s v now) (spec_settlePessimistic json_image t i s v now) d"
    using inv by (cases "rowRecord (ld_rows d) t i"; cases "qw_op w")
      (auto simp: defs doc_row_effects)
qed (auto simp: settlePessimistic_doc_def spec_settlePessimistic_def find_seq_def on_row_def Let_def)

lemma resolveConflict_doc_ok:
  "doc_ok (resolveConflict_doc ev seqs now) (spec_resolveConflict json_image ev seqs now)"
proof (rule doc_okI, rule doc_step_case)
  fix d
  assume inv: "doc_inv d"
  note defs = doc_step_def resolveConflict_doc_def spec_resolveConflict_def Let_def conflict_row_def
    server_row_def raise_row_def json_filter_queue [OF inv] json_touched json_replicaRecord [symmetric]
  show "doc_step (ev_table ev) (ev_id ev) (resolveConflict_doc ev seqs now)
      (spec_resolveConflict json_image ev seqs now) d"
    using inv by (cases "rowRecord (ld_rows d) (ev_table ev) (ev_id ev)"; cases "ev_op ev")
      (auto simp: defs doc_row_effects)
qed

lemma remove_doc_ok: "doc_ok (remove_doc s) (spec_remove s)"
proof (rule doc_okI)
  fix d
  assume inv: "doc_inv d"
  show "case remove_doc s d of
      (Inl e, _) \<Rightarrow> spec_remove s (doc_plane d) = (Inl e, doc_plane d)
    | (Inr v, d') \<Rightarrow> distinct (map row_key (ld_rows d')) \<and> ld_format d' = ld_format d \<and>
        spec_remove s (doc_plane d) = (Inr v, doc_plane (json_doc d'))"
    using doc_inv_distinct [OF inv] json_doc_rows [of d] json_rows_inv [OF inv]
    by (auto simp: remove_doc_def spec_remove_def doc_plane_def json_doc_def drop_seq_def
        json_filter_queue [OF inv] fun_eq_iff)
qed

lemma json_rows_map: "doc_inv d \<Longrightarrow> rowRecord (map json_row (ld_rows d)) = rowRecord (ld_rows d)"
  using json_doc_rows [of d] json_rows_inv [of d] by (auto simp: fun_eq_iff json_doc_def)

lemma bumpAttempts_doc_ok: "doc_ok (bumpAttempts_doc s) (spec_bumpAttempts s)"
proof (rule doc_okI)
  fix d
  assume inv: "doc_inv d"
  have w: "json_write w = w" if "w \<in> set (ld_queue d)" for w
    using doc_inv_queue [OF inv] that by (metis map_eq_conv map_ident)
  have q: "map json_write (map (\<lambda>c. if qw_seq c = s then bump_record c else c) (ld_queue d)) =
      map (\<lambda>c. if qw_seq c = s then bump_record c else c) (ld_queue d)"
    by (rule map_idI) (auto simp: w)
  have jd: "json_doc d = d" using inv by (simp add: doc_inv_def)
  show "case bumpAttempts_doc s d of
      (Inl e, _) \<Rightarrow> spec_bumpAttempts s (doc_plane d) = (Inl e, doc_plane d)
    | (Inr v, d') \<Rightarrow> distinct (map row_key (ld_rows d')) \<and> ld_format d' = ld_format d \<and>
        spec_bumpAttempts s (doc_plane d) = (Inr v, doc_plane (json_doc d'))"
  proof (cases "find_seq s (ld_queue d)")
    case None
    then show ?thesis
      using doc_inv_distinct [OF inv] jd
      by (simp add: bumpAttempts_doc_def spec_bumpAttempts_def find_seq_def)
  next
    case (Some x)
    have b: "bumpAttempts_doc s d = (Inr (the (qw_attempts (bump_record x))),
        d\<lparr>ld_queue := map (\<lambda>c. if qw_seq c = s then bump_record c else c) (ld_queue d)\<rparr>)"
      using Some by (simp add: bumpAttempts_doc_def find_seq_def bump_record_def)
    show ?thesis
      unfolding b prod.case sum.case spec_bumpAttempts_def doc_plane_sel Some option.case
      using doc_inv_distinct [OF inv] q json_rows_map [OF inv]
      by (simp add: doc_plane_def json_doc_def)
  qed
qed

lemma push_plane:
  "doc_plane (json_doc (d\<lparr>ld_queue := ld_queue d @ [queue_record w (ld_next_seq d)],
       ld_next_seq := Suc (ld_next_seq d)\<rparr>)) =
   push_write json_image w ((doc_plane (json_doc d)))"
  by (simp add: doc_plane_def json_doc_def push_write_def json_write_queue_record)

lemma enqueue_doc_ok: "doc_ok (ls_push w) (spec_enqueue json_image w)"
proof (rule doc_okI)
  fix d
  assume inv: "doc_inv d"
  have jd: "json_doc d = d" using inv by (simp add: doc_inv_def)
  show "case ls_push w d of
      (Inl e, _) \<Rightarrow> spec_enqueue json_image w (doc_plane d) = (Inl e, doc_plane d)
    | (Inr v, d') \<Rightarrow> distinct (map row_key (ld_rows d')) \<and> ld_format d' = ld_format d \<and>
        spec_enqueue json_image w (doc_plane d) = (Inr v, doc_plane (json_doc d'))"
    using push_plane [of d w] jd doc_inv_distinct [OF inv]
    by (simp add: ls_push_def spec_enqueue_def)
qed

lemma enqueueOptimistic_doc_ok:
  "doc_ok (enqueueOptimistic_doc w row now) (spec_enqueueOptimistic json_image w row now)"
proof (rule doc_okI)
  fix d
  assume inv: "doc_inv d"
  let ?t = "qw_table w" and ?i = "qw_id w"
  define rec where "rec = replicaRecord (rowRecord (ld_rows d) ?t ?i) ?i row (qw_base_version w) True False now"
  define d1 where "d1 = (case qw_op w of
      Delete \<Rightarrow> upd_doc_rows (\<lambda>rows. deleteRow rows ?t ?i) d
    | Upsert \<Rightarrow> upd_doc_rows (\<lambda>rows. putRow rows ?t rec) d)"
  define r where "r = (case qw_op w of Delete \<Rightarrow> None | Upsert \<Rightarrow> Some (json_rec rec))"
  have row: "doc_row_effect ?t ?i d (ld_rows d1) r"
    using doc_row_put [OF inv, of rec ?i ?t] doc_row_delete [OF inv, of ?t ?i]
    by (cases "qw_op w") (simp_all add: d1_def r_def rec_def)
  have same: "ld_next_seq d1 = ld_next_seq d" "ld_cursors d1 = ld_cursors d" "ld_format d1 = ld_format d"
      "ld_queue d1 = ld_queue d"
    by (cases "qw_op w"; simp add: d1_def)+
  have plane: "doc_plane (json_doc d1) = set_row ?t ?i r (doc_plane d)"
    using doc_plane_effect [OF inv row same(1,2)] doc_inv_queue [OF inv]
    by (simp add: same set_row_def doc_plane_def)
  have f: "enqueueOptimistic_doc w row now d = ls_push w d1"
    by (cases "qw_op w") (simp_all add: enqueueOptimistic_doc_def d1_def rec_def Let_def)
  have g: "spec_enqueueOptimistic json_image w row now (doc_plane d) =
      (Inr (ld_next_seq d), push_write json_image w (set_row ?t ?i r (doc_plane d)))"
    by (cases "qw_op w") (simp_all add: spec_enqueueOptimistic_def r_def rec_def json_replicaRecord)
  show "case enqueueOptimistic_doc w row now d of
      (Inl e, _) \<Rightarrow> spec_enqueueOptimistic json_image w row now (doc_plane d) = (Inl e, doc_plane d)
    | (Inr v, d') \<Rightarrow> distinct (map row_key (ld_rows d')) \<and> ld_format d' = ld_format d \<and>
        spec_enqueueOptimistic json_image w row now (doc_plane d) = (Inr v, doc_plane (json_doc d'))"
    unfolding f g using push_plane [of d1 w] row plane same
    by (simp add: ls_push_def doc_row_effect_def)
qed

lemma find_map_cursor:
  "map_option snd (find (\<lambda>c. fst c = sc') (map (\<lambda>c. if fst c = sc then (sc, x) else c) cs)) =
     (if sc' = sc \<and> find (\<lambda>c. fst c = sc) cs \<noteq> None then Some x
      else map_option snd (find (\<lambda>c. fst c = sc') cs))"
  by (induction cs) auto

lemma find_snoc: "find P (xs @ [x]) = (case find P xs of Some y \<Rightarrow> Some y | None \<Rightarrow> if P x then Some x else None)"
  by (induction xs) auto

lemma setCursor_doc_ok:
  "doc_ok (setCursor_doc c sc)
     (\<lambda>P. if (case p_cursor P sc of Some c' \<Rightarrow> c < c' | None \<Rightarrow> False)
          then (Inl cursor_backwards, P) else (Inr c, P\<lparr>p_cursor := (p_cursor P)(sc \<mapsto> c)\<rparr>))"
proof (rule doc_okI)
  fix d
  assume inv: "doc_inv d"
  let ?g = "\<lambda>P. if (case p_cursor P sc of Some c' \<Rightarrow> c < c' | None \<Rightarrow> False)
          then (Inl cursor_backwards, P) else (Inr c, P\<lparr>p_cursor := (p_cursor P)(sc \<mapsto> c)\<rparr>)"
  show "case setCursor_doc c sc d of
      (Inl e, _) \<Rightarrow> ?g (doc_plane d) = (Inl e, doc_plane d)
    | (Inr v, d') \<Rightarrow> distinct (map row_key (ld_rows d')) \<and> ld_format d' = ld_format d \<and>
        ?g (doc_plane d) = (Inr v, doc_plane (json_doc d'))"
  proof (cases "find (\<lambda>c. fst c = sc) (ld_cursors d)")
    case None
    then show ?thesis
      using doc_inv_distinct [OF inv] doc_inv_queue [OF inv] json_rows_map [OF inv]
      by (auto simp: setCursor_doc_def doc_plane_def json_doc_def find_snoc fun_eq_iff split: option.splits)
  next
    case (Some k)
    then show ?thesis
      using doc_inv_distinct [OF inv] doc_inv_queue [OF inv] json_rows_map [OF inv]
      by (auto simp: setCursor_doc_def doc_plane_def json_doc_def find_map_cursor fun_eq_iff Let_def)
  qed
qed

lemma ls_setCursor_guard:
  "\<not> \<bar>c\<bar> \<le> MAX_SAFE \<or> c < 0 \<Longrightarrow>
     ls_setCursor c sc = raise cursor_invalid \<and> spec_setCursor c sc = raise cursor_invalid"
  "\<not> (\<not> \<bar>c\<bar> \<le> MAX_SAFE \<or> c < 0) \<Longrightarrow>
     ls_setCursor c sc = update (setCursor_doc c sc) \<and>
     spec_setCursor c sc = (\<lambda>P. if (case p_cursor P sc of Some c' \<Rightarrow> c < c' | None \<Rightarrow> False)
          then (Inl cursor_backwards, P) else (Inr c, P\<lparr>p_cursor := (p_cursor P)(sc \<mapsto> c)\<rparr>))"
  by (auto simp: ls_setCursor_def spec_setCursor_def raise_def fun_eq_iff)

lemma ls_setCursor_implements: "implements ls_inv ls_plane (ls_setCursor c sc) (spec_setCursor c sc)"
proof (cases "\<not> \<bar>c\<bar> \<le> MAX_SAFE \<or> c < 0")
  case True
  then show ?thesis by (simp only: ls_setCursor_guard(1) implements_raise)
next
  case False
  note g = ls_setCursor_guard(2) [OF False, of sc]
  show ?thesis
    unfolding conjunct1 [OF g] conjunct2 [OF g] by (rule doc_ok_implements [OF setCursor_doc_ok])
qed

lemma ls_setCursor_exact:
  "implements_exactly ls_inv (ls_ready tables) ls_plane (ls_setCursor c sc) (spec_setCursor c sc)"
proof (cases "\<not> \<bar>c\<bar> \<le> MAX_SAFE \<or> c < 0")
  case True
  then show ?thesis by (simp only: ls_setCursor_guard(1) implements_exactly_raise)
next
  case False
  note g = ls_setCursor_guard(2) [OF False, of sc]
  show ?thesis
    unfolding conjunct1 [OF g] conjunct2 [OF g] by (rule doc_ok_exact [OF setCursor_doc_ok])
qed

text \<open>The operations that only read.\<close>

lemma get_peek: "spec_get view_null t i (doc_plane d) =
    (Inr (coalesce (case rowRecord (ld_rows d) t i of Some rec \<Rightarrow> r_row rec | None \<Rightarrow> JUndef) JNull), doc_plane d)"
  by (simp add: spec_get_def view_null_def coalesce_def is_nullish_def split: option.splits)

lemma meta_peek: "spec_meta t i (doc_plane d) =
    (Inr (case rowRecord (ld_rows d) t i of
       Some rec \<Rightarrow> Some \<lparr>lr_version = r_version rec, lr_dirty = r_dirty rec\<rparr> | None \<Rightarrow> None), doc_plane d)"
  by (simp add: spec_meta_def meta_of_def split: option.splits)

lemma cursor_peek: "spec_getCursor sc (doc_plane d) =
    (Inr (case find (\<lambda>c. fst c = sc) (ld_cursors d) of Some c \<Rightarrow> snd c | None \<Rightarrow> 0), doc_plane d)"
  by (simp add: spec_getCursor_def split: option.splits)

lemma list_peek: "spec_list (doc_plane d) = (Inr (ld_queue d), doc_plane d)"
  by (simp add: spec_list_def)

lemmas ls_peeks = get_peek meta_peek cursor_peek list_peek

lemmas ls_doc_ok =
  put_doc_ok del_doc_ok setMeta_doc_ok settleAck_doc_ok adoptEcho_doc_ok settlePessimistic_doc_ok
  resolveConflict_doc_ok remove_doc_ok bumpAttempts_doc_ok enqueue_doc_ok enqueueOptimistic_doc_ok

lemmas ls_op_defs =
  ls_get_def ls_meta_def ls_put_def ls_setMeta_def ls_del_def ls_getCursor_def ls_enqueue_def
  ls_enqueueOptimistic_def ls_list_def ls_remove_def ls_settleAck_def ls_adoptEcho_def
  ls_resolveConflict_def ls_settlePessimistic_def ls_bumpAttempts_def

interpretation ls: reliable_store ls_api json_image view_null ls_inv ls_plane
  "set tables" "ls_ready tables" for tables
proof unfold_locales
  show "ls_inv st' \<and> ls_plane st' = ls_plane st"
    if "ls_inv st" "api_all ls_api t st = (res, st')" for t st res st'
    using that by (auto simp: ls_api_def ls_all_def assertTable_def peek_def split: if_splits sum.splits)
qed (simp_all add: ls_api_def ls_op_defs ls_setCursor_implements ls_setCursor_exact json_image_idem
    doc_ok_implements doc_ok_exact ls_doc_ok peek_implements peek_exact ls_peeks
    assertTable_implements assertTable_exact)

end
