(* ===== verification/Adapters.thy ===== *)
theory Adapters
  imports Local_Storage
begin

section \<open>Adapters as found\<close>

text \<open>A freshly created database for the configured tables, and an empty localStorage key.\<close>

definition fresh_idb :: "string list \<Rightarrow> idb" where
  "fresh_idb tables = \<lparr>db_open = True, db_names = tables @ [QUEUE_STORE, META_STORE],
     db_rows = (\<lambda>_. []), db_queue = [], db_seq = 1, db_meta = [], db_faults = []\<rparr>"

definition fresh_ls :: "string list \<Rightarrow> ls_state" where
  "fresh_ls tables = \<lparr>ls_tables = tables, ls_item = NoItem, ls_faults = []\<rparr>"

lemma fresh_idb_ok [simp]:
  "idb_inv (fresh_idb tables)" "idb_ready tables (fresh_idb tables)" "plane_ok (idb_plane (fresh_idb tables))"
  "idb_inv ((fresh_idb tables)\<lparr>db_faults := plan\<rparr>)" "plane_ok (idb_plane ((fresh_idb tables)\<lparr>db_faults := plan\<rparr>))"
  by (simp_all add: fresh_idb_def idb_inv_def idb_ready_def os_sorted_def os_get_def plane_ok_def
      queue_ok_def dirty_queued_def ids_ok_def)

lemma fresh_ls_ok [simp]:
  "ls_inv (fresh_ls tables)" "ls_ready tables (fresh_ls tables)" "plane_ok (ls_plane (fresh_ls tables))"
proof -
  have load: "load (fresh_ls tables) = Inr freshState"
    by (simp add: load_def fresh_ls_def)
  then show "ls_inv (fresh_ls tables)" by (simp add: ls_inv_def freshState_inv)
  show "ls_ready tables (fresh_ls tables)"
    using load by (simp add: ls_ready_def) (simp add: fresh_ls_def)
  show "plane_ok (ls_plane (fresh_ls tables))"
    using load by (simp add: ls_plane_def plane_ok_def queue_ok_def dirty_queued_def ids_ok_def freshState_def)
qed

definition sample_event :: change_event where
  "sample_event = \<lparr>ev_table = ''notes'', ev_op = Upsert, ev_id = ''n1'', ev_version = 4,
     ev_row = JObj [(''id'', JStr ''n1'')], ev_at_ms = JNum (num 0), ev_write_key = None\<rparr>"

definition sample_config :: config where
  "sample_config = \<lparr>cfg_default = \<lparr>pol_strategy = Optimistic, pol_failure_mode = ReturnResult,
       pol_telemetry = TelErrors\<rparr>,
     cfg_resolve = (\<lambda>_. Inr JUndef), cfg_sink = \<lparr>sk_start = (\<lambda>_. None), sk_emit = (\<lambda>_. True)\<rparr>\<rparr>"

section \<open>A change received\<close>

text \<open>
  C1. Over an open IndexedDB store with no storage fault ahead, receiving a change does to
  rows, queue and cursors exactly what the abstract reconciliation does, in one attempt, and
  answers the same outcome; the store stays consistent and usable.
\<close>
theorem idb_change_exact:
  assumes "idb_inv (cl_store c)" "idb_ready tables (cl_store c)" "plane_ok (idb_plane (cl_store c))"
    and "ev_table ev \<in> set tables"
    and "applyChange (Suc fuel) cfg idb_api ev now c = (res, c')"
  shows "idb_inv (cl_store c') \<and> idb_ready tables (cl_store c') \<and>
    receive (\<lambda>x. x) ev now (idb_plane (cl_store c)) = (res, idb_plane (cl_store c'))"
  by (rule idb.applyChange_receive_exact [OF assms])

theorem idb_change_exact_witness:
  "idb_inv (cl_store (snd (applyChange 1 sample_config idb_api sample_event 9
     \<lparr>cl_store = fresh_idb [''notes''], cl_log = []\<rparr>)))"
  using idb_change_exact [of "\<lparr>cl_store = fresh_idb [''notes''], cl_log = []\<rparr>" "[''notes'']"
      sample_event 0 sample_config 9]
  by (simp add: prod_eq_iff) (simp add: sample_event_def)

text \<open>
  C2. The same over localStorage: the one-document adapter implements the same
  reconciliation, with every stored value replaced by its JSON image.
\<close>
theorem ls_change_exact:
  assumes "ls_inv (cl_store c)" "ls_ready tables (cl_store c)" "plane_ok (ls_plane (cl_store c))"
    and "ev_table ev \<in> set tables"
    and "applyChange (Suc fuel) cfg ls_api ev now c = (res, c')"
  shows "ls_inv (cl_store c') \<and> ls_ready tables (cl_store c') \<and>
    receive json_image ev now (ls_plane (cl_store c)) = (res, ls_plane (cl_store c'))"
  by (rule ls.applyChange_receive_exact [OF assms])

theorem ls_change_exact_witness:
  "ls_inv (cl_store (snd (applyChange 1 sample_config ls_api sample_event 9
     \<lparr>cl_store = fresh_ls [''notes''], cl_log = []\<rparr>)))"
  using ls_change_exact [of "\<lparr>cl_store = fresh_ls [''notes''], cl_log = []\<rparr>" "[''notes'']"
      sample_event 0 sample_config 9]
  by (simp add: prod_eq_iff) (simp add: sample_event_def)

text \<open>
  C3. Whatever the storage does (a closed database, a missing store, transactions aborted
  at commit by any plan), receiving a change either does all of the reconciliation or
  rejects and leaves rows, queue and cursors as they were.
\<close>
theorem idb_change_atomic:
  assumes "idb_inv (cl_store c)" "plane_ok (idb_plane (cl_store c))"
    and "applyChange (Suc fuel) cfg idb_api ev now c = (res, c')"
  shows "idb_inv (cl_store c') \<and>
    (receive (\<lambda>x. x) ev now (idb_plane (cl_store c)) = (res, idb_plane (cl_store c')) \<or>
     (\<exists>e. res = Inl e) \<and> idb_plane (cl_store c') = idb_plane (cl_store c))"
  by (rule idb.applyChange_atomic [OF assms])

theorem idb_change_atomic_witness:
  "idb_inv (cl_store (snd (applyChange 1 sample_config idb_api sample_event 9
     \<lparr>cl_store = (fresh_idb [''notes''])\<lparr>db_faults := [False, False, True]\<rparr>, cl_log = []\<rparr>)))"
  using idb_change_atomic [of "\<lparr>cl_store = (fresh_idb [''notes''])\<lparr>db_faults := [False, False, True]\<rparr>, cl_log = []\<rparr>"
      0 sample_config sample_event 9]
  by (simp add: prod_eq_iff)

section \<open>Reachable states\<close>

text \<open>
  C4. Every state the client reaches over IndexedDB, through any sequence of gate bodies
  under any plan of storage faults, is consistent: the queue's sequence numbers ascend below
  the next one, records carry their id, and every dirty row still has a queued write.
\<close>
theorem idb_reachable_ok:
  assumes "runs cfg idb_api s s'" "idb_inv s" "plane_ok (idb_plane s)"
  shows "idb_inv s' \<and> plane_ok (idb_plane s')"
  using idb.runs_simulate [OF assms(1,2)] idb.runs_plane_ok [OF assms] by blast

theorem idb_reachable_ok_witness:
  "plane_ok (idb_plane (cl_store (snd (gate_body sample_config idb_api 9 (Receive 1 sample_event)
     \<lparr>cl_store = fresh_idb [''notes''], cl_log = []\<rparr>))))"
proof -
  have "runs sample_config idb_api (fresh_idb [''notes''])
      (cl_store (snd (gate_body sample_config idb_api 9 (Receive 1 sample_event)
        \<lparr>cl_store = fresh_idb [''notes''], cl_log = []\<rparr>)))"
    by (rule runs_step [OF runs_refl]) (rule prod.collapse [symmetric])
  from idb_reachable_ok [OF this] show ?thesis by simp
qed

text \<open>
  C5. The same for localStorage, where the faults are exceeded quotas and documents that
  cannot be read.
\<close>
theorem ls_reachable_ok:
  assumes "runs cfg ls_api s s'" "ls_inv s" "plane_ok (ls_plane s)"
  shows "ls_inv s' \<and> plane_ok (ls_plane s')"
  using ls.runs_simulate [OF assms(1,2)] ls.runs_plane_ok [OF assms] by blast

theorem ls_reachable_ok_witness:
  "plane_ok (ls_plane (cl_store (snd (gate_body sample_config ls_api 9 (Receive 1 sample_event)
     \<lparr>cl_store = fresh_ls [''notes''], cl_log = []\<rparr>))))"
proof -
  have "runs sample_config ls_api (fresh_ls [''notes''])
      (cl_store (snd (gate_body sample_config ls_api 9 (Receive 1 sample_event)
        \<lparr>cl_store = fresh_ls [''notes''], cl_log = []\<rparr>)))"
    by (rule runs_step [OF runs_refl]) (rule prod.collapse [symmetric])
  from ls_reachable_ok [OF this] show ?thesis by simp
qed



section \<open>One step\<close>

text \<open>The effect of one gate body on the plane: the abstract one, or none.\<close>

lemma idb_gate_plane:
  assumes "idb_inv (cl_store c)" and "gate_body cfg idb_api now g c = (res, c')"
  shows "idb_plane (cl_store c') = idb_plane (cl_store c) \<or>
    gate_body cfg (spec_api (api_kind idb_api) (\<lambda>x. x) (\<lambda>x. x)) now g (client_plane idb_plane c) =
      (res, client_plane idb_plane c')"
proof (cases res)
  case (Inl e)
  have "client_plane idb_plane c' = client_plane idb_plane c"
    using implements_Inl [OF idb.gate_implements _ assms(2) [unfolded Inl]] assms(1)
    unfolding client_inv_def by blast
  then show ?thesis unfolding client_plane_def by (auto dest: client.simps(1) [THEN iffD1])
next
  case (Inr v)
  then show ?thesis
    using implements_Inr [OF idb.gate_implements _ assms(2) [unfolded Inr]] assms(1)
    unfolding client_inv_def by blast
qed


text \<open>A row written over version 3, its write queued under number 1.\<close>

definition pending_write :: queued_write where
  "pending_write = \<lparr>qw_id = ''n1'', qw_table = ''notes'', qw_op = Upsert, qw_payload = JStr ''mine'',
     qw_base_version = 3, qw_key = Some ''k1'', qw_policy = None, qw_attempts = Some 0,
     qw_superseded = None, qw_seq = 1\<rparr>"

definition pending_row :: replica where
  "pending_row = \<lparr>r_id = ''n1'', r_row = JStr ''mine'', r_version = 3, r_dirty = True,
     r_created_at = Some 1, r_updated_at = Some 1, r_synced_at = None\<rparr>"

definition pending_idb :: idb where
  "pending_idb = (fresh_idb [''notes''])\<lparr>db_rows := (\<lambda>_. [])(''notes'' := [pending_row]),
     db_queue := [pending_write], db_seq := 2\<rparr>"

lemma pending_idb_ok [simp]:
  "idb_inv pending_idb" "idb_ready [''notes''] pending_idb" "plane_ok (idb_plane pending_idb)"
  by (auto simp: pending_idb_def fresh_idb_def idb_inv_def idb_ready_def os_sorted_def os_get_def plane_ok_def
      queue_ok_def dirty_queued_def ids_ok_def pending_write_def pending_row_def on_row_def)

definition ack_step :: "unit res \<times> idb client" where
  "ack_step = gate_body sample_config idb_api 9
     (Settle ''notes'' ''n1'' \<lparr>ack_id = ''n1'', ack_version = 4\<rparr> 1 Optimistic)
     \<lparr>cl_store = pending_idb, cl_log = []\<rparr>"


text \<open>
  C13. Row versions only move forward: no step over IndexedDB lowers the version of a stored
  row, pessimistic settlement set aside.
\<close>
theorem idb_version_forward:
  assumes "idb_inv (cl_store c)" "plane_ok (idb_plane (cl_store c))"
    and "gate_body cfg idb_api now g c = (res, c')"
    and "os_get r_id i (db_rows (cl_store c) t) = Some r" "os_get r_id i (db_rows (cl_store c') t) = Some r'"
    and "\<And>t' i' ack s. g \<noteq> Settle t' i' ack s Pessimistic"
  shows "r_version r \<le> r_version r'"
proof (cases "idb_plane (cl_store c') = idb_plane (cl_store c)")
  case True
  then have "Some r' = Some r" using assms(4,5) by (metis idb_plane_sel(1))
  then show ?thesis by simp
next
  case False
  then have step: "gate_body cfg (spec_api (api_kind idb_api) (\<lambda>x. x) (\<lambda>x. x)) now g (client_plane idb_plane c) =
      (res, client_plane idb_plane c')"
    using idb_gate_plane [OF assms(1,3)] by blast
  have "queue_ok (cl_store (client_plane idb_plane c))" using assms(2) by (simp add: plane_ok_def)
  from gate_version_mono [OF this step, of t i r r'] assms(4-6) show ?thesis by simp
qed

theorem idb_version_forward_witness:
  "\<exists>r'. os_get r_id ''n1'' (db_rows (cl_store (snd ack_step)) ''notes'') = Some r' \<and> 3 \<le> r_version r'"
proof -
  have "os_get r_id ''n1'' (db_rows (cl_store (snd ack_step)) ''notes'') \<noteq> None"
    by code_simp
  then obtain r' where r': "os_get r_id ''n1'' (db_rows (cl_store (snd ack_step)) ''notes'') = Some r'" by blast
  have r0: "os_get r_id ''n1'' (db_rows pending_idb ''notes'') = Some pending_row"
    by code_simp
  obtain res c' where r: "ack_step = (res, c')" by (cases ack_step)
  have "r_version pending_row \<le> r_version r'"
    using idb_version_forward [of "\<lparr>cl_store = pending_idb, cl_log = []\<rparr>", OF _ _ r [unfolded ack_step_def], of "''n1''" "''notes''" pending_row r']
      r0 r' [unfolded r snd_conv] by simp
  then show ?thesis using r' by (simp add: pending_row_def)
qed

section \<open>What callers are told\<close>

text \<open>A sender whose answers the abstract plane can follow, such as one that only talks to the network.\<close>

definition follows :: "string list \<Rightarrow> ('a \<Rightarrow> (idb client, jsval) op) \<Rightarrow> ('a \<Rightarrow> (plane client, jsval) op) \<Rightarrow> bool" where
  "follows tables send send' \<longleftrightarrow> (\<forall>w. implements_exactly (client_inv idb_inv) (client_inv (idb_ready tables))
     (client_plane idb_plane) (send w) (send' w))"

lemma follows_answer: "follows tables (\<lambda>w. lift_res (answer w)) (\<lambda>w. lift_res (answer w))"
  by (simp add: follows_def lift_res_exact)

text \<open>
  C7. The answer of a write over IndexedDB is true of the store when it is given: reported
  queued, the write is in the queue with the reported attempts; reported acknowledged, it
  has left the queue; rejected, it is a thrown failure of a write that is still queued. What
  happened while the request was in flight does not matter.
\<close>
theorem idb_write_truthful:
  assumes "idb_inv (cl_store c)" "idb_ready tables (cl_store c)"
    and quiet: "quiet_sink (cfg_sink cfg)" and table: "wc_table ctx \<in> set tables"
    and send: "follows tables send send'"
    and eq: "write_with cfg idb_api ctx policy i row (Some send) key now later c = (res, c')"
  shows "outcome_true policy (db_seq (cl_store c)) (idb_plane (cl_store c')) res"
proof -
  have "write_with cfg (spec_api (api_kind idb_api) (\<lambda>x. x) (\<lambda>x. x)) ctx policy i row (Some send') key now later
      (client_plane idb_plane c) = (res, client_plane idb_plane c')"
    using implements_exactlyD [OF idb.write_with_exact [OF table] _ _ eq, of "Some send'"] assms(1,2) send
    by (simp add: follows_def client_inv_def)
  from write_with_true [OF quiet _ this] show ?thesis by simp
qed

theorem idb_write_truthful_witness:
  "outcome_true \<lparr>pol_strategy = Optimistic, pol_failure_mode = ReturnResult, pol_telemetry = TelErrors\<rparr> 1
     (idb_plane (cl_store (snd (write_with sample_config idb_api
        \<lparr>wc_table = ''notes'', wc_op = Upsert, wc_mutation = Replace\<rparr>
        \<lparr>pol_strategy = Optimistic, pol_failure_mode = ReturnResult, pol_telemetry = TelErrors\<rparr>
        ''n1'' (JStr ''text'') (Some (\<lambda>w. lift_res (Inl (Err ''offline'')))) ''k1'' 9 9
        \<lparr>cl_store = fresh_idb [''notes''], cl_log = []\<rparr>))))
     (Inr (Write_queued 1 (Some (Err ''offline''))))"
proof -
  define ctx :: write_context where "ctx = \<lparr>wc_table = ''notes'', wc_op = Upsert, wc_mutation = Replace\<rparr>"
  define pol :: write_policy
    where "pol = \<lparr>pol_strategy = Optimistic, pol_failure_mode = ReturnResult, pol_telemetry = TelErrors\<rparr>"
  define out where "out = write_with sample_config idb_api ctx pol ''n1'' (JStr ''text'')
      (Some (\<lambda>w. lift_res (Inl (Err ''offline'')))) ''k1'' 9 9 \<lparr>cl_store = fresh_idb [''notes''], cl_log = []\<rparr>"
  have res: "fst out = Inr (Write_queued 1 (Some (Err ''offline'')))"
    unfolding out_def ctx_def pol_def by code_simp
  have "quiet_sink (cfg_sink sample_config)"
    by (simp add: sample_config_def quiet_sink_def quiet_span_def)
  moreover have "wc_table ctx \<in> set [''notes'']" by (simp add: ctx_def)
  moreover have "follows [''notes''] (\<lambda>w. lift_res (Inl (Err ''offline''))) (\<lambda>w. lift_res (Inl (Err ''offline'')))"
    by (rule follows_answer)
  ultimately have "outcome_true pol (db_seq (fresh_idb [''notes''])) (idb_plane (cl_store (snd out))) (fst out)"
    using idb_write_truthful [of "\<lparr>cl_store = fresh_idb [''notes''], cl_log = []\<rparr>" "[''notes'']" sample_config ctx,
        OF _ _ _ _ _ prod.collapse [symmetric], of "\<lambda>w. lift_res (Inl (Err ''offline''))"
          "\<lambda>w. lift_res (Inl (Err ''offline''))" pol "''n1''" "JStr ''text''" "''k1''" 9 9]
    unfolding out_def by simp
  then show ?thesis
    by (simp add: res fresh_idb_def) (simp add: out_def ctx_def pol_def fresh_idb_def)
qed

text \<open>
  C8. A flush that returns has flushed everything: its count is the length of the queue it
  found, and every one of those writes has left the queue, whatever was enqueued meanwhile.
\<close>
theorem idb_flush_complete:
  assumes "idb_inv (cl_store c)" "idb_ready tables (cl_store c)" "plane_ok (idb_plane (cl_store c))"
    and "\<forall>w \<in> set (db_queue (cl_store c)). qw_table w \<in> set tables"
    and send: "follows tables send send'"
    and runs: "\<And>w. op_runs cfg (spec_api (api_kind idb_api) (\<lambda>x. x) (\<lambda>x. x)) (send' w)"
    and eq: "flushQueue idb_api send onError now c = (Inr n, c')"
  shows "n = length (db_queue (cl_store c)) \<and>
    qw_seq ` set (db_queue (cl_store c)) \<inter> qw_seq ` set (db_queue (cl_store c')) = {}"
proof -
  have "flushQueue (spec_api (api_kind idb_api) (\<lambda>x. x) (\<lambda>x. x)) send' onError now (client_plane idb_plane c) =
      (Inr n, client_plane idb_plane c')"
    using idb.flushQueue_exact [OF _ _ assms(1,2) eq, of send'] assms(4) send by (simp add: follows_def)
  from flush_complete [OF _ runs this] show ?thesis using assms(3) by simp
qed

definition flushed :: "nat res \<times> idb client" where
  "flushed = flushQueue idb_api
     (\<lambda>w. lift_res (Inr (JObj [(''id'', JStr (qw_id w)), (''committed_version'', JNum (num 4))])))
     (\<lambda>_. None) 9 \<lparr>cl_store = pending_idb, cl_log = []\<rparr>"

theorem idb_flush_complete_witness:
  "fst flushed = Inr 1 \<and> 1 \<notin> qw_seq ` set (db_queue (cl_store (snd flushed)))"
proof -
  have res: "fst flushed = Inr 1" by code_simp
  then have eq: "flushQueue idb_api
     (\<lambda>w. lift_res (Inr (JObj [(''id'', JStr (qw_id w)), (''committed_version'', JNum (num 4))])))
     (\<lambda>_. None) 9 \<lparr>cl_store = pending_idb, cl_log = []\<rparr> = (Inr 1, snd flushed)"
    unfolding flushed_def by (simp add: prod_eq_iff)
  have "qw_seq ` set (db_queue pending_idb) \<inter> qw_seq ` set (db_queue (cl_store (snd flushed))) = {}"
    using idb_flush_complete [of "\<lparr>cl_store = pending_idb, cl_log = []\<rparr>" "[''notes'']", OF _ _ _ _ follows_answer _ eq,
        of sample_config]
    by (simp add: op_runs_lift) (simp add: pending_idb_def pending_write_def)
  then show ?thesis using res by (simp add: pending_idb_def pending_write_def)
qed



text \<open>
  A catch-up cannot turn in a circle: a page that is accepted and asks to go on, or that
  carries a change, moves the cursor strictly forward, inside the range of safe integers.
\<close>
lemma page_progress:
  assumes "check_page cursor page = Inr (changes, next_cursor, has_more)"
  shows "cursor \<le> next_cursor \<and> next_cursor \<le> MAX_SAFE \<and>
    \<not> ((has_more \<or> changes \<noteq> []) \<and> next_cursor = cursor)"
  using check_page_Inr [OF assms] by auto

section \<open>Reconciliation and delivery\<close>



text \<open>
  C12. A local edit that is not yet synced survives every incoming change, storage faults
  included, unless the change echoes one of the row's writes or conflicts with it: the record
  is kept to the letter.
\<close>
theorem pending_edit_survives:
  assumes "idb_inv (cl_store c)" "plane_ok (idb_plane (cl_store c))"
    and eq: "applyChange (Suc fuel) cfg idb_api ev now c = (res, c')"
    and "os_get r_id i (db_rows (cl_store c) t) = Some r" "r_dirty r"
    and "res \<noteq> Inr Echo_adopted" "res \<noteq> Inr Conflict_resolved"
  shows "os_get r_id i (db_rows (cl_store c') t) = Some r"
proof -
  have "receive (\<lambda>x. x) ev now (idb_plane (cl_store c)) = (res, idb_plane (cl_store c')) \<or>
      idb_plane (cl_store c') = idb_plane (cl_store c)"
    using idb.applyChange_atomic [OF assms(1,2) eq] by blast
  then have "p_rows (idb_plane (cl_store c')) t i = Some r"
  proof
    assume "receive (\<lambda>x. x) ev now (idb_plane (cl_store c)) = (res, idb_plane (cl_store c'))"
    then show ?thesis by (rule receive_keeps_dirty [OF assms(2) _ _ assms(5-7)]) (simp add: assms(4))
  next
    assume "idb_plane (cl_store c') = idb_plane (cl_store c)"
    then show ?thesis using assms(4) by simp
  qed
  then show ?thesis by simp
qed

definition stale_event :: change_event where
  "stale_event = sample_event\<lparr>ev_version := 2\<rparr>"

theorem pending_edit_survives_witness:
  "os_get r_id ''n1'' (db_rows (cl_store (snd (applyChange 1 sample_config idb_api stale_event 9
     \<lparr>cl_store = pending_idb, cl_log = []\<rparr>))) ''notes'') = Some pending_row"
proof -
  have res: "fst (applyChange (Suc 0) sample_config idb_api stale_event 9 \<lparr>cl_store = pending_idb, cl_log = []\<rparr>) =
      Inr Change_ignored" by code_simp
  have row: "os_get r_id ''n1'' (db_rows pending_idb ''notes'') = Some pending_row" "r_dirty pending_row"
    by code_simp+
  show ?thesis
    using pending_edit_survives [of "\<lparr>cl_store = pending_idb, cl_log = []\<rparr>" 0 sample_config stale_event 9,
        OF _ _ prod.collapse [symmetric]] res row
    by simp
qed

text \<open>
  C11. Delivery is idempotent: a change that was accepted other than by adopting an echo can
  be delivered again at any later time, is accepted again, and changes nothing but
  timestamps.
\<close>
theorem redelivery_idempotent:
  assumes "idb_inv (cl_store c)" "idb_ready tables (cl_store c)" "plane_ok (idb_plane (cl_store c))"
    and "ev_table ev \<in> set tables"
    and first: "applyChange (Suc fuel) cfg idb_api ev now c = (Inr out, c1)" and "out \<noteq> Echo_adopted"
    and again: "applyChange (Suc fuel) cfg idb_api ev later c1 = (res, c2)"
  shows "(\<exists>out'. res = Inr out') \<and> same_plane (idb_plane (cl_store c2)) (idb_plane (cl_store c1))"
proof -
  have one: "idb_inv (cl_store c1)" "idb_ready tables (cl_store c1)"
    "receive (\<lambda>x. x) ev now (idb_plane (cl_store c)) = (Inr out, idb_plane (cl_store c1))"
    using idb.applyChange_receive_exact [OF assms(1-4) first] by blast+
  have "plane_ok (idb_plane (cl_store c1))" by (rule receive_plane_ok [OF assms(3) one(3)])
  then have "receive (\<lambda>x. x) ev later (idb_plane (cl_store c1)) = (res, idb_plane (cl_store c2))"
    using idb.applyChange_receive_exact [OF one(1,2) _ assms(4) again] by blast
  then show ?thesis using receive_again [OF one(3) assms(6), of later] by auto
qed

theorem redelivery_idempotent_witness:
  "same_plane (idb_plane (cl_store (receive_all idb_api sample_config 9 [sample_event, sample_event]
       \<lparr>cl_store = pending_idb, cl_log = []\<rparr>)))
     (idb_plane (cl_store (receive_all idb_api sample_config 9 [sample_event] \<lparr>cl_store = pending_idb, cl_log = []\<rparr>)))"
proof -
  define c where "c = \<lparr>cl_store = pending_idb, cl_log = []\<rparr>"
  define c1 where "c1 = snd (applyChange (Suc 0) sample_config idb_api sample_event 9 c)"
  have "fst (applyChange (Suc 0) sample_config idb_api sample_event 9 c) = Inr Conflict_resolved"
    unfolding c_def by code_simp
  then have first: "applyChange (Suc 0) sample_config idb_api sample_event 9 c = (Inr Conflict_resolved, c1)"
    unfolding c1_def by (simp add: prod_eq_iff)
  have "same_plane (idb_plane (cl_store (snd (applyChange (Suc 0) sample_config idb_api sample_event 9 c1))))
      (idb_plane (cl_store c1))"
    using redelivery_idempotent [OF _ _ _ _ first _ prod.collapse [symmetric], of "[''notes'']"]
    by (simp add: c_def) (simp add: sample_event_def)
  then show ?thesis unfolding c_def [symmetric] by (simp add: c1_def One_nat_def)
qed

text \<open>
  C10. Replicas converge: any two deliveries of the same upserts over IndexedDB, in any order
  and with any repetition, leave a row without pending writes with the same contents, version
  and state, provided changes of one row and version carry one value.
\<close>
theorem replicas_converge:
  assumes "idb_inv (cl_store c)" "idb_ready tables (cl_store c)" "plane_ok (idb_plane (cl_store c))"
    and "ev_table ` set evs \<subseteq> set tables"
    and "\<forall>ev \<in> set evs. wasm_event_ok ev \<and> ev_op ev = Upsert" and "set evs' = set evs"
    and "\<forall>e \<in> set evs. \<forall>e' \<in> set evs. on_event t i e \<longrightarrow> on_event t i e' \<longrightarrow>
        ev_version e = ev_version e' \<longrightarrow> ev_row e = ev_row e'"
    and "case os_get r_id i (db_rows (cl_store c) t) of None \<Rightarrow> True | Some r \<Rightarrow> \<not> r_dirty r \<and> i64_ok (r_version r)"
    and "\<forall>w \<in> set (db_queue (cl_store c)). \<not> on_row t i w"
  shows "contents (os_get r_id i (db_rows (cl_store (receive_all idb_api cfg now evs c)) t)) =
    contents (os_get r_id i (db_rows (cl_store (receive_all idb_api cfg now evs' c)) t))"
proof -
  have "idb_plane (cl_store (receive_all idb_api cfg now es c)) = deliver (\<lambda>x. x) now es (idb_plane (cl_store c))"
    if "set es = set evs" for es
    using idb.receive_all_deliver [OF assms(1-3), of es cfg now] assms(4) that by simp
  then have "p_rows (idb_plane (cl_store (receive_all idb_api cfg now es c))) t i =
      p_rows (deliver (\<lambda>x. x) now es (idb_plane (cl_store c))) t i" if "set es = set evs" for es
    using that by simp
  then show ?thesis
    using deliver_converges [OF assms(5,6,7), of "idb_plane (cl_store c)" now] assms(6,8,9) by simp
qed

theorem replicas_converge_witness:
  "contents (os_get r_id ''n1'' (db_rows (cl_store (receive_all idb_api sample_config 9 [sample_event, stale_event]
      \<lparr>cl_store = fresh_idb [''notes''], cl_log = []\<rparr>)) ''notes'')) =
   contents (os_get r_id ''n1'' (db_rows (cl_store (receive_all idb_api sample_config 9 [stale_event, sample_event, stale_event]
      \<lparr>cl_store = fresh_idb [''notes''], cl_log = []\<rparr>)) ''notes''))"
proof (rule replicas_converge)
  show "\<forall>ev \<in> set [sample_event, stale_event]. wasm_event_ok ev \<and> ev_op ev = Upsert" by code_simp
  show "\<forall>e \<in> set [sample_event, stale_event]. \<forall>e' \<in> set [sample_event, stale_event].
      on_event ''notes'' ''n1'' e \<longrightarrow> on_event ''notes'' ''n1'' e' \<longrightarrow>
      ev_version e = ev_version e' \<longrightarrow> ev_row e = ev_row e'" by code_simp
  show "ev_table ` set [sample_event, stale_event] \<subseteq> set [''notes'']"
    by (simp add: sample_event_def stale_event_def)
  show "set [stale_event, sample_event, stale_event] = set [sample_event, stale_event]" by auto
qed (simp_all, simp_all add: fresh_idb_def os_get_def)

section \<open>Where the code departs from its intent\<close>

definition row_after :: "change_event list \<Rightarrow> idb \<Rightarrow> (jsval \<times> int \<times> bool) option" where
  "row_after evs db = contents (os_get r_id ''n1'' (db_rows (cl_store
     (receive_all idb_api sample_config 9 evs \<lparr>cl_store = db, cl_log = []\<rparr>)) ''notes''))"

text \<open>
  Without tombstones order does matter once a row is deleted: after a delete at version 5
  an upsert of version 4 that arrives late brings the row back, while in the other order the
  row stays deleted.
\<close>
lemma late_upsert_resurrects:
  "row_after [sample_event\<lparr>ev_version := 3\<rparr>, sample_event\<lparr>ev_op := Delete, ev_version := 5\<rparr>, sample_event]
     (fresh_idb [''notes'']) = Some (ev_row sample_event, 4, False) \<and>
   row_after [sample_event\<lparr>ev_version := 3\<rparr>, sample_event, sample_event\<lparr>ev_op := Delete, ev_version := 5\<rparr>]
     (fresh_idb [''notes'']) = None"
  by code_simp

definition two_pessimistic :: idb where
  "two_pessimistic = (fresh_idb [''notes''])\<lparr>db_queue :=
     [pending_write, pending_write\<lparr>qw_payload := JStr ''newer'', qw_seq := 2\<rparr>], db_seq := 3\<rparr>"

text \<open>
  Pessimistic settlement can take a row back: two pessimistic writes of one row are
  queued, the newer is acknowledged at version 6, then the older at version 5; the row ends
  at version 5 with the older payload, although that write was marked superseded at 6.
\<close>
lemma late_pessimistic_ack_regresses:
  "let d1 = snd (idb_settlePessimistic ''notes'' ''n1'' 2 6 9 two_pessimistic);
       d2 = snd (idb_settlePessimistic ''notes'' ''n1'' 1 5 9 d1)
   in contents (os_get r_id ''n1'' (db_rows d1 ''notes'')) = Some (JStr ''newer'', 6, True) \<and>
      map qw_superseded (db_queue d1) = [Some 6] \<and>
      contents (os_get r_id ''n1'' (db_rows d2 ''notes'')) = Some (JStr ''mine'', 5, False)"
  by code_simp

definition delete_pending :: idb where
  "delete_pending = (fresh_idb [''notes''])\<lparr>db_queue := [pending_write,
     pending_write\<lparr>qw_op := Delete, qw_payload := JNull, qw_key := Some ''k2'', qw_seq := 2\<rparr>], db_seq := 3\<rparr>"

definition echo_event :: change_event where
  "echo_event = sample_event\<lparr>ev_write_key := Some ''k1''\<rparr>"

text \<open>
  A pending optimistic delete can be lost to a repeated delivery: the echo of an older
  write of the row is adopted while the delete is queued; the same change delivered again is
  taken for a conflict, which drops the queued delete and restores the row.
\<close>
lemma repeated_echo_drops_delete:
  "let c1 = receive_all idb_api sample_config 9 [echo_event] \<lparr>cl_store = delete_pending, cl_log = []\<rparr>;
       c2 = receive_all idb_api sample_config 9 [echo_event] c1
   in map qw_op (db_queue (cl_store c1)) = [Delete] \<and> db_rows (cl_store c1) ''notes'' = [] \<and>
      db_queue (cl_store c2) = [] \<and>
      map r_row (db_rows (cl_store c2) ''notes'') = [ev_row echo_event]"
  by code_simp

definition throwing_config :: config where
  "throwing_config = \<lparr>cfg_default = \<lparr>pol_strategy = LocalQueue, pol_failure_mode = ReturnResult,
       pol_telemetry = TelLifecycle\<rparr>, cfg_resolve = (\<lambda>_. Inr JUndef),
     cfg_sink = \<lparr>sk_start = (\<lambda>_. Some \<lparr>sp_error = (\<lambda>_. None), sp_end = Some (Err ''exporter'')\<rparr>), sk_emit = (\<lambda>_. True)\<rparr>\<rparr>"

text \<open>
  A telemetry span that throws turns a write that is durably queued into a rejection: the
  span calls of a local-only write are not guarded.
\<close>
lemma throwing_span_rejects_write:
  "let (res, c) = write_row throwing_config idb_api ''notes'' ''n1'' (JStr ''text'') None JUndef JUndef JUndef ''k1'' 9 9
         \<lparr>cl_store = fresh_idb [''notes''], cl_log = []\<rparr>
   in res = Inl (Err ''exporter'') \<and> map qw_seq (db_queue (cl_store c)) = [1]"
  by code_simp

end
