(* ===== verification/Hlc.thy ===== *)
theory Hlc
  imports Sync_Prelude
begin

text \<open>
  The hybrid logical clock: hlc.mjs (\<open>clampWall\<close>, \<open>encodeHlc\<close>, \<open>decodeHlc\<close>, the clock of
  \<open>makeHlc\<close>) and the canonical Rust clock of hlc.rs it mirrors. Shown: the encoding is a
  bijection onto its canonical strings and an order embedding, stamps increase strictly
  until the clock is saturated, a stamp after an observation exceeds it, and the two
  implementations agree.
\<close>

definition HLC_MAX_WALL_MS :: int where "HLC_MAX_WALL_MS = 2 ^ 48 - 1"
definition HLC_MAX_COUNTER :: int where "HLC_MAX_COUNTER = 65535"

text \<open>\<^verbatim>\<open>Math.trunc\<close> of a finite number, and \<^verbatim>\<open>x | 0\<close>.\<close>

definition math_trunc :: "rat \<Rightarrow> int" where
  "math_trunc r = (if 0 \<le> r then \<lfloor>r\<rfloor> else \<lceil>r\<rceil>)"

fun to_int32 :: "jsnum \<Rightarrow> int" where
  "to_int32 (Fin r) = (math_trunc r + 2 ^ 31) mod 2 ^ 32 - 2 ^ 31"
| "to_int32 _ = 0"

fun clampWall :: "jsnum \<Rightarrow> int" where
  "clampWall (Fin r) = min (max (math_trunc r) 0) HLC_MAX_WALL_MS"
| "clampWall _ = 0"

definition clampCounter :: "jsnum \<Rightarrow> int" where
  "clampCounter n = min (max (to_int32 n) 0) HLC_MAX_COUNTER"

section \<open>The canonical encoding\<close>

definition hex_char :: "nat \<Rightarrow> char" where
  "hex_char d = char_of (if d < 10 then 48 + d else 87 + d)"

text \<open>\<^verbatim>\<open>n.toString(16)\<close> and \<^verbatim>\<open>s.padStart(w, "0")\<close>.\<close>

fun to_hex :: "nat \<Rightarrow> string" where
  "to_hex n = (if n < 16 then [hex_char n] else to_hex (n div 16) @ [hex_char (n mod 16)])"

declare to_hex.simps [simp del]

definition padStart :: "nat \<Rightarrow> string \<Rightarrow> string" where
  "padStart w s = replicate (w - length s) (CHR ''0'') @ s"

definition encodeHlc :: "jsnum \<Rightarrow> jsnum \<Rightarrow> string" where
  "encodeHlc wallMs counter =
     padStart 12 (to_hex (nat (clampWall wallMs))) @ ''-'' @
     padStart 4 (to_hex (nat (clampCounter counter)))"

definition is_hex :: "char \<Rightarrow> bool" where
  "is_hex c \<longleftrightarrow> (48 \<le> (of_char c :: nat) \<and> (of_char c :: nat) \<le> 57) \<or>
     (97 \<le> (of_char c :: nat) \<and> (of_char c :: nat) \<le> 102)"

definition hex_val :: "char \<Rightarrow> nat" where
  "hex_val c = (if (of_char c :: nat) \<le> 57 then of_char c - 48 else of_char c - 87)"

text \<open>\<^verbatim>\<open>Number.parseInt(text, 16)\<close> of hexadecimal digits.\<close>

definition parse_hex :: "string \<Rightarrow> nat" where
  "parse_hex s = foldl (\<lambda>acc c. 16 * acc + hex_val c) 0 s"

fun decodeHlc :: "jsval \<Rightarrow> (nat \<times> nat) option" where
  "decodeHlc (JStr text) =
     (if length text = 17 \<and> list_all is_hex (take 12 text) \<and> text ! 12 = CHR ''-'' \<and>
         list_all is_hex (drop 13 text)
      then Some (parse_hex (take 12 text), parse_hex (drop 13 text)) else None)"
| "decodeHlc _ = None"

section \<open>The clock\<close>

record hlc =
  hlc_wall :: int
  hlc_counter :: int

text \<open>\<^verbatim>\<open>makeHlc({ state })\<close>: a missing state or field counts as 0.\<close>

definition makeHlc :: "jsnum \<Rightarrow> jsnum \<Rightarrow> hlc" where
  "makeHlc wallMs counter = \<lparr>hlc_wall = clampWall wallMs, hlc_counter = clampCounter counter\<rparr>"

definition advance :: "int \<Rightarrow> int \<Rightarrow> hlc" where
  "advance nextWall nextCounter =
     (if nextCounter > HLC_MAX_COUNTER then
        let rolled = clampWall (num (nextWall + 1)) in
        \<lparr>hlc_wall = rolled, hlc_counter = (if rolled > nextWall then 0 else HLC_MAX_COUNTER)\<rparr>
      else \<lparr>hlc_wall = nextWall, hlc_counter = nextCounter\<rparr>)"

text \<open>The stamp issued is the clock's new state; \<open>hlc_encoded\<close> is its encoding.\<close>

definition tick :: "jsnum \<Rightarrow> hlc \<Rightarrow> hlc" where
  "tick now c =
     (let wall = clampWall now in
      if wall > hlc_wall c then advance wall 0 else advance (hlc_wall c) (hlc_counter c + 1))"

definition observe :: "jsnum \<Rightarrow> jsnum \<Rightarrow> hlc \<Rightarrow> hlc" where
  "observe remoteMs now c =
     (let remote = clampWall remoteMs;
          wall = max (max (hlc_wall c) remote) (clampWall now) in
      if wall = hlc_wall c then advance wall (hlc_counter c + 1)
      else if wall = remote then advance wall 1
      else advance wall 0)"

definition hlc_encoded :: "hlc \<Rightarrow> string" where
  "hlc_encoded c = encodeHlc (num (hlc_wall c)) (num (hlc_counter c))"

section \<open>The Rust clock\<close>

definition rust_clamp_wall :: "int \<Rightarrow> int" where
  "rust_clamp_wall ms = min (max ms 0) HLC_MAX_WALL_MS"

definition rust_encode :: "int \<Rightarrow> nat \<Rightarrow> string" where
  "rust_encode wall_ms counter =
     padStart 12 (to_hex (nat (rust_clamp_wall wall_ms))) @ ''-'' @ padStart 4 (to_hex (counter mod 65536))"

definition rust_from_state :: "int \<Rightarrow> int \<Rightarrow> hlc" where
  "rust_from_state wall_ms counter =
     \<lparr>hlc_wall = rust_clamp_wall wall_ms, hlc_counter = min counter HLC_MAX_COUNTER\<rparr>"

definition rust_advance :: "int \<Rightarrow> int \<Rightarrow> hlc" where
  "rust_advance wall_ms counter =
     (if counter > HLC_MAX_COUNTER then
        let wall = rust_clamp_wall (min (wall_ms + 1) (2 ^ 63 - 1)) in
        \<lparr>hlc_wall = wall, hlc_counter = (if wall > wall_ms then 0 else HLC_MAX_COUNTER)\<rparr>
      else \<lparr>hlc_wall = wall_ms, hlc_counter = counter\<rparr>)"

definition rust_tick :: "int \<Rightarrow> hlc \<Rightarrow> hlc" where
  "rust_tick now_ms c =
     (let now = rust_clamp_wall now_ms in
      if now > hlc_wall c then rust_advance now 0 else rust_advance (hlc_wall c) (hlc_counter c + 1))"

definition rust_observe :: "int \<Rightarrow> int \<Rightarrow> hlc \<Rightarrow> hlc" where
  "rust_observe remote_ms now_ms c =
     (let remote = rust_clamp_wall remote_ms; now = rust_clamp_wall now_ms;
          wall = max (max (hlc_wall c) remote) now in
      if wall = hlc_wall c then rust_advance wall (hlc_counter c + 1)
      else if wall = remote then rust_advance wall 1
      else rust_advance wall 0)"

section \<open>Monotonic stamps\<close>

definition hlc_ok :: "hlc \<Rightarrow> bool" where
  "hlc_ok c \<longleftrightarrow> 0 \<le> hlc_wall c \<and> hlc_wall c \<le> HLC_MAX_WALL_MS \<and>
     0 \<le> hlc_counter c \<and> hlc_counter c \<le> HLC_MAX_COUNTER"

text \<open>Causal order: by wall clock, then by counter.\<close>

definition stamp_less :: "hlc \<Rightarrow> hlc \<Rightarrow> bool" where
  "stamp_less a b \<longleftrightarrow> hlc_wall a < hlc_wall b \<or> hlc_wall a = hlc_wall b \<and> hlc_counter a < hlc_counter b"

definition saturated :: "hlc \<Rightarrow> bool" where
  "saturated c \<longleftrightarrow> hlc_wall c = HLC_MAX_WALL_MS \<and> hlc_counter c = HLC_MAX_COUNTER"

lemma math_trunc_int [simp]: "math_trunc (of_int i) = i"
  by (simp add: math_trunc_def)

lemma clampWall_num [simp]: "clampWall (num i) = min (max i 0) HLC_MAX_WALL_MS"
  by (simp add: num_def)

lemma clampWall_bounds: "0 \<le> clampWall n" "clampWall n \<le> HLC_MAX_WALL_MS"
  by (cases n; simp add: HLC_MAX_WALL_MS_def)+

lemma clampCounter_bounds: "0 \<le> clampCounter n" "clampCounter n \<le> HLC_MAX_COUNTER"
  by (simp_all add: clampCounter_def HLC_MAX_COUNTER_def)

lemma clampCounter_num: "0 \<le> i \<Longrightarrow> i \<le> HLC_MAX_COUNTER \<Longrightarrow> clampCounter (num i) = i"
  by (simp add: clampCounter_def num_def HLC_MAX_COUNTER_def)

lemma makeHlc_ok: "hlc_ok (makeHlc w n)"
  by (simp add: hlc_ok_def makeHlc_def clampWall_bounds clampCounter_bounds)

lemma advance_ok:
  "0 \<le> w \<Longrightarrow> w \<le> HLC_MAX_WALL_MS \<Longrightarrow> 0 \<le> n \<Longrightarrow> hlc_ok (advance w n)"
  by (auto simp: hlc_ok_def advance_def Let_def HLC_MAX_COUNTER_def HLC_MAX_WALL_MS_def)

lemma hlc_okD:
  "hlc_ok c \<Longrightarrow> 0 \<le> hlc_wall c" "hlc_ok c \<Longrightarrow> hlc_wall c \<le> HLC_MAX_WALL_MS"
  "hlc_ok c \<Longrightarrow> 0 \<le> hlc_counter c" "hlc_ok c \<Longrightarrow> hlc_counter c \<le> HLC_MAX_COUNTER"
  by (simp_all add: hlc_ok_def)

lemma tick_ok: "hlc_ok c \<Longrightarrow> hlc_ok (tick now c)"
  by (simp add: tick_def Let_def advance_ok clampWall_bounds hlc_okD)

lemma observe_ok: "hlc_ok c \<Longrightarrow> hlc_ok (observe remote now c)"
  by (simp add: observe_def Let_def advance_ok clampWall_bounds hlc_okD le_max_iff_disj)

text \<open>A step of the counter goes strictly forward, rolling the wall when it must.\<close>

lemma advance_less:
  "hlc_ok c \<Longrightarrow> \<not> saturated c \<Longrightarrow> stamp_less c (advance (hlc_wall c) (hlc_counter c + 1))"
  by (auto simp: stamp_less_def advance_def hlc_ok_def saturated_def Let_def HLC_MAX_COUNTER_def
      HLC_MAX_WALL_MS_def)

lemma advance_small: "0 \<le> n \<Longrightarrow> n \<le> 1 \<Longrightarrow> advance w n = \<lparr>hlc_wall = w, hlc_counter = n\<rparr>"
  by (simp add: advance_def HLC_MAX_COUNTER_def)

lemma tick_less: "hlc_ok c \<Longrightarrow> \<not> saturated c \<Longrightarrow> stamp_less c (tick now c)"
  using advance_less [of c] by (auto simp: tick_def Let_def advance_small stamp_less_def)

lemma observe_less: "hlc_ok c \<Longrightarrow> \<not> saturated c \<Longrightarrow> stamp_less c (observe remote now c)"
  using advance_less [of c]
  by (auto simp: observe_def Let_def advance_small stamp_less_def max_def split: if_splits)

text \<open>A stamp issued at an observation is strictly past the observed time itself.\<close>

lemma observe_after_remote:
  assumes "hlc_ok c" "\<not> saturated c"
  shows "stamp_less \<lparr>hlc_wall = clampWall remote, hlc_counter = 0\<rparr> (observe remote now c)"
proof -
  let ?w = "max (max (hlc_wall c) (clampWall remote)) (clampWall now)"
  have "clampWall remote \<le> ?w" by simp
  show ?thesis
  proof (cases "?w = hlc_wall c")
    case True
    then have "stamp_less c (observe remote now c)" "clampWall remote \<le> hlc_wall c"
      using observe_less [OF assms] by auto
    then show ?thesis using assms(1) by (auto simp: stamp_less_def hlc_ok_def)
  next
    case False
    then show ?thesis
      by (auto simp: observe_def Let_def advance_small stamp_less_def max_def split: if_splits)
  qed
qed


section \<open>The encoding is canonical and ordered\<close>

text \<open>Hexadecimal digits at a fixed width.\<close>

fun hex_fixed :: "nat \<Rightarrow> nat \<Rightarrow> string" where
  "hex_fixed 0 n = []"
| "hex_fixed (Suc k) n = hex_fixed k (n div 16) @ [hex_char (n mod 16)]"

lemma length_hex_fixed [simp]: "length (hex_fixed k n) = k"
  by (induction k arbitrary: n) auto

lemma hex_char_0 [simp]: "hex_char 0 = CHR ''0''"
  by code_simp

lemma hex_fixed_0 [simp]: "hex_fixed k 0 = replicate k (CHR ''0'')"
  by (induction k) (simp_all add: replicate_append_same)

lemma padStart_snoc: "length s \<le> w \<Longrightarrow> padStart (Suc w) (s @ [x]) = padStart w s @ [x]"
  by (simp add: padStart_def)

lemma length_to_hex: "n < 16 ^ k \<Longrightarrow> 0 < k \<Longrightarrow> length (to_hex n) \<le> k"
proof (induction n arbitrary: k rule: to_hex.induct)
  case (1 n)
  show ?case
  proof (cases "n < 16")
    case True
    then show ?thesis using 1 by (simp add: to_hex.simps)
  next
    case False
    with 1 obtain j where k: "k = Suc j" "0 < j" by (cases k; cases "k - 1") auto
    have "n div 16 < 16 ^ j" using 1(2) k by (simp add: less_mult_imp_div_less)
    then show ?thesis using 1(1) [OF False] k False by (simp add: to_hex.simps)
  qed
qed

lemma pad_hex: "n < 16 ^ Suc k \<Longrightarrow> padStart (Suc k) (to_hex n) = hex_fixed (Suc k) n"
proof (induction k arbitrary: n)
  case 0
  then show ?case by (simp add: to_hex.simps padStart_def)
next
  case (Suc k)
  show ?case
  proof (cases "n < 16")
    case True
    then have "padStart (Suc (Suc k)) (to_hex n) = replicate (Suc k) (CHR ''0'') @ [hex_char n]"
      by (simp add: to_hex.simps [of n] padStart_def)
    moreover have "hex_fixed (Suc (Suc k)) n = hex_fixed (Suc k) 0 @ [hex_char n]"
      using True by simp
    ultimately show ?thesis by (simp only: hex_fixed_0)
  next
    case False
    have d: "n div 16 < 16 ^ Suc k" using Suc.prems by (simp add: less_mult_imp_div_less)
    have "padStart (Suc (Suc k)) (to_hex n) = padStart (Suc k) (to_hex (n div 16)) @ [hex_char (n mod 16)]"
      using length_to_hex [OF d] by (simp add: to_hex.simps [of n] False padStart_snoc)
    then show ?thesis using Suc.IH [OF d] by simp
  qed
qed

lemma hex_char_val: "d < 16 \<Longrightarrow> hex_val (hex_char d) = d \<and> is_hex (hex_char d)"
  by (auto simp: hex_char_def hex_val_def is_hex_def of_char_of)

lemma hex_val_char: "is_hex c \<Longrightarrow> hex_char (hex_val c) = c \<and> hex_val c < 16"
  by (auto simp: hex_char_def hex_val_def is_hex_def)

lemma parse_snoc [simp]: "parse_hex [] = 0" "parse_hex (s @ [c]) = 16 * parse_hex s + hex_val c"
  by (simp_all add: parse_hex_def)

lemma parse_hex_fixed: "n < 16 ^ k \<Longrightarrow> parse_hex (hex_fixed k n) = n \<and> list_all is_hex (hex_fixed k n)"
proof (induction k arbitrary: n)
  case 0
  then show ?case by simp
next
  case (Suc k)
  have "n div 16 < 16 ^ k" using Suc.prems by (simp add: less_mult_imp_div_less)
  with Suc.IH show ?case by (auto simp: hex_char_val)
qed

lemma hex_fixed_parse:
  "list_all is_hex s \<Longrightarrow> hex_fixed (length s) (parse_hex s) = s \<and> parse_hex s < 16 ^ length s"
proof (induction s rule: rev_induct)
  case Nil
  then show ?case by simp
next
  case (snoc c s)
  have "hex_char (hex_val c) = c" "hex_val c < 16"
    using snoc.prems hex_val_char [of c] by auto
  moreover have "(16 * parse_hex s + hex_val c) div 16 = parse_hex s"
    "(16 * parse_hex s + hex_val c) mod 16 = hex_val c"
    using \<open>hex_val c < 16\<close> by simp_all
  ultimately show ?case using snoc by simp
qed

text \<open>Fixed-width digits compare like the numbers.\<close>

lemma hex_char_less: "a < 16 \<Longrightarrow> b < 16 \<Longrightarrow> hex_char a < hex_char b \<longleftrightarrow> a < b"
  by (auto simp: hex_char_def less_char_def of_char_of)

lemma snoc_less:
  "length xs = length ys \<Longrightarrow> (xs @ [a] < ys @ [b]) \<longleftrightarrow> (xs < ys \<or> xs = ys \<and> a < (b :: 'a :: linorder))"
  by (induction xs ys rule: list_induct2) auto

lemma append_less:
  "length xs = length ys \<Longrightarrow> (xs @ us < ys @ vs) \<longleftrightarrow> (xs < ys \<or> xs = ys \<and> us < (vs :: 'a :: linorder list))"
  by (induction xs ys rule: list_induct2) auto

lemma hex_fixed_inj: "n < 16 ^ k \<Longrightarrow> m < 16 ^ k \<Longrightarrow> hex_fixed k n = hex_fixed k m \<longleftrightarrow> n = m"
  using parse_hex_fixed by metis

lemma digits_less:
  fixes a b c d :: nat
  assumes "b < 16" "d < 16"
  shows "a < c \<or> a = c \<and> b < d \<longleftrightarrow> 16 * a + b < 16 * c + d"
  using assms by (cases a c rule: linorder_cases) auto

lemma hex_fixed_less:
  "n < 16 ^ k \<Longrightarrow> m < 16 ^ k \<Longrightarrow> hex_fixed k n < hex_fixed k m \<longleftrightarrow> n < m"
proof (induction k arbitrary: n m)
  case 0
  then show ?case by simp
next
  case (Suc k)
  have d: "n div 16 < 16 ^ k" "m div 16 < 16 ^ k"
    using Suc.prems by (simp_all add: less_mult_imp_div_less)
  have "hex_fixed (Suc k) n < hex_fixed (Suc k) m \<longleftrightarrow>
      n div 16 < m div 16 \<or> n div 16 = m div 16 \<and> n mod 16 < m mod 16"
    using Suc.IH [OF d] hex_fixed_inj [OF d] by (simp add: snoc_less hex_char_less)
  also have "\<dots> \<longleftrightarrow> 16 * (n div 16) + n mod 16 < 16 * (m div 16) + m mod 16"
    by (rule digits_less) simp_all
  also have "\<dots> \<longleftrightarrow> n < m" by simp
  finally show ?case .
qed

lemma encode_fixed:
  assumes "0 \<le> w" "w \<le> HLC_MAX_WALL_MS" "0 \<le> n" "n \<le> HLC_MAX_COUNTER"
  shows "encodeHlc (num w) (num n) = hex_fixed 12 (nat w) @ ''-'' @ hex_fixed 4 (nat n)"
proof -
  have "nat w < 16 ^ Suc 11" "nat n < 16 ^ Suc 3"
    using assms by (simp_all add: HLC_MAX_WALL_MS_def HLC_MAX_COUNTER_def nat_less_iff)
  from pad_hex [OF this(1)] pad_hex [OF this(2)] show ?thesis
    using assms by (simp add: encodeHlc_def clampCounter_num numeral_eq_Suc del: hex_fixed.simps)
qed

lemma encoded_fixed:
  "hlc_ok c \<Longrightarrow> hlc_encoded c = hex_fixed 12 (nat (hlc_wall c)) @ ''-'' @ hex_fixed 4 (nat (hlc_counter c))"
  unfolding hlc_encoded_def by (rule encode_fixed) (simp_all add: hlc_okD)

lemma hlc_ok_nat:
  assumes "hlc_ok c" shows "nat (hlc_wall c) < 16 ^ 12" "nat (hlc_counter c) < 16 ^ 4"
  using hlc_okD [OF assms] by (simp_all add: HLC_MAX_WALL_MS_def HLC_MAX_COUNTER_def nat_less_iff)

lemma decode_fixed:
  assumes "length x = 12" "length y = 4"
  shows "decodeHlc (JStr (x @ CHR ''-'' # y)) =
    (if list_all is_hex x \<and> list_all is_hex y then Some (parse_hex x, parse_hex y) else None)"
  using assms by (simp add: nth_append)

lemma decode_encoded:
  assumes "hlc_ok c"
  shows "decodeHlc (JStr (hlc_encoded c)) = Some (nat (hlc_wall c), nat (hlc_counter c))"
  unfolding encoded_fixed [OF assms]
  using parse_hex_fixed [OF hlc_ok_nat(1) [OF assms]] parse_hex_fixed [OF hlc_ok_nat(2) [OF assms]]
  by (simp add: decode_fixed del: decodeHlc.simps hex_fixed.simps)

lemma encode_decoded:
  assumes "decodeHlc (JStr text) = Some (w, n)"
  shows "encodeHlc (num (int w)) (num (int n)) = text"
proof -
  have len: "length text = 17" and hx: "list_all is_hex (take 12 text)" "list_all is_hex (drop 13 text)"
    and dash: "text ! 12 = CHR ''-''" and w: "w = parse_hex (take 12 text)" "n = parse_hex (drop 13 text)"
    using assms by (auto split: if_splits)
  have t: "hex_fixed 12 w = take 12 text" "w < 16 ^ 12"
    using hex_fixed_parse [OF hx(1)] len w by simp_all
  have d: "hex_fixed 4 n = drop 13 text" "n < 16 ^ 4"
    using hex_fixed_parse [OF hx(2)] len w by simp_all
  have "int w \<le> HLC_MAX_WALL_MS" "int n \<le> HLC_MAX_COUNTER"
    using t(2) d(2) by (simp_all add: HLC_MAX_WALL_MS_def HLC_MAX_COUNTER_def)
  then have "encodeHlc (num (int w)) (num (int n)) = take 12 text @ ''-'' @ drop 13 text"
    using encode_fixed [of "int w" "int n"] t(1) d(1) by simp
  also have "\<dots> = text"
    using id_take_nth_drop [of 12 "text"] len dash by simp
  finally show ?thesis .
qed

lemma encoded_less:
  assumes "hlc_ok a" "hlc_ok b"
  shows "hlc_encoded a < hlc_encoded b \<longleftrightarrow> stamp_less a b"
proof -
  let ?w = "\<lambda>c. hex_fixed 12 (nat (hlc_wall c))" and ?n = "\<lambda>c. hex_fixed 4 (nat (hlc_counter c))"
  have "hlc_encoded a < hlc_encoded b \<longleftrightarrow> ?w a < ?w b \<or> ?w a = ?w b \<and> ?n a < ?n b"
    unfolding encoded_fixed [OF assms(1)] encoded_fixed [OF assms(2)]
    by (subst append_less) simp_all
  also have "\<dots> \<longleftrightarrow> nat (hlc_wall a) < nat (hlc_wall b) \<or>
      nat (hlc_wall a) = nat (hlc_wall b) \<and> nat (hlc_counter a) < nat (hlc_counter b)"
    using hlc_ok_nat [OF assms(1)] hlc_ok_nat [OF assms(2)] by (simp only: hex_fixed_less hex_fixed_inj)
  also have "\<dots> \<longleftrightarrow> stamp_less a b"
    using hlc_okD [OF assms(1)] hlc_okD [OF assms(2)] by (auto simp: stamp_less_def nat_less_eq_zless)
  finally show ?thesis .
qed

section \<open>The two implementations\<close>

lemma rust_clamp [simp]: "clampWall (num i) = rust_clamp_wall i"
  by (simp add: rust_clamp_wall_def)

lemma rust_advance_eq:
  "0 \<le> w \<Longrightarrow> w \<le> HLC_MAX_WALL_MS \<Longrightarrow> rust_advance w n = advance w n"
  by (simp add: rust_advance_def advance_def rust_clamp_wall_def HLC_MAX_WALL_MS_def min_def)

lemma rust_clamp_bounds: "0 \<le> rust_clamp_wall i" "rust_clamp_wall i \<le> HLC_MAX_WALL_MS"
  by (simp_all add: rust_clamp_wall_def HLC_MAX_WALL_MS_def)

lemma rust_agrees:
  assumes "hlc_ok c"
  shows "rust_tick i c = tick (num i) c" "rust_observe j i c = observe (num j) (num i) c"
  using hlc_okD [OF assms]
  by (simp_all add: rust_tick_def tick_def rust_observe_def observe_def Let_def rust_advance_eq
      rust_clamp_bounds le_max_iff_disj del: clampWall_num)

lemma rust_encode_eq:
  "hlc_ok c \<Longrightarrow> rust_encode (hlc_wall c) (nat (hlc_counter c)) = hlc_encoded c"
proof -
  assume ok: "hlc_ok c"
  have "nat (hlc_counter c) mod 65536 = nat (hlc_counter c)"
    using hlc_ok_nat(2) [OF ok] by simp
  then show "rust_encode (hlc_wall c) (nat (hlc_counter c)) = hlc_encoded c"
    using hlc_okD [OF ok] by (simp add: rust_encode_def hlc_encoded_def encodeHlc_def clampCounter_num
        del: clampWall_num)
qed

text \<open>Outside the counter's range the two encoders part: one clamps, the other masks.\<close>

text \<open>Outside the counter's range the two encoders part: one clamps, the other masks.\<close>

lemma encode_overflow:
  "encodeHlc (num 5) (num 65536) = ''000000000005-ffff''"
  "rust_encode 5 65536 = ''000000000005-0000''"
   apply (simp add: encodeHlc_def clampCounter_def num_def HLC_MAX_COUNTER_def HLC_MAX_WALL_MS_def
      to_hex.simps hex_char_def padStart_def math_trunc_def)
   apply code_simp
  apply (simp add: rust_encode_def rust_clamp_wall_def HLC_MAX_WALL_MS_def to_hex.simps hex_char_def padStart_def)
  apply code_simp
  done

section \<open>Histories of a clock\<close>

text \<open>Any interleaving of local stamps and observations, and the stamps it issues.\<close>

datatype clock_event = Tick jsnum | Observe jsnum jsnum

fun clock_step :: "clock_event \<Rightarrow> hlc \<Rightarrow> hlc" where
  "clock_step (Tick now) c = tick now c"
| "clock_step (Observe remote now) c = observe remote now c"

fun stamps :: "clock_event list \<Rightarrow> hlc \<Rightarrow> hlc list" where
  "stamps [] c = []"
| "stamps (e # es) c = clock_step e c # stamps es (clock_step e c)"

lemma clock_step_ok: "hlc_ok c \<Longrightarrow> hlc_ok (clock_step e c)"
  by (cases e) (simp_all add: tick_ok observe_ok)

lemma clock_step_less: "hlc_ok c \<Longrightarrow> \<not> saturated c \<Longrightarrow> stamp_less c (clock_step e c)"
  by (cases e) (simp_all add: tick_less observe_less)

lemma stamps_ok: "hlc_ok c \<Longrightarrow> list_all hlc_ok (stamps es c)"
  by (induction es arbitrary: c) (simp_all add: clock_step_ok)

lemma stamp_less_trans: "stamp_less a b \<Longrightarrow> stamp_less b c \<Longrightarrow> stamp_less a c"
  by (auto simp: stamp_less_def)

lemma stamps_increase:
  "hlc_ok c \<Longrightarrow> list_all (\<lambda>d. \<not> saturated d) (c # stamps es c) \<Longrightarrow>
     sorted_wrt stamp_less (c # stamps es c)"
proof (induction es arbitrary: c)
  case Nil
  then show ?case by simp
next
  case (Cons e es)
  have step: "stamp_less c (clock_step e c)" using Cons.prems by (simp add: clock_step_less)
  have rest: "sorted_wrt stamp_less (clock_step e c # stamps es (clock_step e c))"
    using Cons.prems by (intro Cons.IH) (simp_all add: clock_step_ok)
  show ?case using step rest stamp_less_trans by auto
qed

lemma sorted_wrt_encoded:
  "list_all hlc_ok cs \<Longrightarrow> sorted_wrt stamp_less cs \<Longrightarrow> sorted_wrt (<) (map hlc_encoded cs)"
  by (induction cs) (auto simp: list_all_iff encoded_less)

text \<open>
  C26. Whatever a clock sees (local stamps and observations of remote clocks, with wall
  readings in any order, going backwards included), the encoded stamps it issues increase
  strictly as strings, as long as it is not saturated at the end of the 48-bit range.
\<close>
theorem hlc_history_increases:
  assumes "hlc_ok c" and "list_all (\<lambda>d. \<not> saturated d) (c # stamps es c)"
  shows "sorted_wrt (<) (map hlc_encoded (c # stamps es c))"
  by (rule sorted_wrt_encoded [OF _ stamps_increase [OF assms]]) (simp add: assms(1) stamps_ok)

theorem hlc_history_increases_witness:
  "sorted_wrt (<) (map hlc_encoded (makeHlc (num 7) (num 65535) #
     stamps [Tick (num 3), Observe (num 9) (num 2), Tick NaN] (makeHlc (num 7) (num 65535))))"
  by (rule hlc_history_increases) (code_simp, code_simp)

text \<open>
  A stamp issued on observing a remote clock comes after the clock's previous state and
  after the observed instant, and is again a valid state.
\<close>
lemma observe_dominates:
  assumes "hlc_ok c" "\<not> saturated c"
  shows "stamp_less c (observe remote now c) \<and> hlc_ok (observe remote now c) \<and>
    stamp_less \<lparr>hlc_wall = clampWall remote, hlc_counter = 0\<rparr> (observe remote now c)"
  using assms by (simp add: observe_less observe_ok observe_after_remote)

lemma encoded_stamp: "encodeHlc (num (int w)) (num (int n)) = hlc_encoded \<lparr>hlc_wall = int w, hlc_counter = int n\<rparr>"
  by (simp add: hlc_encoded_def)

lemma decoded_ok:
  assumes "decodeHlc (JStr s) = Some (w, n)"
  shows "hlc_ok \<lparr>hlc_wall = int w, hlc_counter = int n\<rparr>"
proof -
  have "length s = 17" "list_all is_hex (take 12 s)" "list_all is_hex (drop 13 s)"
    and w: "w = parse_hex (take 12 s)" "n = parse_hex (drop 13 s)"
    using assms by (auto split: if_splits)
  then have "w < 16 ^ 12" "n < 16 ^ 4"
    using hex_fixed_parse [of "take 12 s"] hex_fixed_parse [of "drop 13 s"] by simp_all
  then show ?thesis
    by (simp add: hlc_ok_def HLC_MAX_WALL_MS_def HLC_MAX_COUNTER_def)
qed

text \<open>
  C27. Encoding and decoding are inverse: a text decodes to a stamp exactly when the stamp is a
  valid clock state and the text is its encoding. So no stamp is lost and no two texts stand
  for one stamp.
\<close>
theorem hlc_roundtrip:
  "decodeHlc (JStr s) = Some (w, n) \<longleftrightarrow>
     hlc_ok \<lparr>hlc_wall = int w, hlc_counter = int n\<rparr> \<and>
     s = hlc_encoded \<lparr>hlc_wall = int w, hlc_counter = int n\<rparr>"
  using decoded_ok [of s w n] encode_decoded [of s w n] decode_encoded [of "\<lparr>hlc_wall = int w, hlc_counter = int n\<rparr>"]
  by (auto simp: encoded_stamp simp del: decodeHlc.simps)

text \<open>
  C28. The JavaScript clock and the canonical Rust clock issue the same states and the same
  encodings from every valid state, for every integer wall reading.
\<close>
theorem hlc_rust_equivalent:
  assumes "hlc_ok c"
  shows "rust_tick i c = tick (num i) c \<and> rust_observe j i c = observe (num j) (num i) c \<and>
    rust_encode (hlc_wall c) (nat (hlc_counter c)) = hlc_encoded c"
  using assms by (simp add: rust_agrees rust_encode_eq)

theorem hlc_rust_equivalent_witness:
  "rust_tick 5 (makeHlc (num 9) (num 65535)) = tick (num 5) (makeHlc (num 9) (num 65535))"
  using hlc_rust_equivalent [OF makeHlc_ok [of "num 9" "num 65535"], of 5 0] by simp

text \<open>
  Outside the 16-bit range the two encoders part: encodeHlc clamps a counter of 65536
  to ffff, while the canonical Rust encoder masks it to 0000.
\<close>
lemma hlc_encoders_part:
  "encodeHlc (num 5) (num 65536) = ''000000000005-ffff'' \<and>
   rust_encode 5 65536 = ''000000000005-0000''"
  by (simp add: encode_overflow)

end
