(* ===== verification/Validate.thy ===== *)
theory Validate
  imports Sync_Client
begin

text \<open>
  The schema validator (validate.mjs): the load-time check that a schema stays inside the
  supported keywords, the interpreter with its depth cap, and the validator object. Texts of
  violations are constructors; the values they interpolate are their arguments.
\<close>

section \<open>Values as the validator sees them\<close>

text \<open>
  The own enumerable properties of a value that counts as a plain object here: any object
  that is no array and no function. For an opaque object these are the properties of its
  JSON image.
\<close>

fun obj_props :: "jsval \<Rightarrow> props option" where
  "obj_props (JObj ps) = Some ps"
| "obj_props (JOpaque c j) =
     (if c = ''Function'' then None else Some (case j of JObj ps \<Rightarrow> ps | _ \<Rightarrow> []))"
| "obj_props _ = None"

definition isPlainValue :: "jsval \<Rightarrow> bool" where
  "isPlainValue v \<longleftrightarrow> obj_props v \<noteq> None"

definition fld :: "jsval \<Rightarrow> string \<Rightarrow> jsval" where
  "fld v k = (case obj_props v of Some ps \<Rightarrow> js_get ps k | None \<Rightarrow> JUndef)"

definition has_own :: "props \<Rightarrow> string \<Rightarrow> bool" where
  "has_own ps k \<longleftrightarrow> k \<in> fst ` set ps"

definition typeName :: "jsval \<Rightarrow> string" where
  "typeName v =
     (if v = JNull then ''null''
      else if is_arr v then ''array''
      else case v of
        JNum n \<Rightarrow> if num_int n \<noteq> None then ''integer'' else ''number''
      | _ \<Rightarrow> typeof v)"

definition matchesType :: "jsval \<Rightarrow> jsval \<Rightarrow> bool" where
  "matchesType name v =
     (if name = JStr ''object'' then isPlainValue v
      else if name = JStr ''array'' then is_arr v
      else if name = JStr ''string'' then typeof v = ''string''
      else if name = JStr ''boolean'' then typeof v = ''boolean''
      else if name = JStr ''null'' then v = JNull
      else if name = JStr ''number'' then (case v of JNum (Fin r) \<Rightarrow> True | _ \<Rightarrow> False)
      else if name = JStr ''integer'' then (case v of JNum n \<Rightarrow> num_int n \<noteq> None | _ \<Rightarrow> False)
      else False)"

text \<open>The properties of a value are smaller than the value.\<close>

abbreviation props_size :: "props \<Rightarrow> nat" where
  "props_size \<equiv> size_list (size_prod (\<lambda>_. 0) size)"

lemma obj_props_size:
  "obj_props v = Some ps \<Longrightarrow> props_size ps < size v"
  by (cases v rule: obj_props.cases) (auto split: if_splits jsval.splits)

text \<open>
  \<open>===\<close> of values from different documents: primitives by value, opaque objects by name,
  other objects and arrays never.
\<close>

fun strictEq :: "jsval \<Rightarrow> jsval \<Rightarrow> bool" where
  "strictEq (JArr xs) b = False"
| "strictEq (JObj ps) b = False"
| "strictEq (JNum n) b = (n \<noteq> NaN \<and> b = JNum n)"
| "strictEq a b = (a = b)"

function deepEqual :: "jsval \<Rightarrow> jsval \<Rightarrow> bool"
  and equal_elems :: "jsval list \<Rightarrow> jsval list \<Rightarrow> bool"
  and equal_props :: "props \<Rightarrow> props \<Rightarrow> bool" where
  "deepEqual a b =
     (if strictEq a b then True
      else if typeof a \<noteq> typeof b then False
      else if is_arr a \<noteq> is_arr b then False
      else case a of
        JArr xs \<Rightarrow> (case b of JArr ys \<Rightarrow> length xs = length ys \<and> equal_elems xs ys | _ \<Rightarrow> False)
      | _ \<Rightarrow> (case obj_props a of
                Some ps \<Rightarrow> (case obj_props b of
                    Some qs \<Rightarrow> length ps = length qs \<and> equal_props ps qs | None \<Rightarrow> False)
              | None \<Rightarrow> False))"
| "equal_elems [] ys = True"
| "equal_elems (x # xs) ys = (case ys of [] \<Rightarrow> False | y # ys' \<Rightarrow> deepEqual x y \<and> equal_elems xs ys')"
| "equal_props [] qs = True"
| "equal_props ((k, v) # ps) qs = (has_own qs k \<and> deepEqual v (js_get qs k) \<and> equal_props ps qs)"

  by pat_completeness auto
termination
  by (relation "measure (case_sum (\<lambda>(a, _). size a) (case_sum (\<lambda>(xs, _). size_list size xs) (\<lambda>(ps, _). props_size ps)))")
    (auto simp del: obj_props.simps dest: obj_props_size)

declare deepEqual.simps [simp del]

section \<open>Loading a schema\<close>

definition ENFORCED :: "string list" where
  "ENFORCED = [''$ref'', ''type'', ''enum'', ''const'', ''required'', ''properties'', ''additionalProperties'',
     ''items'', ''minimum'', ''maximum'', ''exclusiveMinimum'', ''exclusiveMaximum'',
     ''minLength'', ''maxLength'', ''minItems'', ''maxItems'', ''uniqueItems'',
     ''anyOf'', ''oneOf'', ''allOf'', ''not'']"

definition METADATA :: "string list" where
  "METADATA = [''$schema'', ''$id'', ''$defs'', ''$comment'', ''title'', ''description'', ''default'',
     ''examples'', ''deprecated'', ''readOnly'', ''writeOnly'']"

text \<open>\<open>child_path\<close> is \<^verbatim>\<open>`${path}/${key}`\<close>, \<open>branch_path\<close> is \<^verbatim>\<open>`${path}/${key}[${i}]`\<close>.\<close>

definition child_path :: "string \<Rightarrow> string \<Rightarrow> string" where
  "child_path path key = path @ ''/'' @ key"

definition branch_path :: "string \<Rightarrow> nat \<Rightarrow> string" where
  "branch_path path i = path @ ''['' @ nat_digits i @ '']''"

function checkSupported :: "jsval \<Rightarrow> string \<Rightarrow> unit res"
  and check_entries :: "props \<Rightarrow> string \<Rightarrow> unit res"
  and check_subs :: "props \<Rightarrow> string \<Rightarrow> unit res"
  and check_branches :: "jsval list \<Rightarrow> string \<Rightarrow> nat \<Rightarrow> unit res" where
  "checkSupported node path =
     (if typeof node = ''boolean'' then Inr ()
      else case obj_props node of
        None \<Rightarrow> Inl (TypeErr (''schema node at '' @ path @ '' must be an object or boolean''))
      | Some entries \<Rightarrow> check_entries entries path)"
| "check_entries [] path = Inr ()"
| "check_entries ((key, child) # rest) path =
     (case (if key = ''properties'' \<or> key = ''$defs'' then
              (case obj_props child of
                 None \<Rightarrow> Inl (TypeErr (child_path path key @ '' must be an object of schemas''))
               | Some subs \<Rightarrow> check_subs subs (child_path path key))
            else if key = ''items'' \<or> key = ''additionalProperties'' \<or> key = ''not''
            then checkSupported child (child_path path key)
            else if key = ''anyOf'' \<or> key = ''oneOf'' \<or> key = ''allOf'' then
              (case child of
                 JArr branches \<Rightarrow> check_branches branches (child_path path key) 0
               | _ \<Rightarrow> Inl (TypeErr (child_path path key @ '' must be an array of schemas'')))
            else if key \<notin> set ENFORCED \<and> key \<notin> set METADATA
            then Inl (TypeErrAt (''unsupported keyword at '' @ path @ '': '') (JStr key))
            else Inr ()) of
        Inl e \<Rightarrow> Inl e
      | Inr _ \<Rightarrow> check_entries rest path)"
| "check_subs [] path = Inr ()"
| "check_subs ((name, sub) # rest) path =
     (case checkSupported sub (child_path path name) of
        Inl e \<Rightarrow> Inl e | Inr _ \<Rightarrow> check_subs rest path)"
| "check_branches [] path i = Inr ()"
| "check_branches (b # bs) path i =
     (case checkSupported b (branch_path path i) of
        Inl e \<Rightarrow> Inl e | Inr _ \<Rightarrow> check_branches bs path (Suc i))"

  by pat_completeness auto
termination
  by (relation "measure (case_sum (case_sum (\<lambda>(a, _). size a) (\<lambda>(ps, _). props_size ps))
        (case_sum (\<lambda>(ps, _). props_size ps) (\<lambda>(bs, _). size_list size bs)))")
    (auto simp del: obj_props.simps dest: obj_props_size)

declare checkSupported.simps [simp del]

section \<open>The interpreter\<close>

datatype violation_text =
    Depth_exceeded
  | Forbidden
  | Unresolvable jsval
  | Wrong_type jsval string
  | Not_enum
  | Not_const
  | Too_short jsval
  | Too_long jsval
  | Below_minimum
  | Above_maximum
  | Below_exclusive
  | Above_exclusive
  | Missing_property jsval
  | Additional_property string
  | Too_few_items jsval
  | Too_many_items jsval
  | Not_unique
  | No_anyOf_branch
  | OneOf_branches nat
  | Matches_not
  | Unknown_definition string

type_synonym violation = "string \<times> violation_text"

definition SCHEMA_MAX_DEPTH :: nat where "SCHEMA_MAX_DEPTH = 64"

text \<open>Comparison of numbers; \<open>NaN\<close> is unordered.\<close>

fun js_lt :: "jsnum \<Rightarrow> jsnum \<Rightarrow> bool" where
  "js_lt (Fin a) (Fin b) = (a < b)"
| "js_lt (Fin a) PosInf = True"
| "js_lt NegInf (Fin b) = True"
| "js_lt NegInf PosInf = True"
| "js_lt _ _ = False"

definition js_le :: "jsnum \<Rightarrow> jsnum \<Rightarrow> bool" where
  "js_le a b \<longleftrightarrow> js_lt a b \<or> (a = b \<and> a \<noteq> NaN)"

text \<open>Effects in sequence: pushed violations, \<^verbatim>\<open>some\<close> and counting, each stopped by a throw.\<close>

fun seqE :: "'a list res list \<Rightarrow> 'a list res" where
  "seqE [] = Inr []"
| "seqE (x # xs) = (case x of Inl e \<Rightarrow> Inl e
     | Inr a \<Rightarrow> (case seqE xs of Inl e \<Rightarrow> Inl e | Inr b \<Rightarrow> Inr (a @ b)))"

fun someE :: "bool res list \<Rightarrow> bool res" where
  "someE [] = Inr False"
| "someE (x # xs) = (case x of Inl e \<Rightarrow> Inl e | Inr b \<Rightarrow> if b then Inr True else someE xs)"

fun countE :: "bool res list \<Rightarrow> nat res" where
  "countE [] = Inr 0"
| "countE (x # xs) = (case x of Inl e \<Rightarrow> Inl e
     | Inr b \<Rightarrow> (case countE xs of Inl e \<Rightarrow> Inl e | Inr n \<Rightarrow> Inr (if b then Suc n else n)))"

definition map_res :: "('a \<Rightarrow> 'b) \<Rightarrow> 'a res \<Rightarrow> 'b res" where
  "map_res f r = (case r of Inl e \<Rightarrow> Inl e | Inr v \<Rightarrow> Inr (f v))"

text \<open>
  \<^verbatim>\<open>defs[name]\<close>: an own property, else what \<open>Object.prototype\<close> has under that name.
\<close>

definition INHERITED :: "string list" where
  "INHERITED = [''constructor'', ''toString'', ''toLocaleString'', ''valueOf'', ''hasOwnProperty'',
     ''isPrototypeOf'', ''propertyIsEnumerable'', ''__defineGetter__'', ''__defineSetter__'',
     ''__lookupGetter__'', ''__lookupSetter__'']"

definition def_get :: "props \<Rightarrow> string \<Rightarrow> jsval" where
  "def_get defs name =
     (if has_own defs name then js_get defs name
      else if name \<in> set INHERITED then JOpaque ''Function'' JUndef
      else if name = ''__proto__'' then JOpaque ''Object.prototype'' (JObj [])
      else JUndef)"

type_synonym checker = "jsval \<Rightarrow> jsval \<Rightarrow> string \<Rightarrow> violation list res"

definition check_ref :: "checker \<Rightarrow> props \<Rightarrow> checker" where
  "check_ref chk defs schema value path =
     (case fld schema ''$ref'' of
        JStr r \<Rightarrow>
          let target = (if take 8 r = ''#/$defs/'' then def_get defs (drop 8 r) else JUndef) in
          if target = JUndef then Inr [(path, Unresolvable (JStr r))] else chk target value path
      | _ \<Rightarrow> Inr [])"

definition type_names :: "jsval \<Rightarrow> jsval list" where
  "type_names t = (case t of JArr xs \<Rightarrow> xs | _ \<Rightarrow> [t])"

definition type_mismatch :: "jsval \<Rightarrow> jsval \<Rightarrow> bool" where
  "type_mismatch schema value \<longleftrightarrow>
     fld schema ''type'' \<noteq> JUndef \<and>
     \<not> list_ex (\<lambda>n. matchesType n value) (type_names (fld schema ''type''))"

definition check_enum :: "jsval \<Rightarrow> jsval \<Rightarrow> string \<Rightarrow> violation list" where
  "check_enum schema value path =
     (case fld schema ''enum'' of
        JArr cs \<Rightarrow> if list_ex (\<lambda>c. deepEqual c value) cs then [] else [(path, Not_enum)]
      | _ \<Rightarrow> []) @
     (if fld schema ''const'' \<noteq> JUndef \<and> \<not> deepEqual (fld schema ''const'') value
      then [(path, Not_const)] else [])"

text \<open>A bound that is present, as the number it compares as.\<close>

definition bound :: "conv \<Rightarrow> jsval \<Rightarrow> string \<Rightarrow> jsnum option" where
  "bound cv schema k = (if fld schema k = JUndef then None else Some (cv_Number cv (fld schema k)))"

definition broken :: "conv \<Rightarrow> jsval \<Rightarrow> string \<Rightarrow> (jsnum \<Rightarrow> bool) \<Rightarrow> string \<Rightarrow> violation_text \<Rightarrow> violation list" where
  "broken cv schema k bad path txt =
     (case bound cv schema k of Some b \<Rightarrow> if bad b then [(path, txt)] else [] | None \<Rightarrow> [])"

text \<open>One character of the model is one code point.\<close>

definition check_string :: "conv \<Rightarrow> jsval \<Rightarrow> jsval \<Rightarrow> string \<Rightarrow> violation list" where
  "check_string cv schema value path =
     (case value of
        JStr s \<Rightarrow>
          broken cv schema ''minLength'' (\<lambda>b. js_lt (num (int (length s))) b) path (Too_short (fld schema ''minLength'')) @
          broken cv schema ''maxLength'' (\<lambda>b. js_lt b (num (int (length s)))) path (Too_long (fld schema ''maxLength''))
      | _ \<Rightarrow> [])"

definition check_number :: "conv \<Rightarrow> jsval \<Rightarrow> jsval \<Rightarrow> string \<Rightarrow> violation list" where
  "check_number cv schema value path =
     (case value of
        JNum (Fin r) \<Rightarrow>
          broken cv schema ''minimum'' (\<lambda>b. \<not> js_le b (Fin r)) path Below_minimum @
          broken cv schema ''maximum'' (\<lambda>b. \<not> js_le (Fin r) b) path Above_maximum @
          broken cv schema ''exclusiveMinimum'' (\<lambda>b. \<not> js_lt b (Fin r)) path Below_exclusive @
          broken cv schema ''exclusiveMaximum'' (\<lambda>b. \<not> js_lt (Fin r) b) path Above_exclusive
      | _ \<Rightarrow> [])"

definition prop_path :: "string \<Rightarrow> string \<Rightarrow> string" where
  "prop_path path name = path @ ''.'' @ name"

definition check_additional :: "checker \<Rightarrow> jsval \<Rightarrow> props \<Rightarrow> string \<Rightarrow> violation list res list" where
  "check_additional chk schema ps path =
     (let additional = fld schema ''additionalProperties'';
          named = (case obj_props (fld schema ''properties'') of Some props \<Rightarrow> props | None \<Rightarrow> []);
          outside = filter (\<lambda>(name, _). \<not> has_own named name) ps
      in if additional = JBool False
         then [Inr (map (\<lambda>(name, _). (path, Additional_property name)) outside)]
         else if additional \<noteq> JUndef \<and> additional \<noteq> JBool True
         then map (\<lambda>(name, child). chk additional child (prop_path path name)) outside
         else [])"

definition check_object :: "conv \<Rightarrow> checker \<Rightarrow> checker" where
  "check_object cv chk schema value path =
     (case obj_props value of
        None \<Rightarrow> Inr []
      | Some ps \<Rightarrow>
          (case rows_of (fld schema ''required'') of
             Inl e \<Rightarrow> Inl e
           | Inr names \<Rightarrow> seqE (
               Inr (concat (map (\<lambda>name. if has_own ps (cv_String cv name) then []
                                         else [(path, Missing_property name)]) names)) #
               (case obj_props (fld schema ''properties'') of
                  None \<Rightarrow> []
                | Some named \<Rightarrow> map (\<lambda>(name, sub).
                    if has_own ps name then chk sub (js_get ps name) (prop_path path name) else Inr []) named) @
               check_additional chk schema ps path)))"

text \<open>The first item that equals an earlier one.\<close>

fun first_repeat :: "jsval list \<Rightarrow> jsval list \<Rightarrow> nat \<Rightarrow> nat option" where
  "first_repeat prior [] i = None"
| "first_repeat prior (x # xs) i =
     (if list_ex (\<lambda>p. deepEqual p x) prior then Some i else first_repeat (prior @ [x]) xs (Suc i))"

definition check_array :: "conv \<Rightarrow> checker \<Rightarrow> checker" where
  "check_array cv chk schema value path =
     (case value of
        JArr xs \<Rightarrow> seqE (
          (if fld schema ''items'' \<noteq> JUndef
           then map (\<lambda>(i, x). chk (fld schema ''items'') x (branch_path path i)) (enumerate 0 xs) else []) @
          [Inr (
            broken cv schema ''minItems'' (\<lambda>b. js_lt (num (int (length xs))) b) path (Too_few_items (fld schema ''minItems'')) @
            broken cv schema ''maxItems'' (\<lambda>b. js_lt b (num (int (length xs)))) path (Too_many_items (fld schema ''maxItems'')) @
            (if fld schema ''uniqueItems'' = JBool True
             then (case first_repeat [] xs 0 of Some i \<Rightarrow> [(branch_path path i, Not_unique)] | None \<Rightarrow> [])
             else []))])
      | _ \<Rightarrow> Inr [])"

definition arr_of :: "jsval \<Rightarrow> jsval list option" where
  "arr_of v = (case v of JArr xs \<Rightarrow> Some xs | _ \<Rightarrow> None)"

definition check_branching :: "checker \<Rightarrow> checker" where
  "check_branching chk schema value path =
     (let passes = (\<lambda>sub. map_res (\<lambda>probe. probe = []) (chk sub value path)) in
      seqE (
        (case arr_of (fld schema ''anyOf'') of
           Some bs \<Rightarrow> [map_res (\<lambda>ok. if ok then [] else [(path, No_anyOf_branch)]) (someE (map passes bs))]
         | None \<Rightarrow> []) @
        (case arr_of (fld schema ''oneOf'') of
           Some bs \<Rightarrow> [map_res (\<lambda>n. if n = 1 then [] else [(path, OneOf_branches n)]) (countE (map passes bs))]
         | None \<Rightarrow> []) @
        (case arr_of (fld schema ''allOf'') of
           Some bs \<Rightarrow> map (\<lambda>b. chk b value path) bs
         | None \<Rightarrow> []) @
        (if fld schema ''not'' \<noteq> JUndef
         then [map_res (\<lambda>ok. if ok then [(path, Matches_not)] else []) (passes (fld schema ''not''))] else [])))"

text \<open>
  The first argument of \<open>check\<close> is what is left of the depth: \<open>65 - depth\<close>. A mismatch of
  the type ends the checks of the node.
\<close>

fun check :: "nat \<Rightarrow> conv \<Rightarrow> props \<Rightarrow> checker" where
  "check 0 cv defs schema value path = Inr [(path, Depth_exceeded)]"
| "check (Suc n) cv defs schema value path =
     (if schema = JBool True then Inr []
      else if schema = JBool False then Inr [(path, Forbidden)]
      else
        let chk = check n cv defs in
        seqE (check_ref chk defs schema value path #
          (if type_mismatch schema value
           then [Inr [(path, Wrong_type (fld schema ''type'') (typeName value))]]
           else
             [Inr (check_enum schema value path @ check_string cv schema value path @ check_number cv schema value path),
              check_object cv chk schema value path,
              check_array cv chk schema value path,
              check_branching chk schema value path])))"

section \<open>The validator object\<close>

definition makeValidator :: "jsval \<Rightarrow> props res" where
  "makeValidator schemaDocument =
     (if \<not> isPlainValue schemaDocument then Inl (TypeErr ''schema document must be an object'')
      else case checkSupported schemaDocument ''#'' of
        Inl e \<Rightarrow> Inl e
      | Inr _ \<Rightarrow> Inr (case obj_props (fld schemaDocument ''$defs'') of Some defs \<Rightarrow> defs | None \<Rightarrow> []))"

definition validate :: "conv \<Rightarrow> props \<Rightarrow> string \<Rightarrow> jsval \<Rightarrow> violation list res" where
  "validate cv defs definition_name value =
     (let schema = def_get defs definition_name in
      if schema = JUndef then Inr [(''$'', Unknown_definition definition_name)]
      else check (SCHEMA_MAX_DEPTH + 1) cv defs schema value ''$'')"

text \<open>\<^verbatim>\<open>assert\<close>: the value, or the \<open>SchemaValidationError\<close> with its violations.\<close>

datatype validation_failure = Threw js_error | Schema_violated string "violation list"

definition assert_valid :: "conv \<Rightarrow> props \<Rightarrow> string \<Rightarrow> jsval \<Rightarrow> validation_failure + jsval" where
  "assert_valid cv defs definition_name value =
     (case validate cv defs definition_name value of
        Inl e \<Rightarrow> Inl (Threw e)
      | Inr violations \<Rightarrow>
          if violations \<noteq> [] then Inl (Schema_violated definition_name violations) else Inr value)"

end
