(* ===== verification/Schema_Semantics.thy ===== *)
theory Schema_Semantics
  imports Validate
begin

text \<open>
  What the validator means. The reference semantics reads a schema as a predicate on values,
  one conjunct for each keyword; the validator collects violations, stops a node at a wrong
  type and probes branches. The two agree on validity. A schema that loads has only known
  keywords at every node the interpreter can reach.
\<close>

section \<open>Clean results\<close>

lemma seqE_clean [simp]: "seqE xs = Inr [] \<longleftrightarrow> (\<forall>x \<in> set xs. x = Inr [])"
  by (induction xs) (auto split: sum.splits)

lemma seqE_Inr: "seqE xs = Inr vs \<Longrightarrow> (\<forall>x \<in> set xs. \<exists>a. x = Inr a) \<and> vs = concat (map projr xs)"
  by (induction xs arbitrary: vs) (auto split: sum.splits)

lemma someE_True: "someE xs = Inr True \<Longrightarrow> Inr True \<in> set xs"
  by (induction xs) (auto split: sum.splits if_splits)

lemma someE_False: "someE xs = Inr False \<Longrightarrow> (\<forall>x \<in> set xs. x = Inr False)"
  by (induction xs) (auto split: sum.splits if_splits)

lemma countE_Inr: "countE xs = Inr n \<Longrightarrow> (\<forall>x \<in> set xs. \<exists>b. x = Inr b) \<and> n = length (filter projr xs)"
  by (induction xs arbitrary: n) (auto split: sum.splits)

lemma map_res_clean [simp]: "map_res f r = Inr b \<longleftrightarrow> (\<exists>v. r = Inr v \<and> f v = b)"
  by (cases r) (auto simp: map_res_def)

lemma check_clean:
  "check (Suc n) cv defs schema value path = Inr [] \<longleftrightarrow>
     schema = JBool True \<or>
     (schema \<noteq> JBool False \<and> \<not> type_mismatch schema value \<and>
      check_ref (check n cv defs) defs schema value path = Inr [] \<and>
      check_enum schema value path = [] \<and> check_string cv schema value path = [] \<and>
      check_number cv schema value path = [] \<and>
      check_object cv (check n cv defs) schema value path = Inr [] \<and>
      check_array cv (check n cv defs) schema value path = Inr [] \<and>
      check_branching (check n cv defs) schema value path = Inr [])"
  by (auto simp: Let_def simp del: seqE.simps)

section \<open>The reference semantics\<close>

text \<open>One predicate for each group of keywords; \<open>ok\<close> is the meaning of the subschemas.\<close>

definition bound_ok :: "conv \<Rightarrow> jsval \<Rightarrow> string \<Rightarrow> (jsnum \<Rightarrow> bool) \<Rightarrow> bool" where
  "bound_ok cv schema k good \<longleftrightarrow> fld schema k = JUndef \<or> good (cv_Number cv (fld schema k))"

definition sat_value :: "conv \<Rightarrow> jsval \<Rightarrow> jsval \<Rightarrow> bool" where
  "sat_value cv schema v \<longleftrightarrow>
     \<not> type_mismatch schema v \<and>
     (\<forall>cs. fld schema ''enum'' = JArr cs \<longrightarrow> (\<exists>c \<in> set cs. deepEqual c v)) \<and>
     (fld schema ''const'' = JUndef \<or> deepEqual (fld schema ''const'') v) \<and>
     (\<forall>s. v = JStr s \<longrightarrow>
        bound_ok cv schema ''minLength'' (\<lambda>b. \<not> js_lt (num (int (length s))) b) \<and>
        bound_ok cv schema ''maxLength'' (\<lambda>b. \<not> js_lt b (num (int (length s))))) \<and>
     (\<forall>r. v = JNum (Fin r) \<longrightarrow>
        bound_ok cv schema ''minimum'' (\<lambda>b. js_le b (Fin r)) \<and>
        bound_ok cv schema ''maximum'' (\<lambda>b. js_le (Fin r) b) \<and>
        bound_ok cv schema ''exclusiveMinimum'' (\<lambda>b. js_lt b (Fin r)) \<and>
        bound_ok cv schema ''exclusiveMaximum'' (\<lambda>b. js_lt (Fin r) b))"

definition named_props :: "jsval \<Rightarrow> props" where
  "named_props schema = (case obj_props (fld schema ''properties'') of Some props \<Rightarrow> props | None \<Rightarrow> [])"

definition sat_object :: "conv \<Rightarrow> (jsval \<Rightarrow> jsval \<Rightarrow> bool) \<Rightarrow> jsval \<Rightarrow> props \<Rightarrow> bool" where
  "sat_object cv ok schema ps \<longleftrightarrow>
     (\<forall>names. rows_of (fld schema ''required'') = Inr names \<longrightarrow>
        (\<forall>name \<in> set names. has_own ps (cv_String cv name))) \<and>
     (\<forall>(name, sub) \<in> set (named_props schema). has_own ps name \<longrightarrow> ok sub (js_get ps name)) \<and>
     (fld schema ''additionalProperties'' \<in> {JUndef, JBool True} \<or>
      (\<forall>(name, child) \<in> set ps. has_own (named_props schema) name \<or> ok (fld schema ''additionalProperties'') child))"

definition sat_array :: "conv \<Rightarrow> (jsval \<Rightarrow> jsval \<Rightarrow> bool) \<Rightarrow> jsval \<Rightarrow> jsval list \<Rightarrow> bool" where
  "sat_array cv ok schema xs \<longleftrightarrow>
     (fld schema ''items'' = JUndef \<or> (\<forall>x \<in> set xs. ok (fld schema ''items'') x)) \<and>
     bound_ok cv schema ''minItems'' (\<lambda>b. \<not> js_lt (num (int (length xs))) b) \<and>
     bound_ok cv schema ''maxItems'' (\<lambda>b. \<not> js_lt b (num (int (length xs)))) \<and>
     (fld schema ''uniqueItems'' = JBool True \<longrightarrow>
        (\<forall>i j. i < j \<longrightarrow> j < length xs \<longrightarrow> \<not> deepEqual (xs ! i) (xs ! j)))"

definition sat_branching :: "(jsval \<Rightarrow> jsval \<Rightarrow> bool) \<Rightarrow> jsval \<Rightarrow> jsval \<Rightarrow> bool" where
  "sat_branching ok schema v \<longleftrightarrow>
     (\<forall>bs. fld schema ''anyOf'' = JArr bs \<longrightarrow> (\<exists>b \<in> set bs. ok b v)) \<and>
     (\<forall>bs. fld schema ''oneOf'' = JArr bs \<longrightarrow> length (filter (\<lambda>b. ok b v) bs) = 1) \<and>
     (\<forall>bs. fld schema ''allOf'' = JArr bs \<longrightarrow> (\<forall>b \<in> set bs. ok b v)) \<and>
     (fld schema ''not'' = JUndef \<or> \<not> ok (fld schema ''not'') v)"

definition sat_ref :: "(jsval \<Rightarrow> jsval \<Rightarrow> bool) \<Rightarrow> props \<Rightarrow> jsval \<Rightarrow> jsval \<Rightarrow> bool" where
  "sat_ref ok defs schema v \<longleftrightarrow>
     (\<forall>r. fld schema ''$ref'' = JStr r \<longrightarrow>
        take 8 r = ''#/$defs/'' \<and> def_get defs (drop 8 r) \<noteq> JUndef \<and> ok (def_get defs (drop 8 r)) v)"

text \<open>Validity with \<open>n\<close> levels of nesting left; no value is valid past the last one.\<close>

primrec sat :: "nat \<Rightarrow> conv \<Rightarrow> props \<Rightarrow> jsval \<Rightarrow> jsval \<Rightarrow> bool" where
  "sat 0 cv defs schema v = False"
| "sat (Suc n) cv defs schema v =
     (schema = JBool True \<or>
      schema \<noteq> JBool False \<and> sat_ref (sat n cv defs) defs schema v \<and> sat_value cv schema v \<and>
      (\<forall>ps. obj_props v = Some ps \<longrightarrow> sat_object cv (sat n cv defs) schema ps) \<and>
      (\<forall>xs. v = JArr xs \<longrightarrow> sat_array cv (sat n cv defs) schema xs) \<and>
      sat_branching (sat n cv defs) schema v)"

section \<open>Each group of checks is its predicate\<close>

text \<open>A checker stands for a predicate where it returns.\<close>

definition models :: "checker \<Rightarrow> (jsval \<Rightarrow> jsval \<Rightarrow> bool) \<Rightarrow> bool" where
  "models chk ok \<longleftrightarrow> (\<forall>s v path vs. chk s v path = Inr vs \<longrightarrow> (vs = [] \<longleftrightarrow> ok s v))"

lemma modelsD: "models chk ok \<Longrightarrow> chk s v path = Inr vs \<Longrightarrow> vs = [] \<longleftrightarrow> ok s v"
  by (auto simp: models_def)

lemma broken_Nil [simp]: "broken cv schema k bad path txt = [] \<longleftrightarrow> bound_ok cv schema k (\<lambda>b. \<not> bad b)"
  by (simp add: broken_def bound_def bound_ok_def)

lemma check_enum_Nil [simp]:
  "check_enum schema v path = [] \<longleftrightarrow>
     (\<forall>cs. fld schema ''enum'' = JArr cs \<longrightarrow> (\<exists>c \<in> set cs. deepEqual c v)) \<and>
     (fld schema ''const'' = JUndef \<or> deepEqual (fld schema ''const'') v)"
  by (auto simp: check_enum_def list_ex_iff split: jsval.split)

lemma check_leaf_Nil:
  "\<not> type_mismatch schema v \<and> check_enum schema v path = [] \<and> check_string cv schema v path = [] \<and>
     check_number cv schema v path = [] \<longleftrightarrow> sat_value cv schema v"
  by (auto simp: sat_value_def check_string_def check_number_def split: jsval.splits jsnum.splits)

lemma check_ref_models:
  assumes "models chk ok" "check_ref chk defs schema v path = Inr vs"
  shows "vs = [] \<longleftrightarrow> sat_ref ok defs schema v"
  using assms(2) modelsD [OF assms(1)]
  by (auto simp: check_ref_def sat_ref_def Let_def split: jsval.splits if_splits)

lemma first_repeat_None:
  "first_repeat prior xs i = None \<longleftrightarrow>
     (\<forall>j < length xs. (\<forall>p \<in> set prior. \<not> deepEqual p (xs ! j)) \<and> (\<forall>k < j. \<not> deepEqual (xs ! k) (xs ! j)))"
proof (induction xs arbitrary: prior i)
  case Nil
  then show ?case by simp
next
  case (Cons x xs)
  show ?case
    by (auto simp: Cons.IH list_ex_iff All_less_Suc2)
qed


lemma seqE_each: "seqE xs = Inr vs \<Longrightarrow> x \<in> set xs \<Longrightarrow> \<exists>a. x = Inr a"
  using seqE_Inr by blast

lemma models_clean: "models chk ok \<Longrightarrow> \<exists>a. chk s v path = Inr a \<Longrightarrow> chk s v path = Inr [] \<longleftrightarrow> ok s v"
  using modelsD by fastforce

lemma check_additional_models:
  assumes m: "models chk ok" and f: "ok (JBool False) = (\<lambda>_. False)"
    and r: "\<And>x. x \<in> set (check_additional chk schema ps path) \<Longrightarrow> \<exists>a. x = Inr a"
  shows "(\<forall>x \<in> set (check_additional chk schema ps path). x = Inr []) \<longleftrightarrow>
    fld schema ''additionalProperties'' \<in> {JUndef, JBool True} \<or>
    (\<forall>(name, child) \<in> set ps. has_own (named_props schema) name \<or> ok (fld schema ''additionalProperties'') child)"
proof (cases "fld schema ''additionalProperties'' = JBool False \<or> fld schema ''additionalProperties'' = JBool True \<or>
    fld schema ''additionalProperties'' = JUndef")
  case True
  then show ?thesis
    by (auto simp: check_additional_def Let_def f named_props_def filter_empty_conv)
next
  case False
  then have run: "check_additional chk schema ps path =
      map (\<lambda>(name, child). chk (fld schema ''additionalProperties'') child (prop_path path name))
        (filter (\<lambda>(name, _). \<not> has_own (named_props schema) name) ps)"
    by (simp add: check_additional_def named_props_def Let_def)
  have "chk (fld schema ''additionalProperties'') child (prop_path path name) = Inr [] \<longleftrightarrow>
      ok (fld schema ''additionalProperties'') child"
    if "(name, child) \<in> set ps" "\<not> has_own (named_props schema) name" for name child
    by (rule models_clean [OF m], rule r) (use that in \<open>force simp: run\<close>)
  then show ?thesis
    using False by (auto simp: run)
qed

lemma check_object_models:
  assumes m: "models chk ok" and f: "ok (JBool False) = (\<lambda>_. False)"
    and r: "check_object cv chk schema v path = Inr vs"
  shows "vs = [] \<longleftrightarrow> (\<forall>ps. obj_props v = Some ps \<longrightarrow> sat_object cv ok schema ps)"
proof (cases "obj_props v")
  case None
  then show ?thesis
    using r by (simp add: check_object_def)
next
  case (Some ps)
  obtain names where names: "rows_of (fld schema ''required'') = Inr names"
    using r Some by (auto simp: check_object_def split: sum.splits)
  define req :: "violation list" where
    "req = concat (map (\<lambda>name. if has_own ps (cv_String cv name) then [] else [(path, Missing_property name)]) names)"
  define subs where "subs = map (\<lambda>(name, sub).
      if has_own ps name then chk sub (js_get ps name) (prop_path path name) else Inr []) (named_props schema)"
  have run: "check_object cv chk schema v path = seqE (Inr req # subs @ check_additional chk schema ps path)"
    using Some names by (simp add: check_object_def req_def subs_def named_props_def split: option.split)
  note each = seqE_each [OF r [unfolded run]]
  have req: "req = [] \<longleftrightarrow> (\<forall>name \<in> set names. has_own ps (cv_String cv name))"
    by (auto simp: req_def)
  have "chk sub (js_get ps name) (prop_path path name) = Inr [] \<longleftrightarrow> ok sub (js_get ps name)"
    if "(name, sub) \<in> set (named_props schema)" "has_own ps name" for name sub
    by (rule models_clean [OF m], rule each) (use that in \<open>force simp: subs_def\<close>)
  then have subs: "(\<forall>x \<in> set subs. x = Inr []) \<longleftrightarrow>
      (\<forall>(name, sub) \<in> set (named_props schema). has_own ps name \<longrightarrow> ok sub (js_get ps name))"
    by (auto simp: subs_def)
  have extra: "(\<forall>x \<in> set (check_additional chk schema ps path). x = Inr []) \<longleftrightarrow>
      fld schema ''additionalProperties'' \<in> {JUndef, JBool True} \<or>
      (\<forall>(name, child) \<in> set ps. has_own (named_props schema) name \<or> ok (fld schema ''additionalProperties'') child)"
    by (rule check_additional_models [OF m f]) (rule each, simp)
  have "vs = [] \<longleftrightarrow> seqE (Inr req # subs @ check_additional chk schema ps path) = Inr []"
    using r run by simp
  also have "\<dots> \<longleftrightarrow> req = [] \<and> (\<forall>x \<in> set subs. x = Inr []) \<and>
      (\<forall>x \<in> set (check_additional chk schema ps path). x = Inr [])"
    unfolding seqE_clean by auto
  also have "\<dots> \<longleftrightarrow> sat_object cv ok schema ps"
    unfolding req subs extra sat_object_def names by simp
  finally show ?thesis
    using Some by simp
qed

lemma set_enumerate: "set (enumerate 0 xs) = (\<lambda>i. (i, xs ! i)) ` {..<length xs}"
  by (force simp: in_set_enumerate_eq)

lemma check_array_models:
  assumes m: "models chk ok" and r: "check_array cv chk schema v path = Inr vs"
  shows "vs = [] \<longleftrightarrow> (\<forall>xs. v = JArr xs \<longrightarrow> sat_array cv ok schema xs)"
proof (cases "arr_of v")
  case None
  then show ?thesis
    using r by (auto simp: check_array_def arr_of_def split: jsval.splits)
next
  case (Some xs)
  then have v: "v = JArr xs"
    by (auto simp: arr_of_def split: jsval.splits)
  define items where "items = (if fld schema ''items'' \<noteq> JUndef
      then map (\<lambda>(i, x). chk (fld schema ''items'') x (branch_path path i)) (enumerate 0 xs) else [])"
  obtain sizes where run: "check_array cv chk schema v path = seqE (items @ [Inr sizes])"
    and sizes: "sizes = [] \<longleftrightarrow> bound_ok cv schema ''minItems'' (\<lambda>b. \<not> js_lt (num (int (length xs))) b) \<and>
      bound_ok cv schema ''maxItems'' (\<lambda>b. \<not> js_lt b (num (int (length xs)))) \<and>
      (fld schema ''uniqueItems'' = JBool True \<longrightarrow> first_repeat [] xs 0 = None)"
    unfolding v check_array_def items_def by (auto split: option.splits)
  note each = seqE_each [OF r [unfolded run]]
  have "chk (fld schema ''items'') (xs ! i) (branch_path path i) = Inr [] \<longleftrightarrow> ok (fld schema ''items'') (xs ! i)"
    if "i < length xs" "fld schema ''items'' \<noteq> JUndef" for i
    by (rule models_clean [OF m], rule each) (use that in \<open>force simp: items_def set_enumerate\<close>)
  then have items: "(\<forall>x \<in> set items. x = Inr []) \<longleftrightarrow>
      fld schema ''items'' = JUndef \<or> (\<forall>x \<in> set xs. ok (fld schema ''items'') x)"
    by (auto simp: items_def set_enumerate all_set_conv_all_nth)
  have "vs = [] \<longleftrightarrow> seqE (items @ [Inr sizes]) = Inr []"
    using r run by simp
  also have "\<dots> \<longleftrightarrow> (\<forall>x \<in> set items. x = Inr []) \<and> sizes = []"
    unfolding seqE_clean by auto
  also have "\<dots> \<longleftrightarrow> sat_array cv ok schema xs"
    unfolding items sizes sat_array_def first_repeat_None by auto
  finally show ?thesis
    using v by simp
qed


lemma arr_case:
  "(\<forall>x \<in> set (case arr_of f of Some bs \<Rightarrow> g bs | None \<Rightarrow> []). P x) \<longleftrightarrow>
     (\<forall>bs. f = JArr bs \<longrightarrow> (\<forall>x \<in> set (g bs). P x))"
  by (cases f) (auto simp: arr_of_def)

lemma check_branching_models:
  assumes m: "models chk ok" and r: "check_branching chk schema v path = Inr vs"
  shows "vs = [] \<longleftrightarrow> sat_branching ok schema v"
proof -
  define passes where "passes = (\<lambda>sub. map_res (\<lambda>probe. probe = []) (chk sub v path))"
  have p: "passes sub = Inr b \<Longrightarrow> b \<longleftrightarrow> ok sub v" for sub b
    using modelsD [OF m] by (auto simp: passes_def)
  have p': "map passes bs = map (\<lambda>b. Inr (ok b v)) bs" if "\<forall>x \<in> set (map passes bs). \<exists>b. x = Inr b" for bs
    using that p by auto
  note each = seqE_each [OF r [unfolded check_branching_def Let_def, folded passes_def]]
  note clean = seqE_clean [of "_ @ _"]
  have any: "(\<exists>b \<in> set bs. ok b v) \<longleftrightarrow> ok'" if "someE (map passes bs) = Inr ok'" for bs ok'
  proof (cases ok')
    case True
    then have "Inr True \<in> passes ` set bs"
      using someE_True [of "map passes bs"] that by simp
    then show ?thesis
      using p [of _ True] True by force
  next
    case False
    then have "\<forall>b \<in> set bs. passes b = Inr False"
      using someE_False [of "map passes bs"] that by simp
    then show ?thesis
      using p [of _ False] False by blast
  qed
  have one: "length (filter (\<lambda>b. ok b v) bs) = n" if "countE (map passes bs) = Inr n" for bs n
    using countE_Inr [OF that] p [symmetric]
    by (auto simp: filter_map o_def intro!: arg_cong [of _ _ length] filter_cong)
  have a: "(\<exists>ok'. someE (map passes bs) = Inr ok' \<and> ok') \<longleftrightarrow> (\<exists>b \<in> set bs. ok b v)"
    if h: "fld schema ''anyOf'' = JArr bs" for bs
  proof -
    obtain ok' where "someE (map passes bs) = Inr ok'"
      using each [of "map_res (\<lambda>ok. if ok then [] else [(path, No_anyOf_branch)]) (someE (map passes bs))"] h
      by (auto simp: arr_of_def)
    then show ?thesis
      using any by auto
  qed
  have o': "(\<exists>n. countE (map passes bs) = Inr n \<and> n = 1) \<longleftrightarrow> length (filter (\<lambda>b. ok b v) bs) = 1"
    if h: "fld schema ''oneOf'' = JArr bs" for bs
  proof -
    obtain n where "countE (map passes bs) = Inr n"
      using each [of "map_res (\<lambda>n. if n = 1 then [] else [(path, OneOf_branches n)]) (countE (map passes bs))"] h
      by (auto simp: arr_of_def)
    then show ?thesis
      using one by auto
  qed
  have l: "(\<forall>b \<in> set bs. chk b v path = Inr []) \<longleftrightarrow> (\<forall>b \<in> set bs. ok b v)"
    if h: "fld schema ''allOf'' = JArr bs" for bs
    using models_clean [OF m] each h by (simp add: arr_of_def)
  have n: "passes (fld schema ''not'') = Inr False \<longleftrightarrow> \<not> ok (fld schema ''not'') v"
    if h: "fld schema ''not'' \<noteq> JUndef"
  proof -
    obtain b where "passes (fld schema ''not'') = Inr b"
      using each [of "map_res (\<lambda>ok. if ok then [(path, Matches_not)] else []) (passes (fld schema ''not''))"] h
      by (auto simp: passes_def)
    then show ?thesis
      using p by auto
  qed
  have "vs = [] \<longleftrightarrow> check_branching chk schema v path = Inr []"
    using r by simp
  also have "\<dots> \<longleftrightarrow>
      (\<forall>bs. fld schema ''anyOf'' = JArr bs \<longrightarrow> (\<exists>ok'. someE (map passes bs) = Inr ok' \<and> ok')) \<and>
      (\<forall>bs. fld schema ''oneOf'' = JArr bs \<longrightarrow> (\<exists>n. countE (map passes bs) = Inr n \<and> n = 1)) \<and>
      (\<forall>bs. fld schema ''allOf'' = JArr bs \<longrightarrow> (\<forall>b \<in> set bs. chk b v path = Inr [])) \<and>
      (fld schema ''not'' = JUndef \<or> passes (fld schema ''not'') = Inr False)"
    unfolding check_branching_def Let_def passes_def [symmetric] seqE_clean set_append ball_Un arr_case
    by (simp add: ex_bool_eq) blast
  also have "\<dots> \<longleftrightarrow> sat_branching ok schema v"
    using a o' l n by (simp add: sat_branching_def) blast
  finally show ?thesis .
qed


lemma check_models: "models (check n cv defs) (sat n cv defs)"
proof (induction n)
  case 0
  then show ?case by (simp add: models_def)
next
  case (Suc n)
  have f: "sat n cv defs (JBool False) = (\<lambda>_. False)"
    by (cases n) auto
  show ?case
    unfolding models_def
  proof (intro allI impI)
    fix schema v path vs
    assume r: "check (Suc n) cv defs schema v path = Inr vs"
    have clean: "vs = [] \<longleftrightarrow> check (Suc n) cv defs schema v path = Inr []"
      using r by simp
    show "vs = [] \<longleftrightarrow> sat (Suc n) cv defs schema v"
    proof (cases "schema = JBool True \<or> schema = JBool False \<or> type_mismatch schema v")
      case True
      then show ?thesis
        unfolding clean check_clean by (auto simp: sat_value_def)
    next
      case False
      then have "seqE [check_ref (check n cv defs) defs schema v path,
          Inr (check_enum schema v path @ check_string cv schema v path @ check_number cv schema v path),
          check_object cv (check n cv defs) schema v path, check_array cv (check n cv defs) schema v path,
          check_branching (check n cv defs) schema v path] = Inr vs"
        using r by (simp add: Let_def del: seqE.simps)
      note each = seqE_each [OF this]
      obtain a where ref: "check_ref (check n cv defs) defs schema v path = Inr a"
        using each [of "check_ref (check n cv defs) defs schema v path"] by auto
      obtain b where obj: "check_object cv (check n cv defs) schema v path = Inr b"
        using each [of "check_object cv (check n cv defs) schema v path"] by auto
      obtain c where arr: "check_array cv (check n cv defs) schema v path = Inr c"
        using each [of "check_array cv (check n cv defs) schema v path"] by auto
      obtain d where br: "check_branching (check n cv defs) schema v path = Inr d"
        using each [of "check_branching (check n cv defs) schema v path"] by auto
      have leaf: "check_enum schema v path = [] \<and> check_string cv schema v path = [] \<and>
          check_number cv schema v path = [] \<longleftrightarrow> sat_value cv schema v"
        using check_leaf_Nil [of schema v path cv] False by blast
      show ?thesis
        unfolding clean check_clean
        using False leaf check_ref_models [OF Suc.IH ref] check_object_models [OF Suc.IH f obj]
          check_array_models [OF Suc.IH arr] check_branching_models [OF Suc.IH br]
        by (simp add: ref obj arr br) blast
    qed
  qed
qed


section \<open>The keywords of a loaded schema\<close>

definition entry_ok :: "string \<Rightarrow> string \<times> jsval \<Rightarrow> bool" where
  "entry_ok path e \<longleftrightarrow> check_entries [e] path = Inr ()"

lemma unit_step_split:
  "(case t of Inl e \<Rightarrow> Inl e | Inr (_ :: unit) \<Rightarrow> r) =
     (case (case t of Inl e \<Rightarrow> Inl e | Inr _ \<Rightarrow> Inr ()) of Inl e \<Rightarrow> Inl e | Inr (_ :: unit) \<Rightarrow> r)"
  by (cases t) simp_all

lemma check_entries_Cons:
  "check_entries (e # es) path =
     (case check_entries [e] path of Inl x \<Rightarrow> Inl x | Inr _ \<Rightarrow> check_entries es path)"
  by (cases e) (simp only: check_entries.simps unit_step_split [symmetric])

lemma check_entries_ok: "check_entries es path = Inr () \<longleftrightarrow> (\<forall>e \<in> set es. entry_ok path e)"
proof (induction es)
  case Nil
  then show ?case by simp
next
  case (Cons e es)
  show ?case
    unfolding check_entries_Cons [of e es] using Cons.IH
    by (cases "check_entries [e] path") (simp_all add: entry_ok_def del: check_entries.simps)
qed

lemma check_subs_ok:
  "check_subs subs path = Inr () \<longleftrightarrow> (\<forall>(name, sub) \<in> set subs. checkSupported sub (child_path path name) = Inr ())"
  by (induction subs) (auto split: sum.splits)

lemma check_branches_ok: "check_branches bs path i = Inr () \<Longrightarrow> b \<in> set bs \<Longrightarrow> \<exists>p. checkSupported b p = Inr ()"
  by (induction bs arbitrary: i) (auto split: sum.splits)

lemma applicator_keywords:
  "{''properties'', ''$defs'', ''items'', ''additionalProperties'', ''not'', ''anyOf'', ''oneOf'', ''allOf''}
     \<subseteq> set ENFORCED \<union> set METADATA"
  by (simp add: ENFORCED_def METADATA_def)

lemma entry_keyword:
  assumes "entry_ok path (k, c)"
  shows "k \<in> set ENFORCED \<union> set METADATA"
proof (rule ccontr)
  assume "k \<notin> set ENFORCED \<union> set METADATA"
  moreover from this have "k \<notin> {''properties'', ''$defs'', ''items'', ''additionalProperties'', ''not'',
      ''anyOf'', ''oneOf'', ''allOf''}"
    using applicator_keywords by blast
  ultimately show False
    using assms by (simp add: entry_ok_def)
qed

lemma entry_named:
  assumes "entry_ok path (k, c)" "k \<in> {''properties'', ''$defs''}" "obj_props c = Some subs" "(name, sub) \<in> set subs"
  shows "\<exists>p. checkSupported sub p = Inr ()"
proof -
  have "check_subs subs (child_path path k) = Inr ()"
    using assms(1-3) by (auto simp: entry_ok_def split: sum.splits)
  then show ?thesis
    using assms(4) by (auto simp: check_subs_ok)
qed

lemma entry_single:
  assumes "entry_ok path (k, c)" "k \<in> {''items'', ''additionalProperties'', ''not''}"
  shows "\<exists>p. checkSupported c p = Inr ()"
proof -
  have "checkSupported c (child_path path k) = Inr ()"
    using assms by (auto simp: entry_ok_def split: sum.splits)
  then show ?thesis ..
qed

lemma entry_branch:
  assumes "entry_ok path (k, JArr bs)" "k \<in> {''anyOf'', ''oneOf'', ''allOf''}" "b \<in> set bs"
  shows "\<exists>p. checkSupported b p = Inr ()"
proof -
  have "check_branches bs (child_path path k) 0 = Inr ()"
    using assms(1,2) by (auto simp: entry_ok_def split: sum.splits)
  then show ?thesis
    using assms(3) by (rule check_branches_ok)
qed

lemma entries_keywords: "\<forall>e \<in> set es. entry_ok p e \<Longrightarrow> fst ` set es \<subseteq> set ENFORCED \<union> set METADATA"
proof
  fix k
  assume ok: "\<forall>e \<in> set es. entry_ok p e" and "k \<in> fst ` set es"
  then obtain c where "entry_ok p (k, c)"
    by auto
  then show "k \<in> set ENFORCED \<union> set METADATA"
    by (rule entry_keyword)
qed

lemma supported_entries:
  assumes "checkSupported s p = Inr ()"
  shows "(\<exists>b. s = JBool b) \<or> (\<exists>es. obj_props s = Some es \<and> (\<forall>e \<in> set es. entry_ok p e))"
  using assms by (cases s) (auto simp: checkSupported.simps check_entries_ok split: if_splits option.splits)

text \<open>The nodes of a document that are read as schemas.\<close>

inductive subschema :: "jsval \<Rightarrow> jsval \<Rightarrow> bool" for doc where
  root: "subschema doc doc"
| named: "subschema doc s \<Longrightarrow> k \<in> {''properties'', ''$defs''} \<Longrightarrow> obj_props (fld s k) = Some subs \<Longrightarrow>
    (name, sub) \<in> set subs \<Longrightarrow> subschema doc sub"
| single: "subschema doc s \<Longrightarrow> k \<in> {''items'', ''additionalProperties'', ''not''} \<Longrightarrow> fld s k \<noteq> JUndef \<Longrightarrow>
    subschema doc (fld s k)"
| branch: "subschema doc s \<Longrightarrow> k \<in> {''anyOf'', ''oneOf'', ''allOf''} \<Longrightarrow> fld s k = JArr bs \<Longrightarrow>
    b \<in> set bs \<Longrightarrow> subschema doc b"

lemma fld_entry: "fld s k \<noteq> JUndef \<Longrightarrow> \<exists>es. obj_props s = Some es \<and> (k, fld s k) \<in> set es"
  by (auto simp: fld_def js_get_def dest: map_of_SomeD split: option.splits)

lemma supported_entry:
  assumes "checkSupported s p = Inr ()" "fld s k \<noteq> JUndef"
  shows "entry_ok p (k, fld s k)"
  using supported_entries [OF assms(1)] fld_entry [OF assms(2)] by auto

lemma subschema_supported:
  assumes "subschema doc s" "checkSupported doc p = Inr ()"
  shows "\<exists>p. checkSupported s p = Inr ()"
  using assms(1)
proof induction
  case root
  then show ?case using assms(2) by blast
next
  case (named s k subs name sub)
  then have "fld s k \<noteq> JUndef" by auto
  then show ?case
    using named entry_named supported_entry by metis
next
  case (single s k)
  then show ?case
    using single entry_single supported_entry by metis
next
  case (branch s k bs b)
  then have "fld s k \<noteq> JUndef" by auto
  then show ?case
    using branch entry_branch supported_entry by metis
qed

text \<open>
  C31. Loading fails closed: in a document that loads, every node that is read as a schema, at
  any depth below properties, definitions, items and branches, is a boolean or an object
  whose every key is a keyword the validator enforces or one that asserts nothing.
\<close>
theorem schema_keywords_known:
  assumes "makeValidator doc = Inr defs" "subschema doc s"
  shows "(\<exists>b. s = JBool b) \<or> (\<exists>es. obj_props s = Some es \<and> fst ` set es \<subseteq> set ENFORCED \<union> set METADATA)"
proof -
  have "checkSupported doc ''#'' = Inr ()"
    using assms(1) by (auto simp: makeValidator_def split: if_splits sum.splits)
  then obtain p where "checkSupported s p = Inr ()"
    using subschema_supported assms(2) by blast
  then show ?thesis
    using supported_entries [of s p] entries_keywords by auto
qed

text \<open>
  C32. Validity is the reference semantics: whenever \<open>validate\<close> returns, it reports no violation
  exactly for the values that satisfy every keyword of the definition, with 64 levels of
  nested schemas and references below it.
\<close>
theorem validate_sat:
  assumes "validate cv defs name v = Inr vs" "def_get defs name \<noteq> JUndef"
  shows "vs = [] \<longleftrightarrow> sat 65 cv defs (def_get defs name) v"
  using assms modelsD [OF check_models, of "SCHEMA_MAX_DEPTH + 1" cv defs "def_get defs name" v "''$''" vs]
  by (simp add: validate_def Let_def SCHEMA_MAX_DEPTH_def del: check.simps sat.simps)

text \<open>A schema that has no keyword accepts every value.\<close>

lemma empty_schema:
  assumes "\<forall>k. fld s k = JUndef" "\<forall>b. s \<noteq> JBool b"
  shows "check (Suc n) cv defs s v path = Inr []"
proof -
  have "check_string cv s v path = []" "check_number cv s v path = []"
    using assms(1) by (cases v; simp add: check_string_def check_number_def bound_ok_def split: jsnum.split)+
  moreover have "check_object cv chk s v path = Inr []" "check_array cv chk s v path = Inr []" for chk
    using assms(1)
    by (simp_all add: check_object_def check_array_def check_additional_def bound_ok_def split: option.split jsval.split)
  ultimately show ?thesis
    unfolding check_clean using assms
    by (simp add: type_mismatch_def check_ref_def check_branching_def arr_of_def)
qed

text \<open>
  A definition name the schema does not declare is reported as unknown, unless it is a
  name every object inherits: then any value passes.
\<close>
lemma validate_undeclared:
  assumes "\<not> has_own defs name"
  shows "validate cv defs name v =
    Inr (if name \<in> set INHERITED \<or> name = ''__proto__'' then [] else [(''$'', Unknown_definition name)])"
proof (cases "name \<in> set INHERITED \<or> name = ''__proto__''")
  case True
  then have c: "def_get defs name = JOpaque ''Function'' JUndef \<or>
      def_get defs name = JOpaque ''Object.prototype'' (JObj [])"
    using assms by (auto simp: def_get_def split: if_split)
  then have "\<forall>k. fld (def_get defs name) k = JUndef" "\<forall>b. def_get defs name \<noteq> JBool b"
    by (auto simp: fld_def)
  then have "check (SCHEMA_MAX_DEPTH + 1) cv defs (def_get defs name) v ''$'' = Inr []"
    by (simp add: empty_schema del: check.simps)
  then show ?thesis
    using True c by (auto simp: validate_def Let_def simp del: check.simps)
next
  case False
  then show ?thesis
    using assms by (simp add: validate_def Let_def def_get_def)
qed


section \<open>Samples\<close>

definition tiny_defs :: props where
  "tiny_defs = [(''Name'', JObj [(''type'', JStr ''string'')])]"

definition tiny_conv :: conv where
  "tiny_conv = \<lparr>cv_String = (\<lambda>v. case v of JStr s \<Rightarrow> s | _ \<Rightarrow> []), cv_Number = (\<lambda>v. case v of JNum n \<Rightarrow> n | _ \<Rightarrow> NaN)\<rparr>"

theorem schema_keywords_known_witness:
  "\<exists>es. obj_props (JObj [(''type'', JStr ''string'')]) = Some es \<and> fst ` set es \<subseteq> set ENFORCED \<union> set METADATA"
proof -
  have "makeValidator (JObj [(''$defs'', JObj tiny_defs)]) = Inr tiny_defs"
    by code_simp
  moreover have "subschema (JObj [(''$defs'', JObj tiny_defs)]) (JObj [(''type'', JStr ''string'')])"
    by (rule subschema.named [OF subschema.root, of "''$defs''" _ tiny_defs]) (simp_all add: fld_def tiny_defs_def)
  ultimately show ?thesis
    using schema_keywords_known by blast
qed

theorem validate_sat_witness: "\<not> sat 65 tiny_conv tiny_defs (def_get tiny_defs ''Name'') JNull"
proof -
  have "validate tiny_conv tiny_defs ''Name'' JNull = Inr [(''$'', Wrong_type (JStr ''string'') ''null'')]"
    by code_simp
  moreover have "def_get tiny_defs ''Name'' \<noteq> JUndef"
    by code_simp
  ultimately show ?thesis
    using validate_sat by blast
qed

end
