(* ===== verification/Sync_Schema.thy ===== *)
theory Sync_Schema
  imports Schema_Semantics Decode Sync_Start
begin

text \<open>
  The embedded canonical schema (sync-schema.mjs), and what it accepts: for each envelope the
  exact set of plain objects that validate, and how that set lies in what the decoders and
  the client accept.
\<close>

section \<open>The document\<close>

definition SyncChangeEvent :: jsval where
  "SyncChangeEvent = JObj [
      (''type'', JStr ''object''),
      (''title'', JStr ''SyncChangeEvent''),
      (''description'', JStr ''One authoritative committed row change. Row version orders reconciliation; sync_sequence is an optional plane-wide catch-up cursor.''),
      (''additionalProperties'', JBool False),
      (''required'', JArr [JStr ''table'', JStr ''op'', JStr ''id'', JStr ''version'', JStr ''row'', JStr ''at_ms'']),
      (''properties'', JObj [
        (''table'', JObj [
          (''type'', JStr ''string''),
          (''minLength'', JNum (num 1)),
          (''description'', JStr ''Logical table name from the generated database interface.'')]),
        (''op'', JObj [
          (''type'', JStr ''string''),
          (''enum'', JArr [JStr ''upsert'', JStr ''delete'']),
          (''description'', JStr ''Whether the committed row is present or deleted.'')]),
        (''id'', JObj [
          (''type'', JStr ''string''),
          (''minLength'', JNum (num 1)),
          (''description'', JStr ''Canonical string form of the row primary key.'')]),
        (''version'', JObj [
          (''type'', JStr ''integer''),
          (''minimum'', JNum (num 0)),
          (''maximum'', JNum (num 9007199254740991)),
          (''description'', JStr ''Per-row monotonic conflict and reconciliation version.'')]),
        (''row'', JObj [
          (''type'', JArr [JStr ''object'', JStr ''null'']),
          (''description'', JStr ''Authoritative whole row for upsert; null for delete.'')]),
        (''at_ms'', JObj [
          (''type'', JStr ''integer''),
          (''minimum'', JNum (num 0)),
          (''maximum'', JNum (num 9007199254740991)),
          (''description'', JStr ''Commit time in Unix milliseconds.'')]),
        (''write_key'', JObj [
          (''type'', JStr ''string''),
          (''minLength'', JNum (num 1)),
          (''description'', JStr ''Client-minted identity echoed for exact own-write recognition.'')]),
        (''sync_sequence'', JObj [
          (''type'', JStr ''integer''),
          (''minimum'', JNum (num 0)),
          (''maximum'', JNum (num 9007199254740991)),
          (''description'', JStr ''Optional plane-wide catch-up cursor; never use it for row reconciliation.'')])])]"

definition SyncQueuedWrite :: jsval where
  "SyncQueuedWrite = JObj [
      (''type'', JStr ''object''),
      (''title'', JStr ''SyncQueuedWrite''),
      (''description'', JStr ''One durable optimistic write sent by browser or mobile clients.''),
      (''additionalProperties'', JBool False),
      (''required'', JArr [JStr ''id'', JStr ''table'', JStr ''op'', JStr ''payload'', JStr ''base_version'', JStr ''key'']),
      (''properties'', JObj [
        (''id'', JObj [
          (''type'', JStr ''string''),
          (''minLength'', JNum (num 1)),
          (''description'', JStr ''Target row id.'')]),
        (''table'', JObj [
          (''type'', JStr ''string''),
          (''minLength'', JNum (num 1)),
          (''description'', JStr ''Target logical table.'')]),
        (''op'', JObj [
          (''type'', JStr ''string''),
          (''enum'', JArr [JStr ''upsert'', JStr ''delete'']),
          (''description'', JStr ''Optimistic mutation kind.'')]),
        (''payload'', JObj [
          (''type'', JArr [JStr ''object'', JStr ''null'']),
          (''description'', JStr ''Whole-row upsert payload or null for delete.'')]),
        (''base_version'', JObj [
          (''type'', JStr ''integer''),
          (''minimum'', JNum (num 0)),
          (''maximum'', JNum (num 9007199254740991)),
          (''description'', JStr ''Row version the mutation was based on.'')]),
        (''key'', JObj [
          (''type'', JStr ''string''),
          (''minLength'', JNum (num 1)),
          (''maxLength'', JNum (num 256)),
          (''description'', JStr ''Stable idempotency and exact-echo identity for this logical write.'')])])]"

definition SyncWriteAcknowledgement :: jsval where
  "SyncWriteAcknowledgement = JObj [
      (''type'', JStr ''object''),
      (''title'', JStr ''SyncWriteAcknowledgement''),
      (''description'', JStr ''Server acknowledgement returned after a sync write commits.''),
      (''additionalProperties'', JBool False),
      (''required'', JArr [JStr ''id'', JStr ''committed_version'']),
      (''properties'', JObj [
        (''id'', JObj [
          (''type'', JStr ''string''),
          (''minLength'', JNum (num 1)),
          (''description'', JStr ''Committed row id; must equal the queued write id.'')]),
        (''committed_version'', JObj [
          (''type'', JStr ''integer''),
          (''minimum'', JNum (num 0)),
          (''maximum'', JNum (num 9007199254740991)),
          (''description'', JStr ''Authoritative row version after commit.'')])])]"

definition SyncPullPage :: jsval where
  "SyncPullPage = JObj [
      (''type'', JStr ''object''),
      (''title'', JStr ''SyncPullPage''),
      (''description'', JStr ''Globally ordered catch-up page. Persist next_cursor only after every change has reconciled.''),
      (''additionalProperties'', JBool False),
      (''required'', JArr [JStr ''changes'', JStr ''next_cursor'', JStr ''has_more'']),
      (''properties'', JObj [
        (''changes'', JObj [
          (''type'', JStr ''array''),
          (''items'', JObj [
            (''$ref'', JStr ''#/$defs/SyncChangeEvent'')]),
          (''description'', JStr ''Committed changes in ascending sync_sequence order.'')]),
        (''next_cursor'', JObj [
          (''type'', JStr ''integer''),
          (''minimum'', JNum (num 0)),
          (''maximum'', JNum (num 9007199254740991)),
          (''description'', JStr ''Last sequence represented by this page.'')]),
        (''has_more'', JObj [
          (''type'', JStr ''boolean''),
          (''description'', JStr ''Whether another page should be requested immediately.'')])])]"

definition SyncWritePolicy :: jsval where
  "SyncWritePolicy = JObj [
      (''type'', JStr ''object''),
      (''title'', JStr ''SyncWritePolicy''),
      (''description'', JStr ''Per-write client behavior. Strategy controls when local state becomes visible; failure_mode controls whether durable send failures are returned, thrown, or emitted; telemetry controls lifecycle detail.''),
      (''additionalProperties'', JBool False),
      (''required'', JArr [JStr ''strategy'', JStr ''failure_mode'', JStr ''telemetry'']),
      (''properties'', JObj [
        (''strategy'', JObj [
          (''type'', JStr ''string''),
          (''enum'', JArr [JStr ''local_queue'', JStr ''optimistic'', JStr ''pessimistic'']),
          (''description'', JStr ''local_queue commits locally and leaves transport to background flush; optimistic commits locally before awaiting the server; pessimistic keeps the old local value until acknowledgement or an authoritative echo.'')]),
        (''failure_mode'', JObj [
          (''type'', JStr ''string''),
          (''enum'', JArr [JStr ''return_result'', JStr ''throw_error'', JStr ''emit_only'']),
          (''description'', JStr ''How a durable send failure is surfaced after retry intent is safely persisted.'')]),
        (''telemetry'', JObj [
          (''type'', JStr ''string''),
          (''enum'', JArr [JStr ''off'', JStr ''errors'', JStr ''lifecycle'', JStr ''verbose'']),
          (''description'', JStr ''Maximum sync lifecycle detail emitted to the configured telemetry adapter.'')])])]"

definition SyncReplicaMetadata :: jsval where
  "SyncReplicaMetadata = JObj [
      (''type'', JStr ''object''),
      (''title'', JStr ''SyncReplicaMetadata''),
      (''description'', JStr ''Replica-local durable metadata. created_at_ms and updated_at_ms describe this local copy; synced_at_ms is when authoritative server state was last applied. None of these timestamps participate in conflict ordering.''),
      (''additionalProperties'', JBool False),
      (''required'', JArr [JStr ''version'', JStr ''dirty'', JStr ''created_at_ms'', JStr ''updated_at_ms'']),
      (''properties'', JObj [
        (''version'', JObj [
          (''type'', JStr ''integer''),
          (''minimum'', JNum (num 0)),
          (''maximum'', JNum (num 9007199254740991)),
          (''description'', JStr ''Authoritative per-row version the local mutation is based on.'')]),
        (''dirty'', JObj [
          (''type'', JStr ''boolean''),
          (''description'', JStr ''Whether an unacknowledged durable local write exists.'')]),
        (''created_at_ms'', JObj [
          (''type'', JStr ''integer''),
          (''minimum'', JNum (num 0)),
          (''maximum'', JNum (num 9007199254740991)),
          (''description'', JStr ''When this replica first stored the row.'')]),
        (''updated_at_ms'', JObj [
          (''type'', JStr ''integer''),
          (''minimum'', JNum (num 0)),
          (''maximum'', JNum (num 9007199254740991)),
          (''description'', JStr ''When this replica last changed row data or sync metadata.'')]),
        (''synced_at_ms'', JObj [
          (''type'', JStr ''integer''),
          (''minimum'', JNum (num 0)),
          (''maximum'', JNum (num 9007199254740991)),
          (''description'', JStr ''When this replica last durably applied authoritative server state.'')])])]"

definition SyncTelemetryEvent :: jsval where
  "SyncTelemetryEvent = JObj [
      (''type'', JStr ''object''),
      (''title'', JStr ''SyncTelemetryEvent''),
      (''description'', JStr ''Low-cardinality write lifecycle event suitable for an OpenTelemetry adapter. Payloads, row ids, and idempotency keys are deliberately excluded.''),
      (''additionalProperties'', JBool False),
      (''required'', JArr [JStr ''phase'', JStr ''strategy'', JStr ''table'', JStr ''op'', JStr ''at_ms'']),
      (''properties'', JObj [
        (''phase'', JObj [
          (''type'', JStr ''string''),
          (''enum'', JArr [JStr ''local_queued'', JStr ''send_started'', JStr ''acknowledged'', JStr ''retry_scheduled'', JStr ''failed'', JStr ''conflict_resolved'']),
          (''description'', JStr ''Lifecycle transition being observed.'')]),
        (''strategy'', JObj [
          (''type'', JStr ''string''),
          (''enum'', JArr [JStr ''local_queue'', JStr ''optimistic'', JStr ''pessimistic'']),
          (''description'', JStr ''Write strategy selected for this operation.'')]),
        (''table'', JObj [
          (''type'', JStr ''string''),
          (''minLength'', JNum (num 1)),
          (''description'', JStr ''Logical collection name; maps to db.collection.name.'')]),
        (''op'', JObj [
          (''type'', JStr ''string''),
          (''enum'', JArr [JStr ''upsert'', JStr ''delete'']),
          (''description'', JStr ''Low-cardinality database operation.'')]),
        (''at_ms'', JObj [
          (''type'', JStr ''integer''),
          (''minimum'', JNum (num 0)),
          (''maximum'', JNum (num 9007199254740991)),
          (''description'', JStr ''Local event time in Unix milliseconds.'')]),
        (''attempts'', JObj [
          (''type'', JStr ''integer''),
          (''minimum'', JNum (num 0)),
          (''description'', JStr ''Durable retry count after this transition.'')]),
        (''error_type'', JObj [
          (''type'', JStr ''string''),
          (''minLength'', JNum (num 1)),
          (''maxLength'', JNum (num 200)),
          (''description'', JStr ''Stable exception or failure class; maps to error.type.'')])])]"

definition SYNC_DEFS :: props where
  "SYNC_DEFS = [
    (''SyncChangeEvent'', SyncChangeEvent),
    (''SyncQueuedWrite'', SyncQueuedWrite),
    (''SyncWriteAcknowledgement'', SyncWriteAcknowledgement),
    (''SyncPullPage'', SyncPullPage),
    (''SyncWritePolicy'', SyncWritePolicy),
    (''SyncReplicaMetadata'', SyncReplicaMetadata),
    (''SyncTelemetryEvent'', SyncTelemetryEvent)]"

definition SYNC_SCHEMA :: jsval where
  "SYNC_SCHEMA = JObj [
    (''$schema'', JStr ''https://json-schema.org/draft/2020-12/schema''),
    (''$id'', JStr ''https://fiducia.cloud/schemas/sync.schema.json''),
    (''title'', JStr ''FiduciaSync''),
    (''description'', JStr ''Canonical local-first sync envelopes shared by fiducia-interfaces, fiducia-sync, and fiducia-clients.''),
    (''type'', JStr ''object''),
    (''$defs'', JObj SYNC_DEFS)]"

section \<open>Schemas of single fields\<close>

text \<open>\<^verbatim>\<open>String\<close> and \<^verbatim>\<open>Number\<close> leave strings and numbers alone.\<close>

definition conv_ok :: "conv \<Rightarrow> bool" where
  "conv_ok cv \<longleftrightarrow> (\<forall>s. cv_String cv (JStr s) = s) \<and> (\<forall>n. cv_Number cv (JNum n) = n)"

lemma conv_okD [simp]:
  "conv_ok cv \<Longrightarrow> cv_String cv (JStr s) = s" "conv_ok cv \<Longrightarrow> cv_Number cv (JNum n) = n"
  by (simp_all add: conv_ok_def)

lemma fld_JObj [simp]: "fld (JObj ps) k = js_get ps k"
  by (simp add: fld_def)

lemma js_num_le [simp]: "js_le (num a) (num b) \<longleftrightarrow> a \<le> b" "js_lt (num a) (num b) \<longleftrightarrow> a < b"
  by (auto simp: num_def js_le_def)

lemma js_le_Fin [simp]: "js_le (Fin a) (Fin b) \<longleftrightarrow> a \<le> b"
  by (auto simp: js_le_def)

lemma num_inject [simp]: "num a = num b \<longleftrightarrow> a = b"
  by (simp add: num_def)

lemma has_own_get: "\<not> has_own ps k \<Longrightarrow> js_get ps k = JUndef"
  by (simp add: has_own_def js_get_def flip: map_of_eq_None_iff)

definition leaf_schema :: "jsval \<Rightarrow> bool" where
  "leaf_schema s \<longleftrightarrow> is_plain s \<and> (\<forall>k \<in> {''$ref'', ''required'', ''properties'', ''additionalProperties'', ''items'',
     ''minItems'', ''maxItems'', ''uniqueItems'', ''anyOf'', ''oneOf'', ''allOf'', ''not''}. fld s k = JUndef)"

lemma check_leaf:
  assumes "leaf_schema s"
  shows "check (Suc n) cv defs s v path = Inr [] \<longleftrightarrow> sat_value cv s v"
proof -
  have f: "fld s ''$ref'' = JUndef" "fld s ''required'' = JUndef" "fld s ''properties'' = JUndef"
    "fld s ''additionalProperties'' = JUndef" "fld s ''items'' = JUndef" "fld s ''minItems'' = JUndef"
    "fld s ''maxItems'' = JUndef" "fld s ''uniqueItems'' = JUndef" "fld s ''anyOf'' = JUndef" "fld s ''oneOf'' = JUndef"
    "fld s ''allOf'' = JUndef" "fld s ''not'' = JUndef"
    using assms by (simp_all add: leaf_schema_def)
  have "check_ref chk defs s v path = Inr []" "check_object cv chk s v path = Inr []"
    "check_array cv chk s v path = Inr []" "check_branching chk s v path = Inr []" for chk
    by (simp_all add: f check_ref_def check_object_def check_additional_def check_array_def check_branching_def arr_of_def
        bound_ok_def split: option.split jsval.split)
  moreover have "s \<noteq> JBool b" for b
  proof -
    have "is_plain s"
      using assms by (simp add: leaf_schema_def)
    then show ?thesis
      by auto
  qed
  ultimately show ?thesis
    unfolding check_clean using check_leaf_Nil [of s v path cv] by simp
qed

lemma deepEqual_JStr [simp]: "deepEqual (JStr a) v \<longleftrightarrow> v = JStr a"
  by (cases v) (auto simp: deepEqual.simps)

lemma matches [simp]:
  "matchesType (JStr ''string'') v \<longleftrightarrow> (\<exists>s. v = JStr s)"
  "matchesType (JStr ''object'') v \<longleftrightarrow> isPlainValue v"
  "matchesType (JStr ''null'') v \<longleftrightarrow> v = JNull"
  "matchesType (JStr ''boolean'') v \<longleftrightarrow> (\<exists>b. v = JBool b)"
  "matchesType (JStr ''array'') v \<longleftrightarrow> is_arr v"
  "matchesType (JStr ''integer'') v \<longleftrightarrow> (\<exists>i. v = JNum (num i))"
  by (cases v; auto simp: matchesType_def isPlainValue_def num_int_Some dest: num_int_Some)+

text \<open>The field schemas that occur, with what they accept.\<close>

definition safe_nat :: "jsval \<Rightarrow> bool" where
  "safe_nat v \<longleftrightarrow> (\<exists>i. v = JNum (num i) \<and> 0 \<le> i \<and> i \<le> MAX_SAFE)"

definition text_of :: "nat \<Rightarrow> jsval \<Rightarrow> bool" where
  "text_of m v \<longleftrightarrow> (\<exists>s. v = JStr s \<and> s \<noteq> [] \<and> length s \<le> m)"

definition non_empty :: "jsval \<Rightarrow> bool" where
  "non_empty v \<longleftrightarrow> (\<exists>s. v = JStr s \<and> s \<noteq> [])"

definition one_of :: "string list \<Rightarrow> jsval \<Rightarrow> bool" where
  "one_of es v \<longleftrightarrow> (\<exists>s \<in> set es. v = JStr s)"

lemma check_text:
  assumes "conv_ok cv"
  shows "check (Suc n) cv defs (JObj [(''type'', JStr ''string''), (''minLength'', JNum (num 1)), (''description'', d)]) v path = Inr [] \<longleftrightarrow>
      non_empty v"
  using assms
  by (subst check_leaf)
    (auto simp: leaf_schema_def sat_value_def type_mismatch_def type_names_def bound_ok_def non_empty_def not_less Suc_le_eq)

lemma check_bounded_text:
  assumes "conv_ok cv"
  shows "check (Suc n) cv defs (JObj [(''type'', JStr ''string''), (''minLength'', JNum (num 1)),
        (''maxLength'', JNum (num (int m))), (''description'', d)]) v path = Inr [] \<longleftrightarrow> text_of m v"
  using assms
  by (subst check_leaf)
    (auto simp: leaf_schema_def sat_value_def type_mismatch_def type_names_def bound_ok_def text_of_def not_less Suc_le_eq)

lemma check_enum_of:
  "check (Suc n) cv defs (JObj [(''type'', JStr ''string''), (''enum'', JArr (map JStr es)), (''description'', d)]) v path = Inr [] \<longleftrightarrow>
     one_of es v"
  by (subst check_leaf; force simp: one_of_def leaf_schema_def sat_value_def type_mismatch_def type_names_def bound_ok_def)

lemma check_safe_nat:
  assumes "conv_ok cv"
  shows "check (Suc n) cv defs (JObj [(''type'', JStr ''integer''), (''minimum'', JNum (num 0)),
      (''maximum'', JNum (num 9007199254740991)), (''description'', d)]) v path = Inr [] \<longleftrightarrow> safe_nat v"
  using assms
  by (subst check_leaf)
    (auto simp: leaf_schema_def sat_value_def type_mismatch_def type_names_def bound_ok_def safe_nat_def MAX_SAFE_def num_def)

lemma check_natural:
  assumes "conv_ok cv"
  shows "check (Suc n) cv defs (JObj [(''type'', JStr ''integer''), (''minimum'', JNum (num 0)), (''description'', d)]) v path
      = Inr [] \<longleftrightarrow> (\<exists>i \<ge> 0. v = JNum (num i))"
  using assms
  by (subst check_leaf)
    (auto simp: leaf_schema_def sat_value_def type_mismatch_def type_names_def bound_ok_def num_def)

lemma check_row:
  "check (Suc n) cv defs (JObj [(''type'', JArr [JStr ''object'', JStr ''null'']), (''description'', d)]) v path = Inr [] \<longleftrightarrow>
     isPlainValue v \<or> v = JNull"
  by (subst check_leaf)
    (auto simp: leaf_schema_def sat_value_def type_mismatch_def type_names_def bound_ok_def)

lemma check_bool:
  "check (Suc n) cv defs (JObj [(''type'', JStr ''boolean''), (''description'', d)]) v path = Inr [] \<longleftrightarrow> (\<exists>b. v = JBool b)"
  by (subst check_leaf)
    (auto simp: leaf_schema_def sat_value_def type_mismatch_def type_names_def bound_ok_def)


section \<open>Envelopes\<close>

lemma seqE_around: "seqE (Inr a # xs @ [Inr b]) = Inr [] \<longleftrightarrow> a = [] \<and> (\<forall>x \<in> set xs. x = Inr []) \<and> b = []"
  unfolding seqE_clean by auto

text \<open>A closed object schema: its required keys, and a schema for each key it names.\<close>

lemma check_envelope:
  assumes "conv_ok cv"
    and s: "s = JObj [(''type'', JStr ''object''), (''title'', t), (''description'', d), (''additionalProperties'', JBool False),
      (''required'', JArr (map JStr names)), (''properties'', JObj subs)]"
  shows "check (Suc n) cv defs s (JObj ps) path = Inr [] \<longleftrightarrow>
    (\<forall>name \<in> set names. has_own ps name) \<and> fst ` set ps \<subseteq> fst ` set subs \<and>
    (\<forall>(name, sub) \<in> set subs. has_own ps name \<longrightarrow>
       check n cv defs sub (js_get ps name) (prop_path path name) = Inr [])"
proof -
  have "check_ref chk defs s v path = Inr []" "check_array cv chk s (JObj ps) path = Inr []"
    "check_branching chk s v path = Inr []" "check_enum s v path = []" for chk v
    by (simp_all add: s check_ref_def check_array_def check_branching_def check_enum_def arr_of_def)
  moreover have "check_string cv s (JObj ps) path = []" "check_number cv s (JObj ps) path = []"
    "\<not> type_mismatch s (JObj ps)"
    by (simp_all add: s check_string_def check_number_def type_mismatch_def type_names_def isPlainValue_def)
  moreover have "check_object cv chk s (JObj ps) path = Inr [] \<longleftrightarrow>
      (\<forall>name \<in> set names. has_own ps name) \<and> fst ` set ps \<subseteq> fst ` set subs \<and>
      (\<forall>(name, sub) \<in> set subs. has_own ps name \<longrightarrow> chk sub (js_get ps name) (prop_path path name) = Inr [])" for chk
  proof -
    let ?missing = "concat (map (\<lambda>name. if has_own ps (cv_String cv name) then [] else [(path, Missing_property name)])
      (map JStr names))"
    let ?outside = "filter (\<lambda>(name, _). \<not> has_own subs name) ps"
    let ?subs = "map (\<lambda>(name, sub). if has_own ps name then chk sub (js_get ps name) (prop_path path name) else Inr []) subs"
    have "check_object cv chk s (JObj ps) path =
        seqE (Inr ?missing # ?subs @ [Inr (map (\<lambda>(name, _). (path, Additional_property name)) ?outside)])"
      by (simp add: s check_object_def check_additional_def Let_def del: seqE.simps)
    moreover have "?missing = [] \<longleftrightarrow> (\<forall>name \<in> set names. has_own ps name)"
      using assms(1) by auto
    moreover have "?outside = [] \<longleftrightarrow> fst ` set ps \<subseteq> fst ` set subs"
      by (force simp: filter_empty_conv has_own_def)
    moreover have "(\<forall>x \<in> set ?subs. x = Inr []) \<longleftrightarrow>
        (\<forall>(name, sub) \<in> set subs. has_own ps name \<longrightarrow> chk sub (js_get ps name) (prop_path path name) = Inr [])"
      by auto
    ultimately show ?thesis
      by (simp only: seqE_around map_is_Nil_conv conj_ac)
  qed
  ultimately show ?thesis
    unfolding check_clean using s by simp
qed


lemmas field_checks = check_text check_bounded_text [where m = 256, unfolded of_nat_numeral] check_bounded_text [where m = 200, unfolded of_nat_numeral]
  check_safe_nat


text \<open>A field with a value of a schema's type is present.\<close>

lemma typed_own:
  "non_empty (js_get ps k) \<Longrightarrow> has_own ps k" "text_of m (js_get ps k) \<Longrightarrow> has_own ps k"
  "safe_nat (js_get ps k) \<Longrightarrow> has_own ps k" "isPlainValue (js_get ps k) \<Longrightarrow> has_own ps k"
  "js_get ps k = JNull \<Longrightarrow> has_own ps k" "js_get ps k = JStr s \<Longrightarrow> has_own ps k" "js_get ps k = JBool b \<Longrightarrow> has_own ps k"
  "js_get ps k = JArr xs \<Longrightarrow> has_own ps k" "one_of es (js_get ps k) \<Longrightarrow> has_own ps k"
  by (cases "has_own ps k"; simp add: has_own_get non_empty_def text_of_def safe_nat_def isPlainValue_def one_of_def)+

lemmas schema_checks = list.set ball_simps prod.case fst_conv field_checks check_row check_bool
  check_enum_of [where es = "[''upsert'', ''delete'']", unfolded list.map]
  check_enum_of [where es = "[''local_queue'', ''optimistic'', ''pessimistic'']", unfolded list.map]
  check_enum_of [where es = "[''return_result'', ''throw_error'', ''emit_only'']", unfolded list.map]
  check_enum_of [where es = "[''off'', ''errors'', ''lifecycle'', ''verbose'']", unfolded list.map]
  check_enum_of [where es = "[''local_queued'', ''send_started'', ''acknowledged'', ''retry_scheduled'', ''failed'',
    ''conflict_resolved'']", unfolded list.map]
  image_insert image_empty simp_thms

definition event_fields :: "props \<Rightarrow> bool" where
  "event_fields ps \<longleftrightarrow>
    fst ` set ps \<subseteq> {''table'', ''op'', ''id'', ''version'', ''row'', ''at_ms'', ''write_key'', ''sync_sequence''} \<and>
    non_empty (js_get ps ''table'') \<and> one_of [''upsert'', ''delete''] (js_get ps ''op'') \<and>
    non_empty (js_get ps ''id'') \<and> safe_nat (js_get ps ''version'') \<and>
    (isPlainValue (js_get ps ''row'') \<or> js_get ps ''row'' = JNull) \<and> safe_nat (js_get ps ''at_ms'') \<and>
    (has_own ps ''write_key'' \<longrightarrow> non_empty (js_get ps ''write_key'')) \<and>
    (has_own ps ''sync_sequence'' \<longrightarrow> safe_nat (js_get ps ''sync_sequence''))"

lemma check_event:
  assumes "conv_ok cv"
  shows "check (Suc (Suc n)) cv defs SyncChangeEvent (JObj ps) path = Inr [] \<longleftrightarrow> event_fields ps"
  unfolding SyncChangeEvent_def event_fields_def
  by (subst check_envelope [OF assms, where names = "[''table'', ''op'', ''id'', ''version'', ''row'', ''at_ms'']"])
    (simp, simp only: schema_checks assms, auto dest: typed_own)

lemma check_queued_write:
  assumes "conv_ok cv"
  shows "check (Suc (Suc n)) cv defs SyncQueuedWrite (JObj ps) path = Inr [] \<longleftrightarrow>
    fst ` set ps \<subseteq> {''id'', ''table'', ''op'', ''payload'', ''base_version'', ''key''} \<and>
    non_empty (js_get ps ''id'') \<and> non_empty (js_get ps ''table'') \<and>
    one_of [''upsert'', ''delete''] (js_get ps ''op'') \<and>
    (isPlainValue (js_get ps ''payload'') \<or> js_get ps ''payload'' = JNull) \<and>
    safe_nat (js_get ps ''base_version'') \<and> text_of 256 (js_get ps ''key'')"
  unfolding SyncQueuedWrite_def
  by (subst check_envelope [OF assms, where names = "[''id'', ''table'', ''op'', ''payload'', ''base_version'', ''key'']"])
    (simp, simp only: schema_checks assms, auto dest: typed_own)

lemma check_ack:
  assumes "conv_ok cv"
  shows "check (Suc (Suc n)) cv defs SyncWriteAcknowledgement (JObj ps) path = Inr [] \<longleftrightarrow>
    fst ` set ps \<subseteq> {''id'', ''committed_version''} \<and>
    non_empty (js_get ps ''id'') \<and> safe_nat (js_get ps ''committed_version'')"
  unfolding SyncWriteAcknowledgement_def
  by (subst check_envelope [OF assms, where names = "[''id'', ''committed_version'']"])
    (simp, simp only: schema_checks assms, auto dest: typed_own)

lemma check_policy:
  assumes "conv_ok cv"
  shows "check (Suc (Suc n)) cv defs SyncWritePolicy (JObj ps) path = Inr [] \<longleftrightarrow>
    fst ` set ps \<subseteq> {''strategy'', ''failure_mode'', ''telemetry''} \<and>
    one_of [''local_queue'', ''optimistic'', ''pessimistic''] (js_get ps ''strategy'') \<and>
    one_of [''return_result'', ''throw_error'', ''emit_only''] (js_get ps ''failure_mode'') \<and>
    one_of [''off'', ''errors'', ''lifecycle'', ''verbose''] (js_get ps ''telemetry'')"
  unfolding SyncWritePolicy_def
  by (subst check_envelope [OF assms, where names = "[''strategy'', ''failure_mode'', ''telemetry'']"])
    (simp, simp only: schema_checks assms, auto dest: typed_own)

lemma check_telemetry:
  assumes "conv_ok cv"
  shows "check (Suc (Suc n)) cv defs SyncTelemetryEvent (JObj ps) path = Inr [] \<longleftrightarrow>
    fst ` set ps \<subseteq> {''phase'', ''strategy'', ''table'', ''op'', ''at_ms'', ''attempts'', ''error_type''} \<and>
    one_of [''local_queued'', ''send_started'', ''acknowledged'', ''retry_scheduled'', ''failed'', ''conflict_resolved''] (js_get ps ''phase'') \<and>
    one_of [''local_queue'', ''optimistic'', ''pessimistic''] (js_get ps ''strategy'') \<and>
    non_empty (js_get ps ''table'') \<and> one_of [''upsert'', ''delete''] (js_get ps ''op'') \<and>
    safe_nat (js_get ps ''at_ms'') \<and>
    (has_own ps ''attempts'' \<longrightarrow> (\<exists>i \<ge> 0. js_get ps ''attempts'' = JNum (num i))) \<and>
    (has_own ps ''error_type'' \<longrightarrow> text_of 200 (js_get ps ''error_type''))"
  unfolding SyncTelemetryEvent_def
  by (subst check_envelope [OF assms, where names = "[''phase'', ''strategy'', ''table'', ''op'', ''at_ms'']"])
    (simp, simp only: schema_checks check_natural assms, auto dest: typed_own)


text \<open>The changes of a page: an array of references to the event schema.\<close>

lemma sync_def [simp]: "def_get SYNC_DEFS ''SyncChangeEvent'' = SyncChangeEvent"
  by (simp add: def_get_def SYNC_DEFS_def has_own_def)

lemma check_event_ref:
  "check (Suc n) cv SYNC_DEFS (JObj [(''$ref'', JStr ''#/$defs/SyncChangeEvent'')]) v path = Inr [] \<longleftrightarrow>
     check n cv SYNC_DEFS SyncChangeEvent v path = Inr []"
proof -
  let ?s = "JObj [(''$ref'', JStr ''#/$defs/SyncChangeEvent'')]"
  have "check_ref chk SYNC_DEFS ?s v path = chk SyncChangeEvent v path" for chk
    by (simp add: check_ref_def SyncChangeEvent_def [symmetric] split del: if_split) (simp add: SyncChangeEvent_def)
  moreover have "sat_value cv ?s v"
    by (simp add: sat_value_def type_mismatch_def bound_ok_def)
  moreover have "check_object cv chk ?s v path = Inr []" "check_array cv chk ?s v path = Inr []"
    "check_branching chk ?s v path = Inr []" for chk
    by (simp_all add: check_object_def check_additional_def check_array_def check_branching_def arr_of_def
        bound_ok_def split: option.split jsval.split)
  ultimately show ?thesis
    unfolding check_clean using check_leaf_Nil [of ?s v path cv] by simp
qed

lemma check_changes:
  assumes "conv_ok cv"
  shows "check (Suc (Suc (Suc (Suc n)))) cv SYNC_DEFS (JObj [(''type'', JStr ''array''),
      (''items'', JObj [(''$ref'', JStr ''#/$defs/SyncChangeEvent'')]), (''description'', d)]) (JArr (map JObj rows)) path = Inr []
    \<longleftrightarrow> (\<forall>r \<in> set rows. event_fields r)"
proof -
  let ?ref = "JObj [(''$ref'', JStr ''#/$defs/SyncChangeEvent'')]"
  let ?s = "JObj [(''type'', JStr ''array''), (''items'', ?ref), (''description'', d)]"
  let ?v = "JArr (map JObj rows)"
  have "check_ref chk SYNC_DEFS ?s ?v path = Inr []" "check_object cv chk ?s ?v path = Inr []"
    "check_branching chk ?s ?v path = Inr []" for chk
    by (simp_all add: check_ref_def check_object_def check_branching_def arr_of_def)
  moreover have "sat_value cv ?s ?v"
    by (simp add: sat_value_def type_mismatch_def type_names_def bound_ok_def)
  moreover have "check_array cv chk ?s ?v path = Inr [] \<longleftrightarrow>
      (\<forall>i < length rows. chk ?ref (JObj (rows ! i)) (branch_path path i) = Inr [])" for chk
    by (simp add: check_array_def set_enumerate bound_ok_def del: seqE.simps) (auto simp: set_enumerate)
  ultimately show ?thesis
    unfolding check_clean using check_leaf_Nil [of ?s ?v path cv]
    by (simp add: check_event_ref check_event [OF assms] all_set_conv_all_nth del: check.simps)
qed


lemma check_pull_page:
  assumes "conv_ok cv" and "js_get ps ''changes'' = JArr (map JObj rows)"
  shows "check (Suc (Suc (Suc (Suc (Suc n))))) cv SYNC_DEFS SyncPullPage (JObj ps) path = Inr [] \<longleftrightarrow>
    fst ` set ps \<subseteq> {''changes'', ''next_cursor'', ''has_more''} \<and> (\<forall>r \<in> set rows. event_fields r) \<and>
    safe_nat (js_get ps ''next_cursor'') \<and> (\<exists>b. js_get ps ''has_more'' = JBool b)"
proof -
  have "has_own ps ''changes''"
    using typed_own(8) assms(2) by blast
  then show ?thesis
    unfolding SyncPullPage_def
    by (subst check_envelope [OF assms(1), where names = "[''changes'', ''next_cursor'', ''has_more'']"])
      (simp, simp only: schema_checks check_changes assms, auto dest: typed_own)
qed

section \<open>The canonical validator\<close>

lemma sync_schema_loads: "makeValidator SYNC_SCHEMA = Inr SYNC_DEFS"
  by code_simp

text \<open>\<open>validateSyncEnvelope\<close>: the validator of the embedded schema.\<close>

definition validateSyncEnvelope :: "conv \<Rightarrow> string \<Rightarrow> jsval \<Rightarrow> violation list res" where
  "validateSyncEnvelope cv definition_name value =
     (case makeValidator SYNC_SCHEMA of
        Inl e \<Rightarrow> Inl e
      | Inr defs \<Rightarrow> validate cv defs definition_name value)"

definition assertSyncEnvelope :: "conv \<Rightarrow> string \<Rightarrow> jsval \<Rightarrow> validation_failure + jsval" where
  "assertSyncEnvelope cv definition_name value =
     (case makeValidator SYNC_SCHEMA of
        Inl e \<Rightarrow> Inl (Threw e)
      | Inr defs \<Rightarrow> assert_valid cv defs definition_name value)"

lemma envelope_check:
  assumes "map_of SYNC_DEFS name = Some s" "s \<noteq> JUndef"
  shows "validateSyncEnvelope cv name v = check (Suc (Suc (Suc (Suc (Suc 60))))) cv SYNC_DEFS s v ''$''"
proof -
  have "def_get SYNC_DEFS name = s"
    using assms(1) by (auto simp: def_get_def has_own_def js_get_def dest: map_of_SomeD intro: rev_image_eqI)
  then show ?thesis
    using assms(2)
    by (simp add: validateSyncEnvelope_def sync_schema_loads validate_def Let_def SCHEMA_MAX_DEPTH_def
        eval_nat_numeral del: check.simps)
qed

lemma envelope_names:
  "map_of SYNC_DEFS ''SyncChangeEvent'' = Some SyncChangeEvent"
  "map_of SYNC_DEFS ''SyncQueuedWrite'' = Some SyncQueuedWrite"
  "map_of SYNC_DEFS ''SyncWriteAcknowledgement'' = Some SyncWriteAcknowledgement"
  "map_of SYNC_DEFS ''SyncPullPage'' = Some SyncPullPage"
  "map_of SYNC_DEFS ''SyncWritePolicy'' = Some SyncWritePolicy"
  "map_of SYNC_DEFS ''SyncTelemetryEvent'' = Some SyncTelemetryEvent"
  by (simp_all add: SYNC_DEFS_def)

lemma envelopes_present:
  "SyncChangeEvent \<noteq> JUndef" "SyncQueuedWrite \<noteq> JUndef" "SyncWriteAcknowledgement \<noteq> JUndef"
  "SyncPullPage \<noteq> JUndef" "SyncWritePolicy \<noteq> JUndef" "SyncTelemetryEvent \<noteq> JUndef"
  by (simp_all add: SyncChangeEvent_def SyncQueuedWrite_def SyncWriteAcknowledgement_def SyncPullPage_def
      SyncWritePolicy_def SyncTelemetryEvent_def)

lemmas envelope_checks = envelope_names [THEN envelope_check] envelopes_present

lemma safe_nat_int: "safe_nat v \<longleftrightarrow> (\<exists>i. js_safe_int v = Some i \<and> 0 \<le> i)"
  by (cases v) (auto simp: safe_nat_def safe_int_num dest!: safe_int_Some)


end
