(* ===== verification/Envelopes.thy ===== *)
theory Envelopes
  imports Sync_Schema
begin

text \<open>
  The envelopes of the canonical schema against the code that makes and takes them: what
  validates is what the decoders, the client and the catch-up accept, with the differences
  stated exactly, and what the client sends and reports validates.
\<close>

lemma js_safe_num [simp]: "js_safe_int (JNum (num i)) = (if \<bar>i\<bar> \<le> MAX_SAFE then Some i else None)"
  by (simp add: safe_int_num)

text \<open>
  C29. The change events the canonical schema accepts are exactly those of the decoder that
  also have no undeclared field, a non-empty table and id, a version of at least 0, an
  object or null as row, a commit time, and, where they carry them, a non-empty write key
  and a sequence. So no schema-valid event is dropped by the transport.
\<close>
theorem schema_event_decodes:
  assumes "conv_ok cv"
  shows "validateSyncEnvelope cv ''SyncChangeEvent'' (JObj ps) = Inr [] \<longleftrightarrow>
    isChangeEvent (JObj ps) \<and>
    fst ` set ps \<subseteq> {''table'', ''op'', ''id'', ''version'', ''row'', ''at_ms'', ''write_key'', ''sync_sequence''} \<and>
    ev_table (event_of (JObj ps)) \<noteq> [] \<and> ev_id (event_of (JObj ps)) \<noteq> [] \<and>
    0 \<le> ev_version (event_of (JObj ps)) \<and>
    (isPlainValue (ev_row (event_of (JObj ps))) \<or> ev_row (event_of (JObj ps)) = JNull) \<and>
    safe_nat (js_get ps ''at_ms'') \<and>
    (has_own ps ''write_key'' \<longrightarrow> non_empty (js_get ps ''write_key'')) \<and>
    (has_own ps ''sync_sequence'' \<longrightarrow> safe_nat (js_get ps ''sync_sequence''))"
proof -
  have key: "is_nullish (js_get ps ''write_key'') \<or> typeof (js_get ps ''write_key'') = ''string''"
    if "has_own ps ''write_key'' \<longrightarrow> non_empty (js_get ps ''write_key'')"
    using that has_own_get [of ps "''write_key''"] by (auto simp: is_nullish_def non_empty_def)
  have version: "safe_nat (js_get ps ''version'') \<longleftrightarrow>
      js_safe_int (js_get ps ''version'') \<noteq> None \<and> 0 \<le> ev_version (event_of (JObj ps))"
    by (auto simp: safe_nat_int event_of_def)
  have strings: "non_empty v \<longleftrightarrow> typeof v = ''string'' \<and> str_of v \<noteq> []" for v
    by (cases v) (auto simp: non_empty_def)
  have op: "one_of [''upsert'', ''delete''] (js_get ps ''op'') \<longleftrightarrow>
      js_get ps ''op'' = JStr ''upsert'' \<or> js_get ps ''op'' = JStr ''delete''"
    by (simp add: one_of_def)
  show ?thesis
    unfolding envelope_checks(1) [OF envelopes_present(1)] check_event [OF assms] event_fields_def version op
    using key by (auto simp: isChangeEvent_def event_of_def strings)
qed


lemma event_fields_decode: "event_fields r \<Longrightarrow> isChangeEvent (JObj r)"
  using has_own_get [of r "''write_key''"]
  by (auto simp: event_fields_def isChangeEvent_def non_empty_def one_of_def safe_nat_int is_nullish_def)

text \<open>
  A catch-up page that validates is refused by the client only for its cursor: every
  change of it passes the decoder's guard, and \<open>check_page\<close> accepts it unless its cursor goes
  backwards or stands still on a page that has changes or announces more.
\<close>
lemma schema_page_accepted:
  assumes "conv_ok cv" and "js_get ps ''changes'' = JArr (map JObj rows)"
    and "validateSyncEnvelope cv ''SyncPullPage'' (JObj ps) = Inr []"
  shows "(\<forall>r \<in> set rows. isChangeEvent (JObj r)) \<and>
    (\<exists>nc more. js_get ps ''next_cursor'' = JNum (num nc) \<and> js_get ps ''has_more'' = JBool more \<and>
       0 \<le> nc \<and> nc \<le> MAX_SAFE \<and>
       check_page cursor (JObj ps) =
         (if nc < cursor then Inl bad_page
          else if (more \<or> rows \<noteq> []) \<and> nc = cursor then Inl no_progress
          else Inr (map JObj rows, nc, more)))"
proof -
  note page = assms(3) [unfolded envelope_checks(4) [OF envelopes_present(4)] check_pull_page [OF assms(1,2)]]
  have "\<forall>r \<in> set rows. isChangeEvent (JObj r)"
    using page event_fields_decode by blast
  moreover obtain nc more where "js_get ps ''next_cursor'' = JNum (num nc)" "0 \<le> nc" "nc \<le> MAX_SAFE"
    "js_get ps ''has_more'' = JBool more"
    using page by (auto simp: safe_nat_def)
  ultimately show ?thesis
    using assms(2) by (auto simp: check_page_def safe_int_num)
qed

text \<open>
  C30. What the backend transport posts validates as a queued write exactly when the write
  names a row and a table, carries an object or nothing, is based on a version a double
  holds exactly, and its key has between 1 and 256 characters.
\<close>
theorem schema_wire_write:
  assumes "conv_ok cv"
  shows "validateSyncEnvelope cv ''SyncQueuedWrite'' (wireWrite w key) = Inr [] \<longleftrightarrow>
    qw_id w \<noteq> [] \<and> qw_table w \<noteq> [] \<and> (isPlainValue (qw_payload w) \<or> is_nullish (qw_payload w)) \<and>
    0 \<le> qw_base_version w \<and> qw_base_version w \<le> MAX_SAFE \<and> 1 \<le> length key \<and> length key \<le> 256"
proof -
  have payload: "isPlainValue (coalesce v JNull) \<or> coalesce v JNull = JNull \<longleftrightarrow> isPlainValue v \<or> is_nullish v" for v
    by (auto simp: coalesce_def isPlainValue_def is_nullish_def)
  have op: "one_of [''upsert'', ''delete''] (JStr (op_name p))" for p
    by (simp add: one_of_def op_name_def split: change_op.split)
  show ?thesis
    unfolding wireWrite_def envelope_checks(2) [OF envelopes_present(2)] check_queued_write [OF assms]
    using payload op by (auto simp: non_empty_def safe_nat_def text_of_def Suc_le_eq)
qed

text \<open>
  For a queued write with an id, an acknowledgement validates and names that id exactly
  when the client accepts it and it has no other field.
\<close>
lemma schema_ack_accepted:
  assumes "conv_ok cv" "qw_id w \<noteq> []"
  shows "validateSyncEnvelope cv ''SyncWriteAcknowledgement'' (JObj ps) = Inr [] \<and> js_get ps ''id'' = JStr (qw_id w) \<longleftrightarrow>
    (\<exists>ack. validateAck w (JObj ps) = Inr ack) \<and> fst ` set ps \<subseteq> {''id'', ''committed_version''}"
  unfolding envelope_checks(3) [OF envelopes_present(3)] check_ack [OF assms(1)]
  using assms(2)
  by (auto simp: validateAck_def safe_nat_int non_empty_def split: option.split if_split)

text \<open>
  A write policy that validates is accepted by the client unless it combines emit-only
  failures with telemetry off, which the schema cannot exclude.
\<close>
lemma schema_policy_accepted:
  assumes "conv_ok cv" "validateSyncEnvelope cv ''SyncWritePolicy'' (JObj ps) = Inr []"
  shows "(\<exists>p. validateWritePolicy (JObj ps) = Inr p) \<longleftrightarrow>
    \<not> (js_get ps ''failure_mode'' = JStr ''emit_only'' \<and> js_get ps ''telemetry'' = JStr ''off'')"
proof -
  have "one_of [''local_queue'', ''optimistic'', ''pessimistic''] (js_get ps ''strategy'')"
    "one_of [''return_result'', ''throw_error'', ''emit_only''] (js_get ps ''failure_mode'')"
    "one_of [''off'', ''errors'', ''lifecycle'', ''verbose''] (js_get ps ''telemetry'')"
    using assms(2) unfolding envelope_checks(5) [OF envelopes_present(5)] check_policy [OF assms(1)] by blast+
  then show ?thesis
    by (auto simp: one_of_def validateWritePolicy_def WRITE_STRATEGIES_def FAILURE_MODES_def TELEMETRY_LEVELS_def)
qed

text \<open>The telemetry event as the object the sink gets: \<open>extra\<close> adds only what a report has.\<close>

definition telemetry_value :: "tel_event \<Rightarrow> jsval" where
  "telemetry_value e = JObj (
     [(''phase'', JStr (phase_name (te_phase e))), (''strategy'', JStr (strategy_name (te_strategy e))),
      (''table'', JStr (te_table e)), (''op'', JStr (op_name (te_op e))), (''at_ms'', JNum (num (te_at_ms e)))] @
     (case te_attempts e of Some n \<Rightarrow> [(''attempts'', JNum (num (int n)))] | None \<Rightarrow> []) @
     (case te_error_type e of Some t \<Rightarrow> [(''error_type'', JStr t)] | None \<Rightarrow> []))"

text \<open>
  C33. Every telemetry event of a named table at a time a double holds validates, whatever its
  phase, attempts and error: no error type is empty or longer than 200 characters.
\<close>
theorem schema_telemetry_event:
  assumes "conv_ok cv" "te_table e \<noteq> []" "0 \<le> te_at_ms e" "te_at_ms e \<le> MAX_SAFE"
    and "te_error_type e = map_option errorType err"
  shows "validateSyncEnvelope cv ''SyncTelemetryEvent'' (telemetry_value e) = Inr []"
proof -
  have err: "text_of 200 (JStr (errorType x))" for x
  proof -
    have "list_all (\<lambda>s. text_of 200 (JStr s))
        (SAFE_ERROR_TYPES @ [''undefined'', ''object'', ''boolean'', ''number'', ''string'', ''function''])"
      by (simp add: SAFE_ERROR_TYPES_def text_of_def)
    moreover have "errorType x \<in> set (SAFE_ERROR_TYPES @
        [''undefined'', ''object'', ''boolean'', ''number'', ''string'', ''function''])"
      using errorType_bounded [of x] by simp
    ultimately show ?thesis
      by (simp only: list_all_iff)
  qed
  have names: "one_of [''upsert'', ''delete''] (JStr (op_name (te_op e)))"
    "one_of [''local_queue'', ''optimistic'', ''pessimistic''] (JStr (strategy_name (te_strategy e)))"
    "one_of [''local_queued'', ''send_started'', ''acknowledged'', ''retry_scheduled'', ''failed'', ''conflict_resolved'']
       (JStr (phase_name (te_phase e)))"
    by (simp_all add: one_of_def op_name_def strategy_name_def phase_name_def
        split: change_op.split write_strategy.split phase.split)
  show ?thesis
    unfolding telemetry_value_def envelope_checks(6) [OF envelopes_present(6)] check_telemetry [OF assms(1)]
    using assms(2-5) names err
    by (auto simp: non_empty_def safe_nat_def has_own_def split: option.splits)
qed


section \<open>Samples\<close>

lemma sample_conv_ok: "conv_ok sample_conv"
  by (simp add: conv_ok_def sample_conv_def)

definition valid_event :: props where
  "valid_event = [(''table'', JStr ''notes''), (''op'', JStr ''upsert''), (''id'', JStr ''n1''),
     (''version'', JNum (num 3)), (''row'', JObj []), (''at_ms'', JNum (num 5))]"

lemma safe_nat_num [simp]: "safe_nat (JNum (num i)) \<longleftrightarrow> 0 \<le> i \<and> i \<le> MAX_SAFE"
  by (simp add: safe_nat_def)

lemma small_safe [simp]: "(3 :: int) \<le> MAX_SAFE" "(5 :: int) \<le> MAX_SAFE" "(7 :: int) \<le> MAX_SAFE" "(0 :: int) \<le> MAX_SAFE"
  by (simp_all add: MAX_SAFE_def)

theorem schema_event_decodes_witness:
  "validateSyncEnvelope sample_conv ''SyncChangeEvent'' (JObj valid_event) = Inr [] \<and>
   validateSyncEnvelope sample_conv ''SyncChangeEvent'' (JObj ((''owner'', JNull) # valid_event)) \<noteq> Inr []"
  unfolding schema_event_decodes [OF sample_conv_ok]
  by (simp add: valid_event_def isChangeEvent_def event_of_def has_own_def isPlainValue_def is_nullish_def safe_int_num)

theorem schema_wire_write_witness:
  "validateSyncEnvelope sample_conv ''SyncQueuedWrite'' (wireWrite sample_write ''k'') = Inr []"
  unfolding schema_wire_write [OF sample_conv_ok]
  by (simp add: sample_write_def isPlainValue_def is_nullish_def)

definition sample_intent :: sync_write where
  "sample_intent = sync_write.truncate sample_write"

definition silent_policy :: props where
  "silent_policy = [(''strategy'', JStr ''optimistic''), (''failure_mode'', JStr ''emit_only''), (''telemetry'', JStr ''off'')]"

theorem schema_telemetry_event_witness:
  "validateSyncEnvelope sample_conv ''SyncTelemetryEvent'' (telemetry_value
     \<lparr>te_phase = Failed, te_strategy = Optimistic, te_table = ''notes'', te_op = Upsert, te_at_ms = 5,
      te_attempts = Some 2, te_error_type = Some (errorType (JsError ''NotesDown'' ''no''))\<rparr>) = Inr []"
  by (rule schema_telemetry_event [OF sample_conv_ok, where err = "Some (JsError ''NotesDown'' ''no'')"]) simp_all

end
