(* ===== verification/Zod_Schemas.thy ===== *)
theory Zod_Schemas
  imports Envelopes
begin

text \<open>
  \<open>zodSchemas\<close> (validate.mjs): the schemas the factory builds with the zod of the caller, as
  the tree of the calls it makes, what the library promises of such a tree, and the part of
  the schemas whose image is faithful.
\<close>

section \<open>The calls\<close>

text \<open>
  One constructor for each builder and method the factory calls. A bound is the value the
  schema has. \<open>Z_lazy\<close> holds the name its callback looks up in the registry, \<open>Z_refine\<close> the
  constants its predicate compares with, \<open>Z_object\<close> the shape and the argument of \<open>catchall\<close>.
\<close>

datatype zod =
    Z_unknown
  | Z_never
  | Z_lazy string
  | Z_union "zod list"
  | Z_literal jsval
  | Z_enum "jsval list"
  | Z_string
  | Z_min zod jsval
  | Z_max zod jsval
  | Z_number
  | Z_int zod
  | Z_gte zod jsval
  | Z_lte zod jsval
  | Z_gt zod jsval
  | Z_lt zod jsval
  | Z_boolean
  | Z_array zod
  | Z_object "(string \<times> zod) list" zod
  | Z_optional zod
  | Z_refine zod "jsval list"
  | Z_nullable zod

definition unsupported :: "string \<Rightarrow> js_error" where
  "unsupported why = TypeErr (''zodSchemas cannot map this schema: '' @ why)"

text \<open>\<open>built.m(schema[k])\<close> where the keyword is present.\<close>

definition with_bound :: "jsval \<Rightarrow> string \<Rightarrow> (zod \<Rightarrow> jsval \<Rightarrow> zod) \<Rightarrow> zod \<Rightarrow> zod" where
  "with_bound schema k m built = (if fld schema k \<noteq> JUndef then m built (fld schema k) else built)"

definition types_of :: "jsval \<Rightarrow> jsval list option" where
  "types_of schema = (if fld schema ''type'' = JUndef then None else Some (type_names (fld schema ''type'')))"

definition nullable :: "jsval \<Rightarrow> bool" where
  "nullable schema = (case types_of schema of Some ts \<Rightarrow> JStr ''null'' \<in> set ts | None \<Rightarrow> False)"

definition core_types :: "jsval \<Rightarrow> jsval list option" where
  "core_types schema = map_option (filter (\<lambda>t. t \<noteq> JStr ''null'')) (types_of schema)"

text \<open>\<^verbatim>\<open>core?.[0]\<close>.\<close>

definition kind_of :: "jsval \<Rightarrow> jsval" where
  "kind_of schema = (case core_types schema of Some (t # _) \<Rightarrow> t | _ \<Rightarrow> JUndef)"

definition string_type :: "jsval \<Rightarrow> zod" where
  "string_type schema =
     (case fld schema ''enum'' of
        JArr cs \<Rightarrow> Z_enum cs
      | _ \<Rightarrow> with_bound schema ''maxLength'' Z_max (with_bound schema ''minLength'' Z_min Z_string))"

definition number_type :: "jsval \<Rightarrow> zod" where
  "number_type schema =
     with_bound schema ''exclusiveMaximum'' Z_lt (with_bound schema ''exclusiveMinimum'' Z_gt
       (with_bound schema ''maximum'' Z_lte (with_bound schema ''minimum'' Z_gte
         (if kind_of schema = JStr ''integer'' then Z_int Z_number else Z_number))))"

definition array_type :: "jsval \<Rightarrow> zod \<Rightarrow> zod" where
  "array_type schema items = with_bound schema ''maxItems'' Z_max (with_bound schema ''minItems'' Z_min (Z_array items))"

definition object_type :: "jsval \<Rightarrow> (string \<times> zod) list \<Rightarrow> zod" where
  "object_type schema shape =
     Z_object shape (if fld schema ''additionalProperties'' = JBool False then Z_never else Z_unknown)"

text \<open>The refinement by \<open>enum\<close> and \<open>nullable\<close>, which end the mapping of a node.\<close>

definition refine_and_null :: "jsval \<Rightarrow> zod \<Rightarrow> zod" where
  "refine_and_null schema built =
     (let refined = (case fld schema ''enum'' of
            JArr cs \<Rightarrow> if kind_of schema \<noteq> JStr ''string'' then Z_refine built cs else built
          | _ \<Rightarrow> built)
      in if nullable schema then Z_nullable refined else refined)"

definition union_of :: "zod list \<Rightarrow> zod" where
  "union_of branches = (case branches of [b] \<Rightarrow> b | _ \<Rightarrow> Z_union branches)"

lemma fld_size: "fld s k \<noteq> JUndef \<Longrightarrow> size (fld s k) < size s"
proof -
  assume "fld s k \<noteq> JUndef"
  then obtain es where es: "obj_props s = Some es" "(k, fld s k) \<in> set es"
    by (auto simp: fld_def js_get_def dest: map_of_SomeD split: option.splits)
  from es(2) have "size (fld s k) < props_size es"
    by (induction es) auto
  then show ?thesis
    using obj_props_size [OF es(1)] by simp
qed

text \<open>
  \<open>build(schema, path)\<close>. An assignment to \<open>shape.__proto__\<close> adds no key to the shape.
\<close>

function build :: "props \<Rightarrow> jsval \<Rightarrow> string \<Rightarrow> zod res"
  and build_type :: "props \<Rightarrow> jsval \<Rightarrow> string \<Rightarrow> zod res"
  and build_branches :: "props \<Rightarrow> jsval list \<Rightarrow> string \<Rightarrow> nat \<Rightarrow> zod list res"
  and build_shape :: "props \<Rightarrow> jsval list \<Rightarrow> props \<Rightarrow> string \<Rightarrow> (string \<times> zod) list res" where
  "build defs schema path =
     (if schema = JBool True then Inr Z_unknown
      else if schema = JBool False then Inr Z_never
      else if \<not> isPlainValue schema then Inl (unsupported (''non-object schema at '' @ path))
      else if truthy (fld schema ''allOf'') \<or> truthy (fld schema ''not'')
      then Inl (unsupported (''allOf/not at '' @ path @ '' have no faithful zod mapping here''))
      else if typeof (fld schema ''$ref'') = ''string'' then
        (case fld schema ''$ref'' of
           JStr r \<Rightarrow>
             if take 8 r = ''#/$defs/'' \<and> def_get defs (drop 8 r) \<noteq> JUndef then Inr (Z_lazy (drop 8 r))
             else Inl (unsupported (''unresolvable $ref at '' @ path))
         | _ \<Rightarrow> Inl (unsupported path))
      else if is_arr (fld schema ''anyOf'') \<or> is_arr (fld schema ''oneOf'') then
        (case coalesce (fld schema ''anyOf'') (fld schema ''oneOf'') of
           JArr bs \<Rightarrow> map_res union_of (build_branches defs bs (path @ ''/union'') 0)
         | _ \<Rightarrow> Inl (TypeErr ''(intermediate value).map is not a function''))
      else if fld schema ''const'' \<noteq> JUndef then Inr (Z_literal (fld schema ''const''))
      else if (case core_types schema of Some core \<Rightarrow> length core \<noteq> 1 | None \<Rightarrow> False)
      then Inl (TypeErrAt (''zodSchemas cannot map this schema: multi-type at '' @ path) (fld schema ''type''))
      else map_res (refine_and_null schema) (build_type defs schema path))"
| "build_type defs schema path =
     (let kind = kind_of schema in
      if kind = JUndef then Inr Z_unknown
      else if kind = JStr ''string'' then Inr (string_type schema)
      else if kind = JStr ''integer'' \<or> kind = JStr ''number'' then Inr (number_type schema)
      else if kind = JStr ''boolean'' then Inr Z_boolean
      else if kind = JStr ''array'' then
        map_res (array_type schema)
          (if fld schema ''items'' \<noteq> JUndef then build defs (fld schema ''items'') (child_path path ''items'')
           else Inr Z_unknown)
      else if kind = JStr ''object'' then
        (case rows_of (fld schema ''required'') of
           Inl e \<Rightarrow> Inl e
         | Inr required \<Rightarrow>
             map_res (object_type schema)
               (case obj_props (fld schema ''properties'') of
                  Some subs \<Rightarrow> build_shape defs required subs (child_path path ''properties'')
                | None \<Rightarrow> Inr []))
      else Inl (TypeErrAt (''zodSchemas cannot map this schema: type at '' @ path) kind))"
| "build_branches defs [] path i = Inr []"
| "build_branches defs (b # bs) path i =
     (case build defs b (branch_path path i) of
        Inl e \<Rightarrow> Inl e
      | Inr z \<Rightarrow> map_res ((#) z) (build_branches defs bs path (Suc i)))"
| "build_shape defs required [] path = Inr []"
| "build_shape defs required ((name, sub) # subs) path =
     (case build defs sub (child_path path name) of
        Inl e \<Rightarrow> Inl e
      | Inr field \<Rightarrow>
          map_res (\<lambda>shape. if name = ''__proto__'' then shape
              else (name, if JStr name \<in> set required then field else Z_optional field) # shape)
            (build_shape defs required subs path))"
  by pat_completeness auto
termination
proof (relation "measure (case_sum
      (case_sum (\<lambda>(_, a, _). Suc (2 * size a)) (\<lambda>(_, a, _). 2 * size a))
      (case_sum (\<lambda>(_, bs, _). 2 * size_list size bs) (\<lambda>(_, _, ps, _). 2 * props_size ps)))", goal_cases)
  case 1
  then show ?case by simp
next
  case (2 defs schema path bs)
  then have "size (JArr bs) < size schema"
    using fld_size [of schema "''anyOf''"] fld_size [of schema "''oneOf''"]
    by (auto simp: coalesce_def split: if_splits)
  then show ?case by simp
next
  case (4 defs schema path)
  then show ?case
    using fld_size [of schema "''items''"] by simp
next
  case (5 defs schema path)
  then have "fld schema ''properties'' \<noteq> JUndef"
    by auto
  from fld_size [OF this] 5 show ?case
    using obj_props_size by fastforce
qed simp_all

declare build.simps [simp del] build_type.simps [simp del]

section \<open>The registry\<close>

type_synonym registry = "(string \<times> zod) list"

text \<open>
  \<open>registry[name] ??= ...\<close>: what the registry has or inherits under the name stays.
\<close>

fun build_defs :: "props \<Rightarrow> string list \<Rightarrow> registry \<Rightarrow> registry res" where
  "build_defs defs [] registry = Inr registry"
| "build_defs defs (name # names) registry =
     (if name \<in> fst ` set registry \<or> name \<in> set INHERITED \<or> name = ''__proto__''
      then build_defs defs names registry
      else case build defs (js_get defs name) (''#/$defs/'' @ name) of
        Inl e \<Rightarrow> Inl e
      | Inr z \<Rightarrow> build_defs defs names (registry @ [(name, z)]))"

definition zodSchemas :: "bool \<Rightarrow> jsval \<Rightarrow> registry res" where
  "zodSchemas z_usable schemaDocument =
     (if \<not> z_usable then Inl (TypeErr ''zodSchemas needs the zod instance of the caller'')
      else case checkSupported schemaDocument ''#'' of
        Inl e \<Rightarrow> Inl e
      | Inr _ \<Rightarrow>
          (let defs = (case obj_props (fld schemaDocument ''$defs'') of Some defs \<Rightarrow> defs | None \<Rightarrow> [])
           in build_defs defs (map fst defs) []))"

section \<open>What the library promises\<close>

text \<open>
  JSON values whose integers are safe, which is where \<^verbatim>\<open>z.number().int()\<close> of zod 4 and
  \<^verbatim>\<open>Number.isInteger\<close> agree.
\<close>

fun json_safe :: "jsval \<Rightarrow> bool" where
  "json_safe JUndef = False"
| "json_safe (JNum n) = (case n of Fin r \<Rightarrow> num_int n = safe_int n | _ \<Rightarrow> False)"
| "json_safe (JArr xs) = list_all json_safe xs"
| "json_safe (JObj ps) = list_all (\<lambda>p. json_safe (snd p)) ps"
| "json_safe (JOpaque _ _) = False"
| "json_safe _ = True"

text \<open>\<open>acc reg z v\<close>: the schema \<open>z\<close> accepts \<open>v\<close> when the lazy names are those of \<open>reg\<close>.\<close>

type_synonym acceptor = "(string \<Rightarrow> zod option) \<Rightarrow> zod \<Rightarrow> jsval \<Rightarrow> bool"

text \<open>The documented behaviour, on JSON values and \<^verbatim>\<open>undefined\<close>.\<close>

definition zod_laws :: "acceptor \<Rightarrow> bool" where
  "zod_laws acc \<longleftrightarrow> (\<forall>reg v. json_safe v \<or> v = JUndef \<longrightarrow>
     acc reg Z_unknown v \<and> \<not> acc reg Z_never v \<and>
     (\<forall>name z. reg name = Some z \<longrightarrow> acc reg (Z_lazy name) v = acc reg z v) \<and>
     (\<forall>zs. zs \<noteq> [] \<longrightarrow> acc reg (Z_union zs) v = (\<exists>z \<in> set zs. acc reg z v)) \<and>
     (\<forall>c. typeof c \<in> {''string'', ''number'', ''boolean''} \<or> c = JNull \<longrightarrow> acc reg (Z_literal c) v = (v = c)) \<and>
     (\<forall>ss. acc reg (Z_enum (map JStr ss)) v = (\<exists>s \<in> set ss. v = JStr s)) \<and>
     acc reg Z_string v = (typeof v = ''string'') \<and>
     acc reg Z_number v = (typeof v = ''number'') \<and>
     acc reg Z_boolean v = (typeof v = ''boolean'') \<and>
     (\<forall>z. acc reg (Z_int z) v = (acc reg z v \<and> (\<exists>n. v = JNum n \<and> safe_int n \<noteq> None))) \<and>
     (\<forall>z r. acc reg (Z_min z (JNum (Fin r))) v = (acc reg z v \<and>
        (\<forall>s. v = JStr s \<longrightarrow> r \<le> of_nat (length s)) \<and> (\<forall>xs. v = JArr xs \<longrightarrow> r \<le> of_nat (length xs)))) \<and>
     (\<forall>z r. acc reg (Z_max z (JNum (Fin r))) v = (acc reg z v \<and>
        (\<forall>s. v = JStr s \<longrightarrow> of_nat (length s) \<le> r) \<and> (\<forall>xs. v = JArr xs \<longrightarrow> of_nat (length xs) \<le> r))) \<and>
     (\<forall>z r. acc reg (Z_gte z (JNum (Fin r))) v = (acc reg z v \<and> (\<forall>x. v = JNum (Fin x) \<longrightarrow> r \<le> x))) \<and>
     (\<forall>z r. acc reg (Z_lte z (JNum (Fin r))) v = (acc reg z v \<and> (\<forall>x. v = JNum (Fin x) \<longrightarrow> x \<le> r))) \<and>
     (\<forall>z r. acc reg (Z_gt z (JNum (Fin r))) v = (acc reg z v \<and> (\<forall>x. v = JNum (Fin x) \<longrightarrow> r < x))) \<and>
     (\<forall>z r. acc reg (Z_lt z (JNum (Fin r))) v = (acc reg z v \<and> (\<forall>x. v = JNum (Fin x) \<longrightarrow> x < r))) \<and>
     (\<forall>z. acc reg (Z_array z) v = (\<exists>xs. v = JArr xs \<and> (\<forall>x \<in> set xs. acc reg z x))) \<and>
     (\<forall>shape rest. acc reg (Z_object shape rest) v = (\<exists>ps. v = JObj ps \<and>
        (\<forall>(k, z) \<in> set shape. acc reg z (js_get ps k)) \<and>
        (\<forall>(k, x) \<in> set ps. k \<in> fst ` set shape \<or> acc reg rest x))) \<and>
     (\<forall>z. acc reg (Z_optional z) v = (v = JUndef \<or> acc reg z v)) \<and>
     (\<forall>z cs. acc reg (Z_refine z cs) v = (acc reg z v \<and> (\<exists>c \<in> set cs. deepEqual c v))) \<and>
     (\<forall>z. acc reg (Z_nullable z) v = (v = JNull \<or> acc reg z v)))"

lemma zod_lawsD:
  assumes "zod_laws acc" "json_safe v \<or> v = JUndef"
  shows "acc reg Z_unknown v" "\<not> acc reg Z_never v"
    "reg name = Some z \<Longrightarrow> acc reg (Z_lazy name) v = acc reg z v"
    "zs \<noteq> [] \<Longrightarrow> acc reg (Z_union zs) v = (\<exists>z \<in> set zs. acc reg z v)"
    "typeof c \<in> {''string'', ''number'', ''boolean''} \<or> c = JNull \<Longrightarrow> acc reg (Z_literal c) v = (v = c)"
    "acc reg (Z_enum (map JStr ss)) v = (\<exists>s \<in> set ss. v = JStr s)"
    "acc reg Z_string v = (typeof v = ''string'')"
    "acc reg Z_number v = (typeof v = ''number'')"
    "acc reg Z_boolean v = (typeof v = ''boolean'')"
    "acc reg (Z_int z) v = (acc reg z v \<and> (\<exists>n. v = JNum n \<and> safe_int n \<noteq> None))"
    "acc reg (Z_min z (JNum (Fin r))) v = (acc reg z v \<and>
        (\<forall>s. v = JStr s \<longrightarrow> r \<le> of_nat (length s)) \<and> (\<forall>xs. v = JArr xs \<longrightarrow> r \<le> of_nat (length xs)))"
    "acc reg (Z_max z (JNum (Fin r))) v = (acc reg z v \<and>
        (\<forall>s. v = JStr s \<longrightarrow> of_nat (length s) \<le> r) \<and> (\<forall>xs. v = JArr xs \<longrightarrow> of_nat (length xs) \<le> r))"
    "acc reg (Z_gte z (JNum (Fin r))) v = (acc reg z v \<and> (\<forall>x. v = JNum (Fin x) \<longrightarrow> r \<le> x))"
    "acc reg (Z_lte z (JNum (Fin r))) v = (acc reg z v \<and> (\<forall>x. v = JNum (Fin x) \<longrightarrow> x \<le> r))"
    "acc reg (Z_gt z (JNum (Fin r))) v = (acc reg z v \<and> (\<forall>x. v = JNum (Fin x) \<longrightarrow> r < x))"
    "acc reg (Z_lt z (JNum (Fin r))) v = (acc reg z v \<and> (\<forall>x. v = JNum (Fin x) \<longrightarrow> x < r))"
    "acc reg (Z_array z) v = (\<exists>xs. v = JArr xs \<and> (\<forall>x \<in> set xs. acc reg z x))"
    "acc reg (Z_object shape rest) v = (\<exists>ps. v = JObj ps \<and>
        (\<forall>(k, z) \<in> set shape. acc reg z (js_get ps k)) \<and>
        (\<forall>(k, x) \<in> set ps. k \<in> fst ` set shape \<or> acc reg rest x))"
    "acc reg (Z_optional z) v = (v = JUndef \<or> acc reg z v)"
    "acc reg (Z_refine z cs) v = (acc reg z v \<and> (\<exists>c \<in> set cs. deepEqual c v))"
    "acc reg (Z_nullable z) v = (v = JNull \<or> acc reg z v)"
  by (simp_all add: assms(1) [unfolded zod_laws_def, rule_format, OF assms(2)] cong: conj_cong)

section \<open>The schemas with a faithful image\<close>

text \<open>Of the enforced keywords, a node has only these.\<close>

definition only_keys :: "jsval \<Rightarrow> string list \<Rightarrow> bool" where
  "only_keys s ks \<longleftrightarrow> list_all (\<lambda>k. k \<in> set ks \<or> fld s k = JUndef) ENFORCED"

fun finite_bound :: "jsval \<Rightarrow> bool" where
  "finite_bound JUndef = True"
| "finite_bound (JNum (Fin r)) = True"
| "finite_bound _ = False"

definition bounds_ok :: "jsval \<Rightarrow> string list \<Rightarrow> bool" where
  "bounds_ok s ks \<longleftrightarrow> list_all (\<lambda>k. finite_bound (fld s k)) ks"

text \<open>A list of constants, if there is one, at a node that does not allow \<open>null\<close> besides them.\<close>

definition enum_ok :: "jsval \<Rightarrow> bool" where
  "enum_ok s \<longleftrightarrow> fld s ''enum'' = JUndef \<or> is_arr (fld s ''enum'') \<and> \<not> nullable s"

definition strings_of :: "jsval \<Rightarrow> string list option" where
  "strings_of v = (case v of
     JArr xs \<Rightarrow> if list_all (\<lambda>x. typeof x = ''string'') xs then Some (map (\<lambda>x. case x of JStr s \<Rightarrow> s | _ \<Rightarrow> []) xs) else None
   | JUndef \<Rightarrow> Some []
   | _ \<Rightarrow> None)"

text \<open>A node that \<^verbatim>\<open>undefined\<close> does not satisfy, for the properties that are required.\<close>

primrec demands :: "nat \<Rightarrow> props \<Rightarrow> jsval \<Rightarrow> bool" where
  "demands 0 defs s = True"
| "demands (Suc n) defs s =
     (fld s ''type'' \<noteq> JUndef \<or>
      (case fld s ''$ref'' of JStr r \<Rightarrow> demands n defs (def_get defs (drop 8 r)) | _ \<Rightarrow> False))"

text \<open>A string, a boolean, \<^verbatim>\<open>null\<close> or a number.\<close>

definition literal_ok :: "jsval \<Rightarrow> bool" where
  "literal_ok c \<longleftrightarrow> typeof c \<in> {''string'', ''boolean''} \<or> c = JNull \<or> c \<noteq> JUndef \<and> finite_bound c"

definition faithful_leaf :: "jsval \<Rightarrow> bool" where
  "faithful_leaf s \<longleftrightarrow>
     fld s ''type'' = JUndef \<and> only_keys s [''enum''] \<and> enum_ok s \<or>
     core_types s = Some [JStr ''boolean''] \<and> only_keys s [''type'', ''enum''] \<and> enum_ok s \<or>
     core_types s = Some [JStr ''string''] \<and> only_keys s [''type'', ''minLength'', ''maxLength''] \<and>
       bounds_ok s [''minLength'', ''maxLength''] \<or>
     core_types s = Some [JStr ''string''] \<and> only_keys s [''type'', ''enum''] \<and> enum_ok s \<and>
       is_arr (fld s ''enum'') \<and> strings_of (fld s ''enum'') \<noteq> None \<or>
     (core_types s = Some [JStr ''integer''] \<or> core_types s = Some [JStr ''number'']) \<and>
       only_keys s [''type'', ''enum'', ''minimum'', ''maximum'', ''exclusiveMinimum'', ''exclusiveMaximum''] \<and>
       enum_ok s \<and> bounds_ok s [''minimum'', ''maximum'', ''exclusiveMinimum'', ''exclusiveMaximum''] \<or>
     only_keys s [''const''] \<and> literal_ok (fld s ''const'')"

text \<open>References, unions, arrays and objects; \<open>ok\<close> judges the nodes below.\<close>

definition faithful_ref :: "(jsval \<Rightarrow> bool) \<Rightarrow> props \<Rightarrow> jsval \<Rightarrow> bool" where
  "faithful_ref ok defs s \<longleftrightarrow> only_keys s [''$ref''] \<and>
     (case fld s ''$ref'' of
        JStr r \<Rightarrow> take 8 r = ''#/$defs/'' \<and> has_own defs (drop 8 r) \<and> drop 8 r \<notin> set INHERITED \<and>
          drop 8 r \<noteq> ''__proto__'' \<and> ok (js_get defs (drop 8 r))
      | _ \<Rightarrow> False)"

definition faithful_union :: "(jsval \<Rightarrow> bool) \<Rightarrow> jsval \<Rightarrow> bool" where
  "faithful_union ok s \<longleftrightarrow> only_keys s [''anyOf''] \<and>
     (case fld s ''anyOf'' of JArr bs \<Rightarrow> bs \<noteq> [] \<and> list_all ok bs | _ \<Rightarrow> False)"

definition faithful_array :: "(jsval \<Rightarrow> bool) \<Rightarrow> jsval \<Rightarrow> bool" where
  "faithful_array ok s \<longleftrightarrow> core_types s = Some [JStr ''array''] \<and>
     only_keys s [''type'', ''enum'', ''items'', ''minItems'', ''maxItems''] \<and>
     enum_ok s \<and> bounds_ok s [''minItems'', ''maxItems''] \<and> (fld s ''items'' = JUndef \<or> ok (fld s ''items''))"

definition faithful_object :: "(jsval \<Rightarrow> bool) \<Rightarrow> (jsval \<Rightarrow> bool) \<Rightarrow> jsval \<Rightarrow> bool" where
  "faithful_object ok required_ok s \<longleftrightarrow> core_types s = Some [JStr ''object''] \<and>
     only_keys s [''type'', ''enum'', ''properties'', ''required'', ''additionalProperties''] \<and>
     enum_ok s \<and> fld s ''additionalProperties'' \<in> {JUndef, JBool True, JBool False} \<and>
     (fld s ''properties'' = JUndef \<or> is_plain (fld s ''properties'')) \<and>
     \<not> has_own (named_props s) ''__proto__'' \<and> distinct (map fst (named_props s)) \<and>
     list_all (\<lambda>p. ok (snd p)) (named_props s) \<and>
     (case strings_of (fld s ''required'') of
        Some names \<Rightarrow> list_all (\<lambda>k. has_own (named_props s) k \<and> required_ok (js_get (named_props s) k)) names
      | None \<Rightarrow> False)"

primrec faithful :: "nat \<Rightarrow> props \<Rightarrow> jsval \<Rightarrow> bool" where
  "faithful 0 defs s = False"
| "faithful (Suc n) defs s =
     (s = JBool True \<or> s = JBool False \<or>
      isPlainValue s \<and>
       (faithful_leaf s \<or> faithful_ref (faithful n defs) defs s \<or> faithful_union (faithful n defs) s \<or>
        faithful_array (faithful n defs) s \<or> faithful_object (faithful n defs) (demands n defs) s))"

end
