(* ===== verification/Zod_Nodes.thy ===== *)
theory Zod_Nodes
  imports Zod_Schemas
begin

text \<open>
  Node by node: what a mapped schema accepts against the reference semantics of the node it
  comes from, given agreement on the nodes below.
\<close>

section \<open>Agreement, node by node\<close>

lemma only_keysD: "only_keys s ks \<Longrightarrow> k \<in> set ENFORCED \<Longrightarrow> k \<notin> set ks \<Longrightarrow> fld s k = JUndef"
  by (auto simp: only_keys_def list_all_iff)

lemma only_keys_absent:
  assumes "only_keys s ks"
  shows "''$ref'' \<notin> set ks \<Longrightarrow> fld s ''$ref'' = JUndef" "''type'' \<notin> set ks \<Longrightarrow> fld s ''type'' = JUndef"
    "''enum'' \<notin> set ks \<Longrightarrow> fld s ''enum'' = JUndef" "''const'' \<notin> set ks \<Longrightarrow> fld s ''const'' = JUndef"
    "''required'' \<notin> set ks \<Longrightarrow> fld s ''required'' = JUndef" "''properties'' \<notin> set ks \<Longrightarrow> fld s ''properties'' = JUndef"
    "''additionalProperties'' \<notin> set ks \<Longrightarrow> fld s ''additionalProperties'' = JUndef"
    "''items'' \<notin> set ks \<Longrightarrow> fld s ''items'' = JUndef" "''minimum'' \<notin> set ks \<Longrightarrow> fld s ''minimum'' = JUndef"
    "''maximum'' \<notin> set ks \<Longrightarrow> fld s ''maximum'' = JUndef"
    "''exclusiveMinimum'' \<notin> set ks \<Longrightarrow> fld s ''exclusiveMinimum'' = JUndef"
    "''exclusiveMaximum'' \<notin> set ks \<Longrightarrow> fld s ''exclusiveMaximum'' = JUndef"
    "''minLength'' \<notin> set ks \<Longrightarrow> fld s ''minLength'' = JUndef" "''maxLength'' \<notin> set ks \<Longrightarrow> fld s ''maxLength'' = JUndef"
    "''minItems'' \<notin> set ks \<Longrightarrow> fld s ''minItems'' = JUndef" "''maxItems'' \<notin> set ks \<Longrightarrow> fld s ''maxItems'' = JUndef"
    "''uniqueItems'' \<notin> set ks \<Longrightarrow> fld s ''uniqueItems'' = JUndef"
    "''anyOf'' \<notin> set ks \<Longrightarrow> fld s ''anyOf'' = JUndef" "''oneOf'' \<notin> set ks \<Longrightarrow> fld s ''oneOf'' = JUndef"
    "''allOf'' \<notin> set ks \<Longrightarrow> fld s ''allOf'' = JUndef" "''not'' \<notin> set ks \<Longrightarrow> fld s ''not'' = JUndef"
  by (rule only_keysD [OF assms]; simp add: ENFORCED_def)+

text \<open>A node without references and branches.\<close>

lemma sat_node:
  assumes "only_keys s ks" "isPlainValue s"
    and "''$ref'' \<notin> set ks" "''anyOf'' \<notin> set ks" "''oneOf'' \<notin> set ks" "''allOf'' \<notin> set ks" "''not'' \<notin> set ks"
  shows "sat (Suc n) cv defs s v \<longleftrightarrow> sat_value cv s v \<and>
      (\<forall>ps. obj_props v = Some ps \<longrightarrow> sat_object cv (sat n cv defs) s ps) \<and>
      (\<forall>xs. v = JArr xs \<longrightarrow> sat_array cv (sat n cv defs) s xs)"
proof -
  note absent = only_keys_absent [OF assms(1)]
  have "\<forall>b. s \<noteq> JBool b"
    using assms(2) by (auto simp: isPlainValue_def)
  moreover have "sat_ref ok defs s v" "sat_branching ok s v" for ok
    using assms(3-) by (simp_all add: sat_ref_def sat_branching_def absent)
  ultimately show ?thesis
    unfolding sat.simps by blast
qed

lemma sat_leaf:
  assumes "only_keys s ks" "isPlainValue s"
    and "set ks \<subseteq> {''type'', ''enum'', ''const'', ''minimum'', ''maximum'', ''exclusiveMinimum'', ''exclusiveMaximum'',
      ''minLength'', ''maxLength''}"
  shows "sat (Suc n) cv defs s v \<longleftrightarrow> sat_value cv s v"
proof -
  note absent = only_keys_absent [OF assms(1)]
  have out: "k \<notin> set ks" if "k \<notin> {''type'', ''enum'', ''const'', ''minimum'', ''maximum'', ''exclusiveMinimum'', ''exclusiveMaximum'',
      ''minLength'', ''maxLength''}" for k
    by (rule contra_subsetD [OF assms(3) that])
  have "sat_object cv ok s ps" "sat_array cv ok s xs" for ok ps xs
    by (simp_all add: sat_object_def sat_array_def bound_ok_def named_props_def absent out)
  moreover have "sat (Suc n) cv defs s v \<longleftrightarrow> sat_value cv s v \<and>
      (\<forall>ps. obj_props v = Some ps \<longrightarrow> sat_object cv (sat n cv defs) s ps) \<and>
      (\<forall>xs. v = JArr xs \<longrightarrow> sat_array cv (sat n cv defs) s xs)"
    by (rule sat_node [OF assms(1,2)]; rule out) simp_all
  ultimately show ?thesis
    by blast
qed

lemma build_node:
  assumes "only_keys s ks" "isPlainValue s"
    and "''$ref'' \<notin> set ks" "''anyOf'' \<notin> set ks" "''oneOf'' \<notin> set ks" "''allOf'' \<notin> set ks" "''not'' \<notin> set ks"
    and "''const'' \<notin> set ks"
  shows "build defs s path =
      (if fld s ''type'' = JUndef then Inr (refine_and_null s Z_unknown)
       else if (case core_types s of Some core \<Rightarrow> length core \<noteq> 1 | None \<Rightarrow> False)
       then Inl (TypeErrAt (''zodSchemas cannot map this schema: multi-type at '' @ path) (fld s ''type''))
       else map_res (refine_and_null s) (build_type defs s path))"
proof -
  note absent = only_keys_absent [OF assms(1)]
  have "s \<noteq> JBool b" for b
    using assms(2) by (auto simp: isPlainValue_def)
  moreover have "kind_of s = JUndef" "core_types s = None" if "fld s ''type'' = JUndef"
    using that by (simp_all add: kind_of_def core_types_def types_of_def)
  ultimately show ?thesis
    using assms(2-) by (simp add: build.simps [of defs s] build_type.simps [of defs s] absent map_res_def)
qed

lemma type_match:
  assumes "core_types s = Some [JStr t]"
  shows "type_mismatch s v \<longleftrightarrow> \<not> (nullable s \<and> v = JNull \<or> matchesType (JStr t) v)"
proof -
  obtain ts where ts: "types_of s = Some ts" and only: "filter (\<lambda>t. t \<noteq> JStr ''null'') ts = [JStr t]"
    using assms by (auto simp: core_types_def)
  have t: "fld s ''type'' \<noteq> JUndef" "type_names (fld s ''type'') = ts"
    using ts by (auto simp: types_of_def split: if_splits)
  have "n \<in> set ts \<and> n \<noteq> JStr ''null'' \<longleftrightarrow> n = JStr t" for n
    using arg_cong [OF only, of set] by auto
  moreover have "matchesType (JStr ''null'') v \<longleftrightarrow> v = JNull"
    by simp
  ultimately have "(\<exists>n \<in> set ts. matchesType n v) \<longleftrightarrow> nullable s \<and> v = JNull \<or> matchesType (JStr t) v"
    unfolding nullable_def ts option.case by metis
  then show ?thesis
    using t by (simp add: type_mismatch_def list_ex_iff del: matches)
qed

lemma kind_core: "core_types s = Some [t] \<Longrightarrow> kind_of s = t"
  by (simp add: kind_of_def)

lemma core_typed: "core_types s = Some ts \<Longrightarrow> fld s ''type'' \<noteq> JUndef"
  by (auto simp: core_types_def types_of_def split: if_splits)

lemma untyped: "fld s ''type'' = JUndef \<Longrightarrow> \<not> nullable s \<and> kind_of s = JUndef \<and> \<not> type_mismatch s v"
  by (simp add: nullable_def kind_of_def core_types_def types_of_def type_mismatch_def)

text \<open>What the refinement and \<open>nullable\<close> add to a mapped type.\<close>

lemma acc_refine_and_null:
  assumes "zod_laws acc" "json_safe v \<or> v = JUndef" "enum_ok s"
  shows "acc reg (refine_and_null s z) v \<longleftrightarrow> nullable s \<and> v = JNull \<or>
    acc reg z v \<and> (kind_of s = JStr ''string'' \<or> (\<forall>cs. fld s ''enum'' = JArr cs \<longrightarrow> (\<exists>c \<in> set cs. deepEqual c v)))"
  using assms(3) zod_lawsD(20,21) [OF assms(1,2), of reg]
  by (auto simp: refine_and_null_def Let_def enum_ok_def split: jsval.split)

text \<open>The same of the validator: \<open>null\<close> where it is allowed, or the type and the constants.\<close>

lemma sat_value_typed:
  assumes "core_types s = Some [JStr t]" "enum_ok s" "fld s ''const'' = JUndef"
  shows "sat_value cv s v \<longleftrightarrow> nullable s \<and> v = JNull \<or>
     matchesType (JStr t) v \<and> (\<forall>cs. fld s ''enum'' = JArr cs \<longrightarrow> (\<exists>c \<in> set cs. deepEqual c v)) \<and>
     (\<forall>x. v = JStr x \<longrightarrow>
        bound_ok cv s ''minLength'' (\<lambda>b. \<not> js_lt (num (int (length x))) b) \<and>
        bound_ok cv s ''maxLength'' (\<lambda>b. \<not> js_lt b (num (int (length x))))) \<and>
     (\<forall>r. v = JNum (Fin r) \<longrightarrow>
        bound_ok cv s ''minimum'' (\<lambda>b. js_le b (Fin r)) \<and>
        bound_ok cv s ''maximum'' (\<lambda>b. js_le (Fin r) b) \<and>
        bound_ok cv s ''exclusiveMinimum'' (\<lambda>b. js_lt b (Fin r)) \<and>
        bound_ok cv s ''exclusiveMaximum'' (\<lambda>b. js_lt (Fin r) b))"
  using assms(2,3) unfolding sat_value_def type_match [OF assms(1)] by (auto simp: enum_ok_def simp del: matches)

lemma finite_bound_cases: "finite_bound b \<longleftrightarrow> b = JUndef \<or> (\<exists>r. b = JNum (Fin r))"
  by (cases b rule: finite_bound.cases) auto

lemma bound_ok_finite:
  assumes "conv_ok cv" "finite_bound (fld s k)"
  shows "bound_ok cv s k good \<longleftrightarrow> (\<forall>r. fld s k = JNum (Fin r) \<longrightarrow> good (Fin r))"
  using assms by (auto simp: bound_ok_def finite_bound_cases)

lemma acc_with_bound:
  assumes "zod_laws acc" "json_safe v \<or> v = JUndef" "finite_bound (fld s k)"
  shows "acc reg (with_bound s k Z_min z) v \<longleftrightarrow> acc reg z v \<and> (\<forall>r. fld s k = JNum (Fin r) \<longrightarrow>
      (\<forall>x. v = JStr x \<longrightarrow> r \<le> of_nat (length x)) \<and> (\<forall>xs. v = JArr xs \<longrightarrow> r \<le> of_nat (length xs)))"
    "acc reg (with_bound s k Z_max z) v \<longleftrightarrow> acc reg z v \<and> (\<forall>r. fld s k = JNum (Fin r) \<longrightarrow>
      (\<forall>x. v = JStr x \<longrightarrow> of_nat (length x) \<le> r) \<and> (\<forall>xs. v = JArr xs \<longrightarrow> of_nat (length xs) \<le> r))"
    "acc reg (with_bound s k Z_gte z) v \<longleftrightarrow> acc reg z v \<and> (\<forall>r. fld s k = JNum (Fin r) \<longrightarrow> (\<forall>x. v = JNum (Fin x) \<longrightarrow> r \<le> x))"
    "acc reg (with_bound s k Z_lte z) v \<longleftrightarrow> acc reg z v \<and> (\<forall>r. fld s k = JNum (Fin r) \<longrightarrow> (\<forall>x. v = JNum (Fin x) \<longrightarrow> x \<le> r))"
    "acc reg (with_bound s k Z_gt z) v \<longleftrightarrow> acc reg z v \<and> (\<forall>r. fld s k = JNum (Fin r) \<longrightarrow> (\<forall>x. v = JNum (Fin x) \<longrightarrow> r < x))"
    "acc reg (with_bound s k Z_lt z) v \<longleftrightarrow> acc reg z v \<and> (\<forall>r. fld s k = JNum (Fin r) \<longrightarrow> (\<forall>x. v = JNum (Fin x) \<longrightarrow> x < r))"
  using assms(3) zod_lawsD(11-16) [OF assms(1,2), of reg z] by (auto simp: with_bound_def finite_bound_cases)

lemma js_compare [simp]:
  "js_lt (num (int n)) (Fin r) \<longleftrightarrow> of_nat n < r" "js_lt (Fin r) (num (int n)) \<longleftrightarrow> r < of_nat n"
  "js_le (Fin a) (Fin b) \<longleftrightarrow> a \<le> b"
  by (auto simp: num_def js_le_def)

lemmas typed_agree = sat_value_typed acc_refine_and_null kind_core bounds_ok_def bound_ok_finite acc_with_bound

lemma bound_ok_absent: "fld s k = JUndef \<Longrightarrow> bound_ok cv s k good"
  by (simp add: bound_ok_def)

lemma typeof_prim:
  "typeof v = ''number'' \<longleftrightarrow> (\<exists>n. v = JNum n)"
  "typeof v = ''boolean'' \<longleftrightarrow> (\<exists>b. v = JBool b)"
  by (cases v; simp)+

lemmas typeof_primitive = typeof_string typeof_prim

lemma string_agrees:
  assumes "zod_laws acc" "conv_ok cv" "json_safe v \<or> v = JUndef" "isPlainValue s" "core_types s = Some [JStr ''string'']"
    and "only_keys s [''type'', ''minLength'', ''maxLength'']" "bounds_ok s [''minLength'', ''maxLength'']"
  shows "acc reg (refine_and_null s (string_type s)) v \<longleftrightarrow> sat (Suc n) cv defs s v"
proof -
  note absent = only_keys_absent [OF assms(6)]
  have e: "enum_ok s" "fld s ''const'' = JUndef" "fld s ''enum'' = JUndef"
    by (simp_all add: absent enum_ok_def)
  have leaf: "sat (Suc n) cv defs s v \<longleftrightarrow> sat_value cv s v"
    by (rule sat_leaf [OF assms(6,4)]) simp
  have f: "finite_bound (fld s ''minLength'')" "finite_bound (fld s ''maxLength'')"
    using assms(7) by (simp_all add: bounds_ok_def)
  show ?thesis
    unfolding leaf sat_value_typed [OF assms(5) e(1,2)] acc_refine_and_null [OF assms(1,3) e(1)]
    by (auto simp: e absent string_type_def typeof_primitive bound_ok_finite [OF assms(2)] f acc_with_bound [OF assms(1,3)]
        bound_ok_absent kind_core [OF assms(5)] zod_lawsD [OF assms(1,3)] not_less)
qed

lemma number_agrees:
  assumes "zod_laws acc" "conv_ok cv" "json_safe v \<or> v = JUndef" "isPlainValue s"
    and t: "core_types s = Some [JStr t]" "t = ''integer'' \<or> t = ''number''"
    and "only_keys s [''type'', ''enum'', ''minimum'', ''maximum'', ''exclusiveMinimum'', ''exclusiveMaximum'']"
    and "enum_ok s" "bounds_ok s [''minimum'', ''maximum'', ''exclusiveMinimum'', ''exclusiveMaximum'']"
  shows "acc reg (refine_and_null s (number_type s)) v \<longleftrightarrow> sat (Suc n) cv defs s v"
proof -
  note absent = only_keys_absent [OF assms(7)]
  have e: "fld s ''const'' = JUndef" "fld s ''minLength'' = JUndef" "fld s ''maxLength'' = JUndef"
    by (simp_all add: absent)
  have leaf: "sat (Suc n) cv defs s v \<longleftrightarrow> sat_value cv s v"
    by (rule sat_leaf [OF assms(7,4)]) simp
  have f: "finite_bound (fld s ''minimum'')" "finite_bound (fld s ''maximum'')"
      "finite_bound (fld s ''exclusiveMinimum'')" "finite_bound (fld s ''exclusiveMaximum'')"
    using assms(9) by (simp_all add: bounds_ok_def)
  have base: "acc reg (if t = ''integer'' then Z_int Z_number else Z_number) v \<longleftrightarrow> matchesType (JStr t) v"
  proof (cases "\<exists>m. v = JNum m")
    case True
    then obtain m where v: "v = JNum m" by blast
    then have "m \<in> range Fin" "num_int m = safe_int m"
      using assms(3) by (auto split: jsnum.splits)
    then show ?thesis
      using t(2) v zod_lawsD(8,10) [OF assms(1,3)] by (auto simp: matchesType_def)
  next
    case False
    then show ?thesis
      using t(2) by (auto simp: zod_lawsD [OF assms(1,3)] typeof_primitive matchesType_def split: jsval.splits)
  qed
  have string: "JStr t \<noteq> JStr ''string''"
    using t(2) by auto
  show ?thesis
    unfolding leaf sat_value_typed [OF assms(5) assms(8) e(1)] acc_refine_and_null [OF assms(1,3) assms(8)]
      number_type_def acc_with_bound(3-6) [OF assms(1,3) f(1)] acc_with_bound(3-6) [OF assms(1,3) f(2)]
      acc_with_bound(3-6) [OF assms(1,3) f(3)] acc_with_bound(3-6) [OF assms(1,3) f(4)]
      kind_core [OF assms(5)]
    using base string
    by (auto simp: e bound_ok_finite [OF assms(2)] f bound_ok_absent simp del: matches)
qed

lemma boolean_agrees:
  assumes "zod_laws acc" "json_safe v \<or> v = JUndef" "isPlainValue s" "core_types s = Some [JStr ''boolean'']"
    and "only_keys s [''type'', ''enum'']" "enum_ok s"
  shows "acc reg (refine_and_null s Z_boolean) v \<longleftrightarrow> sat (Suc n) cv defs s v"
proof -
  note absent = only_keys_absent [OF assms(5)]
  have e: "fld s ''const'' = JUndef"
    by (simp add: absent)
  have leaf: "sat (Suc n) cv defs s v \<longleftrightarrow> sat_value cv s v"
    by (rule sat_leaf [OF assms(5,3)]) simp
  show ?thesis
    unfolding leaf sat_value_typed [OF assms(4,6) e] acc_refine_and_null [OF assms(1,2,6)] kind_core [OF assms(4)]
    by (auto simp: absent bound_ok_absent typeof_primitive zod_lawsD [OF assms(1,2)])
qed

lemma strings_of_Some: "strings_of v = Some ss \<Longrightarrow> v \<noteq> JUndef \<Longrightarrow> v = JArr (map JStr ss)"
proof -
  assume s: "strings_of v = Some ss" and "v \<noteq> JUndef"
  then obtain xs where v: "v = JArr xs" and all: "\<forall>x \<in> set xs. typeof x = ''string''"
    and ss: "ss = map (\<lambda>x. case x of JStr s \<Rightarrow> s | _ \<Rightarrow> []) xs"
    by (auto simp: strings_of_def list_all_iff split: jsval.splits if_splits)
  have "x = JStr (case x of JStr s \<Rightarrow> s | _ \<Rightarrow> [])" if "typeof x = ''string''" for x
    using that by (cases x) (auto split: if_splits)
  then show ?thesis
    using v ss all by (auto simp: map_idI)
qed

lemma deepEqual_string [simp]: "deepEqual (JStr s) v \<longleftrightarrow> v = JStr s"
  by (cases v) (auto simp: deepEqual.simps)

lemma string_enum_agrees:
  assumes "zod_laws acc" "json_safe v \<or> v = JUndef" "isPlainValue s" "core_types s = Some [JStr ''string'']"
    and "only_keys s [''type'', ''enum'']" "enum_ok s" "is_arr (fld s ''enum'')" "strings_of (fld s ''enum'') \<noteq> None"
  shows "acc reg (refine_and_null s (string_type s)) v \<longleftrightarrow> sat (Suc n) cv defs s v"
proof -
  note absent = only_keys_absent [OF assms(5)]
  obtain ss where ss: "fld s ''enum'' = JArr (map JStr ss)"
    using assms(7,8) strings_of_Some by fastforce
  have e: "fld s ''const'' = JUndef"
    by (simp add: absent)
  have leaf: "sat (Suc n) cv defs s v \<longleftrightarrow> sat_value cv s v"
    by (rule sat_leaf [OF assms(5,3)]) simp
  show ?thesis
    unfolding leaf sat_value_typed [OF assms(4,6) e] acc_refine_and_null [OF assms(1,2,6)] kind_core [OF assms(4)]
    by (auto simp: absent bound_ok_absent string_type_def ss typeof_primitive zod_lawsD [OF assms(1,2)])
qed

lemma enum_agrees:
  assumes "zod_laws acc" "json_safe v \<or> v = JUndef" "isPlainValue s" "fld s ''type'' = JUndef"
    and "only_keys s [''enum'']" "enum_ok s"
  shows "acc reg (refine_and_null s Z_unknown) v \<longleftrightarrow> sat (Suc n) cv defs s v"
proof -
  note absent = only_keys_absent [OF assms(5)]
  have leaf: "sat (Suc n) cv defs s v \<longleftrightarrow> sat_value cv s v"
    by (rule sat_leaf [OF assms(5,3)]) simp
  have u: "\<not> nullable s" "kind_of s = JUndef" "\<not> type_mismatch s v"
    using untyped [OF assms(4)] by blast+
  show ?thesis
    unfolding leaf sat_value_def acc_refine_and_null [OF assms(1,2,6)] using u
    by (auto simp: absent bound_ok_absent zod_lawsD [OF assms(1,2)])
qed

lemma deepEqual_literal: "literal_ok c \<Longrightarrow> deepEqual c v \<longleftrightarrow> v = c"
  by (cases c; cases v)
    (auto simp: deepEqual.simps literal_ok_def finite_bound_cases typeof_primitive)

lemma build_literal:
  assumes "isPlainValue s" "only_keys s [''const'']" "literal_ok (fld s ''const'')"
  shows "build defs s path = Inr (Z_literal (fld s ''const''))"
proof -
  have "s \<noteq> JBool b" for b
    using assms(1) by (auto simp: isPlainValue_def)
  moreover have "fld s ''const'' \<noteq> JUndef"
    using assms(3) by (auto simp: literal_ok_def)
  ultimately show ?thesis
    using assms(1) by (simp add: build.simps [of defs s] only_keys_absent [OF assms(2)])
qed

lemma literal_agrees:
  assumes "zod_laws acc" "json_safe v \<or> v = JUndef" "isPlainValue s" "only_keys s [''const'']" "literal_ok (fld s ''const'')"
  shows "acc reg (Z_literal (fld s ''const'')) v \<longleftrightarrow> sat (Suc n) cv defs s v"
proof -
  note absent = only_keys_absent [OF assms(4)]
  have leaf: "sat (Suc n) cv defs s v \<longleftrightarrow> sat_value cv s v"
    by (rule sat_leaf [OF assms(4,3)]) simp
  have present: "fld s ''const'' \<noteq> JUndef"
    using assms(5) by (auto simp: literal_ok_def)
  have "\<not> type_mismatch s v"
    by (simp add: type_mismatch_def absent)
  moreover have prim: "typeof (fld s ''const'') \<in> {''string'', ''number'', ''boolean''} \<or> fld s ''const'' = JNull"
    using assms(5) present by (auto simp: literal_ok_def finite_bound_cases)
  ultimately show ?thesis
    unfolding leaf sat_value_def zod_lawsD(5) [OF assms(1,2) prim] using present
    by (auto simp: absent bound_ok_absent deepEqual_literal [OF assms(5)])
qed

section \<open>Agreement below a node\<close>

text \<open>\<open>s\<close> and its image \<open>z\<close> agree on JSON values and on an absent value.\<close>

definition agree :: "acceptor \<Rightarrow> (string \<Rightarrow> zod option) \<Rightarrow> zod \<Rightarrow> (jsval \<Rightarrow> jsval \<Rightarrow> bool) \<Rightarrow> jsval \<Rightarrow> bool" where
  "agree acc reg z ok s \<longleftrightarrow> (\<forall>v. json_safe v \<or> v = JUndef \<longrightarrow> acc reg z v = ok s v)"

lemma agreeD: "agree acc reg z ok s \<Longrightarrow> json_safe v \<or> v = JUndef \<Longrightarrow> acc reg z v = ok s v"
  unfolding agree_def by blast

lemma array_agrees:
  assumes "zod_laws acc" "conv_ok cv" "json_safe v \<or> v = JUndef" "isPlainValue s" "core_types s = Some [JStr ''array'']"
    and "only_keys s [''type'', ''enum'', ''items'', ''minItems'', ''maxItems'']" "enum_ok s"
    and "bounds_ok s [''minItems'', ''maxItems'']"
    and items: "if fld s ''items'' = JUndef then z = Z_unknown else agree acc reg z (sat n cv defs) (fld s ''items'')"
  shows "acc reg (refine_and_null s (array_type s z)) v \<longleftrightarrow> sat (Suc n) cv defs s v"
proof -
  note absent = only_keys_absent [OF assms(6)]
  have e: "fld s ''const'' = JUndef" "fld s ''uniqueItems'' = JUndef" "fld s ''minLength'' = JUndef"
      "fld s ''maxLength'' = JUndef" "fld s ''minimum'' = JUndef" "fld s ''maximum'' = JUndef"
      "fld s ''exclusiveMinimum'' = JUndef" "fld s ''exclusiveMaximum'' = JUndef"
    by (simp_all add: absent)
  have node: "sat (Suc n) cv defs s v \<longleftrightarrow> sat_value cv s v \<and> (\<forall>xs. v = JArr xs \<longrightarrow> sat_array cv (sat n cv defs) s xs)"
  proof -
    have "sat_object cv ok s ps" for ok ps
      by (simp add: sat_object_def named_props_def absent)
    moreover have "sat (Suc n) cv defs s v \<longleftrightarrow> sat_value cv s v \<and>
        (\<forall>ps. obj_props v = Some ps \<longrightarrow> sat_object cv (sat n cv defs) s ps) \<and>
        (\<forall>xs. v = JArr xs \<longrightarrow> sat_array cv (sat n cv defs) s xs)"
      by (rule sat_node [OF assms(6,4)]) simp_all
    ultimately show ?thesis by blast
  qed
  have f: "finite_bound (fld s ''minItems'')" "finite_bound (fld s ''maxItems'')"
    using assms(8) by (simp_all add: bounds_ok_def)
  have each: "(\<forall>x \<in> set xs. acc reg z x) \<longleftrightarrow> (fld s ''items'' = JUndef \<or> (\<forall>x \<in> set xs. sat n cv defs (fld s ''items'') x))"
    if "v = JArr xs" for xs
  proof -
    have "json_safe x" if "x \<in> set xs" for x
      using that \<open>v = JArr xs\<close> assms(3) by (auto simp: list_all_iff)
    then show ?thesis
      using items zod_lawsD(1) [OF assms(1)] by (auto simp: agree_def split: if_splits)
  qed
  have type: "matchesType (JStr ''array'') v \<longleftrightarrow> (\<exists>xs. v = JArr xs)"
    by (cases v) simp_all
  show ?thesis
    unfolding node sat_value_typed [OF assms(5,7) e(1)] acc_refine_and_null [OF assms(1,3,7)]
      array_type_def acc_with_bound(1,2) [OF assms(1,3) f(1)] acc_with_bound(1,2) [OF assms(1,3) f(2)]
      kind_core [OF assms(5)] type zod_lawsD(17) [OF assms(1,3)] sat_array_def
    using each by (auto simp: e bound_ok_absent bound_ok_finite [OF assms(2)] f not_less)
qed

lemma union_agrees:
  assumes "zod_laws acc" "json_safe v \<or> v = JUndef" "isPlainValue s" "only_keys s [''anyOf'']" "fld s ''anyOf'' = JArr bs"
    and "bs \<noteq> []" "list_all2 (\<lambda>b z. agree acc reg z (sat n cv defs) b) bs zs"
  shows "acc reg (union_of zs) v \<longleftrightarrow> sat (Suc n) cv defs s v"
proof -
  note absent = only_keys_absent [OF assms(4)]
  have "s \<noteq> JBool b" for b
    using assms(3) by (auto simp: isPlainValue_def)
  moreover have "sat_value cv s v" "sat_object cv ok s ps" "sat_array cv ok s xs" "sat_ref ok defs s v" for ok ps xs
    by (simp_all add: sat_value_def sat_object_def sat_array_def sat_ref_def type_mismatch_def named_props_def
        bound_ok_absent absent)
  moreover have "sat_branching ok s v \<longleftrightarrow> (\<exists>b \<in> set bs. ok b v)" for ok
    by (simp add: sat_branching_def absent assms(5))
  ultimately have sat: "sat (Suc n) cv defs s v \<longleftrightarrow> (\<exists>b \<in> set bs. sat n cv defs b v)"
    by auto
  have "(\<exists>b \<in> set bs. sat n cv defs b v) \<longleftrightarrow> (\<exists>z \<in> set zs. acc reg z v)"
    using assms(7)
  proof (rule list_all2_induct)
    fix b bs z zs
    assume "agree acc reg z (sat n cv defs) b"
      and "(\<exists>b \<in> set bs. sat n cv defs b v) \<longleftrightarrow> (\<exists>z \<in> set zs. acc reg z v)"
    then show "(\<exists>b' \<in> set (b # bs). sat n cv defs b' v) \<longleftrightarrow> (\<exists>z' \<in> set (z # zs). acc reg z' v)"
      using agreeD [of acc reg z "sat n cv defs" b, OF _ assms(2)] by simp
  qed simp
  moreover have "zs \<noteq> []"
    using assms(6,7) by auto
  then have "acc reg (union_of zs) v \<longleftrightarrow> (\<exists>z \<in> set zs. acc reg z v)"
    using zod_lawsD(4) [OF assms(1,2)] by (auto simp: union_of_def split: list.splits)
  ultimately show ?thesis
    using sat by simp
qed

text \<open>A required property that is absent is refused by the mapping of its schema too.\<close>

lemma demands_refuses: "demands n defs s \<Longrightarrow> \<not> sat n cv defs s JUndef"
proof (induction n arbitrary: s)
  case 0
  then show ?case by simp
next
  case (Suc n)
  have "\<not> matchesType t JUndef" for t
    by (simp add: matchesType_def isPlainValue_def)
  then have "type_mismatch s JUndef" if "fld s ''type'' \<noteq> JUndef"
    using that by (simp add: type_mismatch_def list_ex_iff)
  moreover have "s \<noteq> JBool True"
    using Suc.prems by (auto simp: fld_def)
  ultimately show ?case
    using Suc.prems Suc.IH by (fastforce simp: sat_value_def sat_ref_def split: jsval.splits)
qed

lemma get_cases:
  assumes "list_all (\<lambda>p. json_safe (snd p)) ps"
  shows "has_own ps k \<and> json_safe (js_get ps k) \<or> \<not> has_own ps k \<and> js_get ps k = JUndef"
  using assms
proof (induction ps)
  case Nil
  then show ?case by (simp add: has_own_def)
next
  case (Cons p ps)
  then show ?case by (cases p) (auto simp: has_own_def)
qed

lemma get_safe: "list_all (\<lambda>p. json_safe (snd p)) ps \<Longrightarrow> json_safe (js_get ps k) \<or> js_get ps k = JUndef"
  using get_cases by blast

lemma get_own: "list_all (\<lambda>p. json_safe (snd p)) ps \<Longrightarrow> js_get ps k \<noteq> JUndef \<longleftrightarrow> has_own ps k"
  using get_cases [of ps k] by (metis json_safe.simps(1))

text \<open>The shape of an object: its keys are the properties, its fields their mappings.\<close>

definition field_agrees :: "acceptor \<Rightarrow> (string \<Rightarrow> zod option) \<Rightarrow> (jsval \<Rightarrow> jsval \<Rightarrow> bool) \<Rightarrow> string list \<Rightarrow>
    string \<times> jsval \<Rightarrow> string \<times> zod \<Rightarrow> bool" where
  "field_agrees acc reg ok names p f \<longleftrightarrow> fst f = fst p \<and>
     (\<exists>z. agree acc reg z ok (snd p) \<and> snd f = (if fst p \<in> set names then z else Z_optional z))"

lemma shape_agrees:
  assumes "zod_laws acc" "list_all (\<lambda>p. json_safe (snd p)) ps" "distinct (map fst subs)"
    and "list_all2 (field_agrees acc reg (sat n cv defs) names) subs shape"
    and "\<And>k. k \<in> set names \<Longrightarrow> has_own subs k \<and> demands n defs (js_get subs k)"
  shows "(\<forall>(k, z) \<in> set shape. acc reg z (js_get ps k)) \<longleftrightarrow>
    (\<forall>k \<in> set names. has_own ps k) \<and> (\<forall>(k, sub) \<in> set subs. has_own ps k \<longrightarrow> sat n cv defs sub (js_get ps k))"
proof -
  have field: "acc reg (snd f) (js_get ps (fst f)) \<longleftrightarrow>
      (fst p \<in> set names \<longrightarrow> has_own ps (fst p)) \<and> (has_own ps (fst p) \<longrightarrow> sat n cv defs (snd p) (js_get ps (fst p)))"
    if f: "field_agrees acc reg (sat n cv defs) names p f" and p: "p \<in> set subs" for p f
  proof -
    obtain z where z: "agree acc reg z (sat n cv defs) (snd p)" "fst f = fst p"
        "snd f = (if fst p \<in> set names then z else Z_optional z)"
      using f unfolding field_agrees_def by blast
    have v: "json_safe (js_get ps (fst p)) \<or> js_get ps (fst p) = JUndef"
      by (rule get_safe [OF assms(2)])
    have "js_get subs (fst p) = snd p"
      using p map_of_is_SomeI [OF assms(3), of "fst p" "snd p"] by (simp add: js_get_def)
    then have "\<not> sat n cv defs (snd p) JUndef" if "fst p \<in> set names"
      using demands_refuses assms(5) [OF that] by metis
    then show ?thesis
      using z agreeD [OF z(1) v] zod_lawsD(19) [OF assms(1) v] get_own [OF assms(2), of "fst p"] by auto
  qed
  have "(\<forall>f \<in> set shape. acc reg (snd f) (js_get ps (fst f))) \<longleftrightarrow>
      (\<forall>p \<in> set subs. (fst p \<in> set names \<longrightarrow> has_own ps (fst p)) \<and>
         (has_own ps (fst p) \<longrightarrow> sat n cv defs (snd p) (js_get ps (fst p))))"
    using assms(4) field
    by (induction rule: list_all2_induct) (auto simp: list.rel_map)
  also have "\<dots> \<longleftrightarrow> (\<forall>k \<in> set names. has_own ps k) \<and>
      (\<forall>p \<in> set subs. has_own ps (fst p) \<longrightarrow> sat n cv defs (snd p) (js_get ps (fst p)))"
    using assms(5) by (fastforce simp: has_own_def)
  finally show ?thesis
    by (simp add: case_prod_beta)
qed

lemma object_agrees:
  assumes "zod_laws acc" "conv_ok cv" "json_safe v \<or> v = JUndef" "isPlainValue s" "core_types s = Some [JStr ''object'']"
    and "only_keys s [''type'', ''enum'', ''properties'', ''required'', ''additionalProperties'']" "enum_ok s"
    and closed: "fld s ''additionalProperties'' \<in> {JUndef, JBool True, JBool False}"
    and required: "strings_of (fld s ''required'') = Some names"
    and "distinct (map fst (named_props s))"
    and "list_all2 (field_agrees acc reg (sat n cv defs) names) (named_props s) shape"
    and "\<And>k. k \<in> set names \<Longrightarrow> has_own (named_props s) k \<and> demands n defs (js_get (named_props s) k)"
  shows "acc reg (refine_and_null s (object_type s shape)) v \<longleftrightarrow> sat (Suc n) cv defs s v"
proof -
  note absent = only_keys_absent [OF assms(6)]
  have e: "fld s ''const'' = JUndef" "fld s ''minLength'' = JUndef"
      "fld s ''maxLength'' = JUndef" "fld s ''minimum'' = JUndef" "fld s ''maximum'' = JUndef"
      "fld s ''exclusiveMinimum'' = JUndef" "fld s ''exclusiveMaximum'' = JUndef"
    by (simp_all add: absent)
  have node: "sat (Suc n) cv defs s v \<longleftrightarrow> sat_value cv s v \<and> (\<forall>ps. obj_props v = Some ps \<longrightarrow> sat_object cv (sat n cv defs) s ps)"
  proof -
    have "sat_array cv ok s xs" for ok xs
      by (simp add: sat_array_def bound_ok_absent absent)
    moreover have "sat (Suc n) cv defs s v \<longleftrightarrow> sat_value cv s v \<and>
        (\<forall>ps. obj_props v = Some ps \<longrightarrow> sat_object cv (sat n cv defs) s ps) \<and>
        (\<forall>xs. v = JArr xs \<longrightarrow> sat_array cv (sat n cv defs) s xs)"
      by (rule sat_node [OF assms(6,4)]) simp_all
    ultimately show ?thesis by blast
  qed
  have type: "matchesType (JStr ''object'') v \<longleftrightarrow> (\<exists>ps. v = JObj ps)"
    using assms(3) by (cases v) (simp_all add: isPlainValue_def)
  have keys: "fst ` set shape = fst ` set (named_props s)"
    using assms(11) by (induction rule: list_all2_induct) (auto simp: field_agrees_def)
  have rows: "rows_of (fld s ''required'') = Inr (map JStr names)"
    using strings_of_Some [OF required] required by (cases "fld s ''required'' = JUndef") (auto simp: strings_of_def)
  have no_false: "\<not> sat n cv defs (JBool False) x" for x
    by (cases n) simp_all
  have object: "(\<forall>(k, z) \<in> set shape. acc reg z (js_get ps k)) \<and>
      (\<forall>(k, x) \<in> set ps. k \<in> fst ` set shape \<or>
         acc reg (if fld s ''additionalProperties'' = JBool False then Z_never else Z_unknown) x) \<longleftrightarrow>
      sat_object cv (sat n cv defs) s ps" if "v = JObj ps" for ps
  proof -
    have safe: "list_all (\<lambda>p. json_safe (snd p)) ps"
      using assms(3) that by auto
    then have "acc reg Z_unknown x \<and> \<not> acc reg Z_never x" if "(k, x) \<in> set ps" for k x
      using that zod_lawsD(1,2) [OF assms(1)] by (auto simp: list_all_iff)
    then have rest: "(\<forall>(k, x) \<in> set ps. k \<in> fst ` set shape \<or>
         acc reg (if fld s ''additionalProperties'' = JBool False then Z_never else Z_unknown) x) \<longleftrightarrow>
        fld s ''additionalProperties'' \<in> {JUndef, JBool True} \<or>
        (\<forall>(k, x) \<in> set ps. has_own (named_props s) k \<or> sat n cv defs (fld s ''additionalProperties'') x)"
      using closed no_false by (fastforce simp: keys has_own_def)
    have fields: "(\<forall>(k, z) \<in> set shape. acc reg z (js_get ps k)) \<longleftrightarrow> (\<forall>k \<in> set names. has_own ps k) \<and>
        (\<forall>(k, sub) \<in> set (named_props s). has_own ps k \<longrightarrow> sat n cv defs sub (js_get ps k))"
      by (rule shape_agrees [OF assms(1) safe assms(10,11)]) (rule assms(12))
    show ?thesis
      unfolding fields rest sat_object_def rows by (simp add: assms(2))
  qed
  show ?thesis
    unfolding node sat_value_typed [OF assms(5,7) e(1)] acc_refine_and_null [OF assms(1,3,7)]
      object_type_def kind_core [OF assms(5)] type zod_lawsD(18) [OF assms(1,3)]
    using object by (auto simp: e bound_ok_absent)
qed

end
