(* ===== verification/Zod_Agreement.thy ===== *)
theory Zod_Agreement
  imports Zod_Nodes
begin

text \<open>
  The agreement of the two validators on whole documents, a library that has the laws, and
  the keywords the factory drops.
\<close>

section \<open>Agreement of a document\<close>

lemma build_branches_each:
  "build_branches defs bs path i = Inr zs \<Longrightarrow> list_all2 (\<lambda>b z. \<exists>p. build defs b p = Inr z) bs zs"
  by (induction bs arbitrary: i zs) (auto split: sum.splits)

lemma build_shape_each:
  "build_shape defs required subs path = Inr shape \<Longrightarrow> ''__proto__'' \<notin> fst ` set subs \<Longrightarrow>
     list_all2 (\<lambda>p f. fst f = fst p \<and> (\<exists>q z. build defs (snd p) q = Inr z \<and>
       snd f = (if JStr (fst p) \<in> set required then z else Z_optional z))) subs shape"
proof (induction subs arbitrary: shape)
  case Nil
  then show ?case by simp
next
  case (Cons p subs)
  obtain name sub where p: "p = (name, sub)"
    by (cases p)
  from Cons.prems obtain z rest where z: "build defs sub (child_path path name) = Inr z"
      and rest: "build_shape defs required subs path = Inr rest"
      and shape: "shape = (name, if JStr name \<in> set required then z else Z_optional z) # rest"
    by (auto simp: p split: sum.splits)
  have "list_all2 (\<lambda>p f. fst f = fst p \<and> (\<exists>q z. build defs (snd p) q = Inr z \<and>
       snd f = (if JStr (fst p) \<in> set required then z else Z_optional z))) subs rest"
    using Cons.prems(2) by (intro Cons.IH [OF rest]) simp
  then show ?case
    using z unfolding shape p by (simp only: list_all2_Cons fst_conv snd_conv) blast
qed

text \<open>The registry has the mapping of every definition a reference can name.\<close>

definition registry_ok :: "props \<Rightarrow> (string \<Rightarrow> zod option) \<Rightarrow> bool" where
  "registry_ok defs reg \<longleftrightarrow> (\<forall>name. has_own defs name \<longrightarrow> name \<notin> set INHERITED \<longrightarrow> name \<noteq> ''__proto__'' \<longrightarrow>
     (\<exists>p z. reg name = Some z \<and> build defs (js_get defs name) p = Inr z))"

lemma strings_of_rows: "strings_of v = Some names \<Longrightarrow> rows_of v = Inr (map JStr names)"
  using strings_of_Some [of v names] by (cases "v = JUndef") (auto simp: strings_of_def)

lemma build_core:
  assumes "only_keys s ks" "isPlainValue s" "core_types s = Some [t]"
    and "''$ref'' \<notin> set ks" "''anyOf'' \<notin> set ks" "''oneOf'' \<notin> set ks" "''allOf'' \<notin> set ks" "''not'' \<notin> set ks"
    and "''const'' \<notin> set ks"
  shows "build defs s path = map_res (refine_and_null s) (build_type defs s path)"
  unfolding build_node [OF assms(1,2,4-)] using core_typed [OF assms(3)] assms(3) by simp

lemma leaf_agrees:
  assumes "zod_laws acc" "conv_ok cv" "isPlainValue s" "faithful_leaf s" "build defs s path = Inr z"
    and v: "json_safe v \<or> v = JUndef"
  shows "acc reg z v = sat (Suc n) cv defs s v"
proof -
  consider (enum) "fld s ''type'' = JUndef" "only_keys s [''enum'']" "enum_ok s"
    | (boolean) "core_types s = Some [JStr ''boolean'']" "only_keys s [''type'', ''enum'']" "enum_ok s"
    | (string) "core_types s = Some [JStr ''string'']" "only_keys s [''type'', ''minLength'', ''maxLength'']"
        "bounds_ok s [''minLength'', ''maxLength'']"
    | (strings) "core_types s = Some [JStr ''string'']" "only_keys s [''type'', ''enum'']" "enum_ok s"
        "is_arr (fld s ''enum'')" "strings_of (fld s ''enum'') \<noteq> None"
    | (number) t where "core_types s = Some [JStr t]" "t = ''integer'' \<or> t = ''number''"
       "only_keys s [''type'', ''enum'', ''minimum'', ''maximum'', ''exclusiveMinimum'', ''exclusiveMaximum'']"
       "enum_ok s" "bounds_ok s [''minimum'', ''maximum'', ''exclusiveMinimum'', ''exclusiveMaximum'']"
    | (literal) "only_keys s [''const'']" "literal_ok (fld s ''const'')"
    using assms(4) unfolding faithful_leaf_def by (elim disjE conjE) blast+
  then show ?thesis
  proof cases
    case enum
    have "build defs s path = Inr (refine_and_null s Z_unknown)"
      by (subst build_node [OF enum(2) assms(3)]) (simp_all add: enum(1))
    then show ?thesis
      using enum_agrees [OF assms(1) v assms(3) enum] assms(5) by simp
  next
    case boolean
    have "build defs s path = Inr (refine_and_null s Z_boolean)"
      by (subst build_core [OF boolean(2) assms(3) boolean(1)])
        (simp_all add: build_type.simps kind_core [OF boolean(1)] map_res_def)
    then show ?thesis
      using boolean_agrees [OF assms(1) v assms(3) boolean] assms(5) by simp
  next
    case string
    have "build defs s path = Inr (refine_and_null s (string_type s))"
      by (subst build_core [OF string(2) assms(3) string(1)])
        (simp_all add: build_type.simps kind_core [OF string(1)] map_res_def)
    then show ?thesis
      using string_agrees [OF assms(1,2) v assms(3) string] assms(5) by simp
  next
    case strings
    have "build defs s path = Inr (refine_and_null s (string_type s))"
      by (subst build_core [OF strings(2) assms(3) strings(1)])
        (simp_all add: build_type.simps kind_core [OF strings(1)] map_res_def)
    then show ?thesis
      using string_enum_agrees [OF assms(1) v assms(3) strings] assms(5) by simp
  next
    case number
    have "build defs s path = Inr (refine_and_null s (number_type s))"
      using number(2)
      by (subst build_core [OF number(3) assms(3) number(1)])
        (auto simp: build_type.simps kind_core [OF number(1)] map_res_def)
    then show ?thesis
      using number_agrees [OF assms(1,2) v assms(3) number] assms(5) by simp
  next
    case literal
    then show ?thesis
      using literal_agrees [OF assms(1) v assms(3) literal] build_literal [OF assms(3) literal] assms(5) by simp
  qed
qed

lemma build_ref:
  assumes "isPlainValue s" "only_keys s [''$ref'']" "fld s ''$ref'' = JStr r" "take 8 r = ''#/$defs/''"
    and "def_get defs (drop 8 r) \<noteq> JUndef"
  shows "build defs s path = Inr (Z_lazy (drop 8 r))"
proof -
  have "s \<noteq> JBool b" for b
    using assms(1) by (auto simp: isPlainValue_def)
  then show ?thesis
    using assms by (simp add: build.simps [of defs s] only_keys_absent [OF assms(2)])
qed

lemma faithful_present: "faithful n defs s \<Longrightarrow> s \<noteq> JUndef"
  by (cases n) (auto simp: isPlainValue_def)

lemma faithful_refE:
  assumes "faithful_ref (faithful n defs) defs s"
  obtains r where "fld s ''$ref'' = JStr r" "take 8 r = ''#/$defs/''" "has_own defs (drop 8 r)"
    "drop 8 r \<notin> set INHERITED" "drop 8 r \<noteq> ''__proto__''" "faithful n defs (js_get defs (drop 8 r))"
    "only_keys s [''$ref'']" "def_get defs (drop 8 r) = js_get defs (drop 8 r)" "js_get defs (drop 8 r) \<noteq> JUndef"
  using assms faithful_present by (auto simp: faithful_ref_def def_get_def split: jsval.splits)

lemma faithful_unionE:
  assumes "faithful_union ok s"
  obtains bs where "only_keys s [''anyOf'']" "fld s ''anyOf'' = JArr bs" "bs \<noteq> []" "\<forall>b \<in> set bs. ok b"
  using assms by (auto simp: faithful_union_def list_all_iff split: jsval.splits)

lemma faithful_objectE:
  assumes "faithful_object ok req s"
  obtains names where "core_types s = Some [JStr ''object'']"
    "only_keys s [''type'', ''enum'', ''properties'', ''required'', ''additionalProperties'']" "enum_ok s"
    "fld s ''additionalProperties'' \<in> {JUndef, JBool True, JBool False}"
    "fld s ''properties'' = JUndef \<or> is_plain (fld s ''properties'')"
    "\<not> has_own (named_props s) ''__proto__''" "distinct (map fst (named_props s))"
    "\<forall>p \<in> set (named_props s). ok (snd p)" "strings_of (fld s ''required'') = Some names"
    "\<forall>k \<in> set names. has_own (named_props s) k \<and> req (js_get (named_props s) k)"
  using assms unfolding faithful_object_def list_all_iff by (auto split: option.splits)

text \<open>The call trees of unions, arrays and objects.\<close>

lemma build_union_eq:
  assumes "isPlainValue s" "only_keys s [''anyOf'']" "fld s ''anyOf'' = JArr bs"
  shows "build defs s path = map_res union_of (build_branches defs bs (path @ ''/union'') 0)"
proof -
  have "s \<noteq> JBool b" for b
    using assms(1) by (auto simp: isPlainValue_def)
  then show ?thesis
    using assms(1,3) by (simp add: build.simps [of defs s] only_keys_absent [OF assms(2)] coalesce_def is_nullish_def)
qed

lemma build_array_eq:
  assumes "isPlainValue s" "core_types s = Some [JStr ''array'']"
    and "only_keys s [''type'', ''enum'', ''items'', ''minItems'', ''maxItems'']"
  shows "build defs s path = map_res (refine_and_null s) (map_res (array_type s)
      (if fld s ''items'' \<noteq> JUndef then build defs (fld s ''items'') (child_path path ''items'') else Inr Z_unknown))"
proof -
  have "build defs s path = map_res (refine_and_null s) (build_type defs s path)"
    by (rule build_core [OF assms(3,1,2)]) simp_all
  then show ?thesis
    by (simp add: build_type.simps kind_core [OF assms(2)])
qed

lemma build_object_eq:
  assumes "isPlainValue s" "core_types s = Some [JStr ''object'']"
    and "only_keys s [''type'', ''enum'', ''properties'', ''required'', ''additionalProperties'']"
    and "strings_of (fld s ''required'') = Some names"
  shows "build defs s path = map_res (refine_and_null s) (map_res (object_type s)
      (build_shape defs (map JStr names) (named_props s) (child_path path ''properties'')))"
proof -
  have "build defs s path = map_res (refine_and_null s) (build_type defs s path)"
    by (rule build_core [OF assms(3,1,2)]) simp_all
  then show ?thesis
    by (simp add: build_type.simps kind_core [OF assms(2)] strings_of_rows [OF assms(4)] named_props_def split: option.split)
qed

lemma ref_agrees:
  assumes "zod_laws acc" "registry_ok defs reg" "isPlainValue s" "faithful_ref (faithful n defs) defs s"
    and z: "build defs s path = Inr z"
    and IH: "\<And>t p z. faithful n defs t \<Longrightarrow> build defs t p = Inr z \<Longrightarrow> agree acc reg z (sat n cv defs) t"
    and v: "json_safe v \<or> v = JUndef"
  shows "acc reg z v = sat (Suc n) cv defs s v"
proof -
  obtain r where r: "fld s ''$ref'' = JStr r" "take 8 r = ''#/$defs/''" "has_own defs (drop 8 r)"
      "drop 8 r \<notin> set INHERITED" "drop 8 r \<noteq> ''__proto__''" "faithful n defs (js_get defs (drop 8 r))"
    and only: "only_keys s [''$ref'']"
    and target: "def_get defs (drop 8 r) = js_get defs (drop 8 r)" "js_get defs (drop 8 r) \<noteq> JUndef"
    by (rule faithful_refE [OF assms(4)])
  note absent = only_keys_absent [OF only]
  have b: "s \<noteq> JBool b" for b
    using assms(3) by (auto simp: isPlainValue_def)
  obtain q y where reg: "reg (drop 8 r) = Some y" and y: "build defs (js_get defs (drop 8 r)) q = Inr y"
    using assms(2) r(3-5) unfolding registry_ok_def by blast
  have agree: "agree acc reg y (sat n cv defs) (js_get defs (drop 8 r))"
    by (rule IH [OF r(6) y])
  have "z = Z_lazy (drop 8 r)"
    using z build_ref [OF assms(3) only r(1,2), of defs path] target by simp
  then have "acc reg z v = sat n cv defs (js_get defs (drop 8 r)) v"
    using zod_lawsD(3) [OF assms(1) v, of reg, OF reg] agreeD [OF agree v] by simp
  moreover have "sat_value cv s v" "sat_object cv ok s ps" "sat_array cv ok s xs" "sat_branching ok s v" for ok ps xs
    by (simp_all add: sat_value_def sat_object_def sat_array_def sat_branching_def type_mismatch_def named_props_def
        bound_ok_absent absent)
  moreover have "sat_ref ok defs s v \<longleftrightarrow> ok (js_get defs (drop 8 r)) v" for ok
    using r(1,2) target by (simp add: sat_ref_def)
  ultimately show ?thesis
    using b by auto
qed

lemma build_agrees:
  assumes "zod_laws acc" "conv_ok cv" "registry_ok defs reg"
  shows "faithful n defs s \<Longrightarrow> build defs s path = Inr z \<Longrightarrow> agree acc reg z (sat n cv defs) s"
proof (induction n arbitrary: s path z)
  case 0
  then show ?case by simp
next
  case (Suc n)
  show ?case
    unfolding agree_def
  proof (intro allI impI)
    fix v
    assume v: "json_safe v \<or> v = JUndef"
    note laws = zod_lawsD [OF assms(1) v]
    consider "s = JBool True" | "s = JBool False" | (leaf) "isPlainValue s" "faithful_leaf s"
      | (ref) "isPlainValue s" "faithful_ref (faithful n defs) defs s"
      | (union) "isPlainValue s" "faithful_union (faithful n defs) s"
      | (array) "isPlainValue s" "faithful_array (faithful n defs) s"
      | (object) "isPlainValue s" "faithful_object (faithful n defs) (demands n defs) s"
      using Suc.prems(1) unfolding faithful.simps by (elim disjE conjE) blast+
    then show "acc reg z v = sat (Suc n) cv defs s v"
    proof cases
      case 1
      then show ?thesis
        using Suc.prems(2) laws(1) by (simp add: build.simps)
    next
      case 2
      then show ?thesis
        using Suc.prems(2) laws(2) by (simp add: build.simps)
    next
      case leaf
      then show ?thesis
        by (rule leaf_agrees [OF assms(1,2) _ _ Suc.prems(2) v])
    next
      case ref
      show ?thesis
        by (rule ref_agrees [OF assms(1,3) ref Suc.prems(2) Suc.IH v])
    next
      case union
      obtain bs where bs: "only_keys s [''anyOf'']" "fld s ''anyOf'' = JArr bs" "bs \<noteq> []" "\<forall>b \<in> set bs. faithful n defs b"
        by (rule faithful_unionE [OF union(2)])
      obtain zs where zs: "z = union_of zs" "list_all2 (\<lambda>b z. \<exists>p. build defs b p = Inr z) bs zs"
        using Suc.prems(2) [unfolded build_union_eq [OF union(1) bs(1,2)]] build_branches_each by auto
      have "list_all2 (\<lambda>b z. agree acc reg z (sat n cv defs) b) bs zs"
        using zs(2) bs(4) Suc.IH by (auto simp: list_all2_conv_all_nth)
      then show ?thesis
        unfolding zs(1) by (rule union_agrees [OF assms(1) v union(1) bs(1-3)])
    next
      case array
      have a: "core_types s = Some [JStr ''array'']"
          "only_keys s [''type'', ''enum'', ''items'', ''minItems'', ''maxItems'']" "enum_ok s"
          "bounds_ok s [''minItems'', ''maxItems'']" "fld s ''items'' = JUndef \<or> faithful n defs (fld s ''items'')"
        using array(2) unfolding faithful_array_def by blast+
      obtain y where y: "z = refine_and_null s (array_type s y)"
          "(if fld s ''items'' \<noteq> JUndef then build defs (fld s ''items'') (child_path path ''items'')
            else Inr Z_unknown) = Inr y"
        using Suc.prems(2) [unfolded build_array_eq [OF array(1) a(1,2)]] by auto
      have "if fld s ''items'' = JUndef then y = Z_unknown else agree acc reg y (sat n cv defs) (fld s ''items'')"
        using y(2) a(5) Suc.IH by (auto split: if_splits)
      then show ?thesis
        unfolding y(1) by (rule array_agrees [OF assms(1,2) v array(1) a(1-4)])
    next
      case object
      obtain names where a: "core_types s = Some [JStr ''object'']"
          "only_keys s [''type'', ''enum'', ''properties'', ''required'', ''additionalProperties'']" "enum_ok s"
          "fld s ''additionalProperties'' \<in> {JUndef, JBool True, JBool False}"
          "fld s ''properties'' = JUndef \<or> is_plain (fld s ''properties'')"
          "\<not> has_own (named_props s) ''__proto__''" "distinct (map fst (named_props s))"
          "\<forall>p \<in> set (named_props s). faithful n defs (snd p)" "strings_of (fld s ''required'') = Some names"
          "\<forall>k \<in> set names. has_own (named_props s) k \<and> demands n defs (js_get (named_props s) k)"
        by (rule faithful_objectE [OF object(2)])
      obtain shape where shape: "z = refine_and_null s (object_type s shape)"
          "build_shape defs (map JStr names) (named_props s) (child_path path ''properties'') = Inr shape"
        using Suc.prems(2) [unfolded build_object_eq [OF object(1) a(1,2,9)]] by auto
      have "list_all2 (\<lambda>p f. fst f = fst p \<and> (\<exists>q z. build defs (snd p) q = Inr z \<and>
          snd f = (if JStr (fst p) \<in> set (map JStr names) then z else Z_optional z))) (named_props s) shape"
        using a(6) by (intro build_shape_each [OF shape(2)]) (simp add: has_own_def)
      then have "list_all2 (field_agrees acc reg (sat n cv defs) names) (named_props s) shape"
        using a(8) Suc.IH unfolding list_all2_conv_all_nth field_agrees_def by fastforce
      then show ?thesis
        unfolding shape(1) by (rule object_agrees [OF assms(1,2) v object(1) a(1-4) a(9) a(7)]) (use a(10) in blast)
    qed
  qed
qed

lemma build_defs_registry:
  assumes "build_defs defs names reg0 = Inr reg"
    and "\<forall>(k, z) \<in> set reg0. \<exists>p. build defs (js_get defs k) p = Inr z"
  shows "(\<forall>(k, z) \<in> set reg. \<exists>p. build defs (js_get defs k) p = Inr z) \<and>
    fst ` set reg0 \<subseteq> fst ` set reg \<and> {k \<in> set names. k \<notin> set INHERITED \<and> k \<noteq> ''__proto__''} \<subseteq> fst ` set reg \<and>
    fst ` set reg \<subseteq> fst ` set reg0 \<union> set names"
  using assms
proof (induction defs names reg0 rule: build_defs.induct)
  case (1 defs reg0)
  then show ?case by auto
next
  case (2 defs name names reg0)
  show ?case
  proof (cases "name \<in> fst ` set reg0 \<or> name \<in> set INHERITED \<or> name = ''__proto__''")
    case True
    then show ?thesis
      using 2 by auto
  next
    case False
    then obtain z where z: "build defs (js_get defs name) (''#/$defs/'' @ name) = Inr z"
      and rest: "build_defs defs names (reg0 @ [(name, z)]) = Inr reg"
      using "2.prems"(1) by (auto split: sum.splits)
    have "\<forall>(k, z) \<in> set (reg0 @ [(name, z)]). \<exists>p. build defs (js_get defs k) p = Inr z"
      using "2.prems"(2) z by auto
    from "2.IH"(2) [OF False z rest this] show ?thesis
      by auto
  qed
qed

lemma zodSchemas_registry:
  assumes "zodSchemas u doc = Inr registry" "makeValidator doc = Inr defs"
  shows "registry_ok defs (map_of registry)" "map_of registry name = Some z \<Longrightarrow> \<exists>p. build defs (js_get defs name) p = Inr z"
    "map_of registry name = Some z \<Longrightarrow> has_own defs name"
proof -
  have run: "build_defs defs (map fst defs) [] = Inr registry"
    using assms by (auto simp: zodSchemas_def makeValidator_def Let_def split: if_splits sum.splits option.splits)
  note all = build_defs_registry [OF run, simplified]
  show "\<exists>p. build defs (js_get defs name) p = Inr z" if "map_of registry name = Some z" for name z
    using all map_of_SomeD [OF that] by auto
  then show "registry_ok defs (map_of registry)"
    using all unfolding registry_ok_def has_own_def
    by (smt (verit) image_set map_of_eq_None_iff mem_Collect_eq not_None_eq set_map subsetD)
  show "has_own defs name" if "map_of registry name = Some z"
    using all map_of_SomeD [OF that] by (force simp: has_own_def)
qed

lemma registry_agrees:
  assumes "zod_laws acc" "conv_ok cv"
    and "zodSchemas True doc = Inr registry" "makeValidator doc = Inr defs" "map_of registry name = Some z"
    and "faithful 65 defs (js_get defs name)" "json_safe v" "validate cv defs name v = Inr vs"
  shows "acc (map_of registry) z v \<longleftrightarrow> vs = []"
proof -
  obtain p where "build defs (js_get defs name) p = Inr z"
    using zodSchemas_registry(2) [OF assms(3-5)] by blast
  then have "agree acc (map_of registry) z (sat 65 cv defs) (js_get defs name)"
    by (rule build_agrees [OF assms(1,2) zodSchemas_registry(1) [OF assms(3,4)] assms(6)])
  then have "acc (map_of registry) z v \<longleftrightarrow> sat 65 cv defs (js_get defs name) v"
    using assms(7) agreeD by blast
  moreover have "def_get defs name = js_get defs name"
    using zodSchemas_registry(3) [OF assms(3-5)] by (simp add: def_get_def)
  moreover have "js_get defs name \<noteq> JUndef"
    using assms(6) by (auto simp: isPlainValue_def eval_nat_numeral)
  ultimately show ?thesis
    using modelsD [OF check_models, of "SCHEMA_MAX_DEPTH + 1" cv defs "def_get defs name" v "''$''" vs] assms(8)
    by (simp add: validate_def Let_def SCHEMA_MAX_DEPTH_def del: check.simps sat.simps)
qed


section \<open>A library with these laws\<close>

inductive zod_rejects :: "(string \<Rightarrow> zod option) \<Rightarrow> zod \<Rightarrow> jsval \<Rightarrow> bool" for reg where
  "zod_rejects reg Z_never v"
| "reg name = Some z \<Longrightarrow> zod_rejects reg z v \<Longrightarrow> zod_rejects reg (Z_lazy name) v"
| "\<forall>z \<in> set zs. zod_rejects reg z v \<Longrightarrow> zod_rejects reg (Z_union zs) v"
| "v \<noteq> c \<Longrightarrow> zod_rejects reg (Z_literal c) v"
| "v \<notin> set cs \<Longrightarrow> zod_rejects reg (Z_enum cs) v"
| "typeof v \<noteq> ''string'' \<Longrightarrow> zod_rejects reg Z_string v"
| "typeof v \<noteq> ''number'' \<Longrightarrow> zod_rejects reg Z_number v"
| "typeof v \<noteq> ''boolean'' \<Longrightarrow> zod_rejects reg Z_boolean v"
| "zod_rejects reg z v \<or> (\<forall>n. v = JNum n \<longrightarrow> safe_int n = None) \<Longrightarrow> zod_rejects reg (Z_int z) v"
| "zod_rejects reg z v \<or> (\<exists>s. v = JStr s \<and> of_nat (length s) < r) \<or> (\<exists>xs. v = JArr xs \<and> of_nat (length xs) < r) \<Longrightarrow>
    zod_rejects reg (Z_min z (JNum (Fin r))) v"
| "zod_rejects reg z v \<or> (\<exists>s. v = JStr s \<and> r < of_nat (length s)) \<or> (\<exists>xs. v = JArr xs \<and> r < of_nat (length xs)) \<Longrightarrow>
    zod_rejects reg (Z_max z (JNum (Fin r))) v"
| "zod_rejects reg z v \<or> (\<exists>x. v = JNum (Fin x) \<and> x < r) \<Longrightarrow> zod_rejects reg (Z_gte z (JNum (Fin r))) v"
| "zod_rejects reg z v \<or> (\<exists>x. v = JNum (Fin x) \<and> r < x) \<Longrightarrow> zod_rejects reg (Z_lte z (JNum (Fin r))) v"
| "zod_rejects reg z v \<or> (\<exists>x. v = JNum (Fin x) \<and> x \<le> r) \<Longrightarrow> zod_rejects reg (Z_gt z (JNum (Fin r))) v"
| "zod_rejects reg z v \<or> (\<exists>x. v = JNum (Fin x) \<and> r \<le> x) \<Longrightarrow> zod_rejects reg (Z_lt z (JNum (Fin r))) v"
| "(\<forall>xs. v = JArr xs \<longrightarrow> (\<exists>x \<in> set xs. zod_rejects reg z x)) \<Longrightarrow> zod_rejects reg (Z_array z) v"
| "(\<forall>ps. v = JObj ps \<longrightarrow> (\<exists>f \<in> set shape. zod_rejects reg (snd f) (js_get ps (fst f))) \<or>
      (\<exists>p \<in> set ps. fst p \<notin> fst ` set shape \<and> zod_rejects reg rest (snd p))) \<Longrightarrow> zod_rejects reg (Z_object shape rest) v"
| "v \<noteq> JUndef \<Longrightarrow> zod_rejects reg z v \<Longrightarrow> zod_rejects reg (Z_optional z) v"
| "zod_rejects reg z v \<or> (\<forall>c \<in> set cs. \<not> deepEqual c v) \<Longrightarrow> zod_rejects reg (Z_refine z cs) v"
| "v \<noteq> JNull \<Longrightarrow> zod_rejects reg z v \<Longrightarrow> zod_rejects reg (Z_nullable z) v"

inductive_simps zod_rejects_simps:
  "zod_rejects reg Z_unknown v" "zod_rejects reg Z_never v" "zod_rejects reg (Z_lazy name) v" "zod_rejects reg (Z_union zs) v"
  "zod_rejects reg (Z_literal c) v" "zod_rejects reg (Z_enum cs) v" "zod_rejects reg Z_string v" "zod_rejects reg Z_number v"
  "zod_rejects reg Z_boolean v" "zod_rejects reg (Z_int z) v" "zod_rejects reg (Z_min z b) v" "zod_rejects reg (Z_max z b) v"
  "zod_rejects reg (Z_gte z b) v" "zod_rejects reg (Z_lte z b) v" "zod_rejects reg (Z_gt z b) v" "zod_rejects reg (Z_lt z b) v"
  "zod_rejects reg (Z_array z) v" "zod_rejects reg (Z_object shape rest) v" "zod_rejects reg (Z_optional z) v"
  "zod_rejects reg (Z_refine z cs) v" "zod_rejects reg (Z_nullable z) v"

definition zod_accepts :: acceptor where
  "zod_accepts reg z v \<longleftrightarrow> \<not> zod_rejects reg z v"

lemma zod_accepts_laws: "zod_laws zod_accepts"
  unfolding zod_laws_def zod_accepts_def zod_rejects_simps
  by (intro allI impI conjI) (auto simp: not_less not_le split_beta)

section \<open>Samples\<close>

definition notes_doc :: jsval where
  "notes_doc = JObj [(''$defs'', JObj [
     (''Tag'', JObj [(''type'', JStr ''string''), (''minLength'', JNum (num 1))]),
     (''Note'', JObj [(''type'', JStr ''object''), (''additionalProperties'', JBool False),
        (''required'', JArr [JStr ''id'', JStr ''tags'']),
        (''properties'', JObj [
          (''id'', JObj [(''$ref'', JStr ''#/$defs/Tag'')]),
          (''tags'', JObj [(''type'', JArr [JStr ''array'', JStr ''null'']), (''items'', JObj [(''$ref'', JStr ''#/$defs/Tag'')])]),
          (''rank'', JObj [(''anyOf'', JArr [JObj [(''type'', JStr ''integer'')], JObj [(''const'', JStr ''last'')]])])])])])]"

definition bad_note :: jsval where
  "bad_note = JObj [(''id'', JStr ''a''), (''tags'', JArr [JStr ''b'', JStr []]), (''rank'', JStr ''last'')]"


text \<open>
  Outside that part the factory is silent: it drops \<open>uniqueItems\<close>, a schema of the additional
  properties, every keyword beside a reference, a constant or branches, and every keyword
  but \<open>enum\<close> of a node without a type; it takes \<open>oneOf\<close> for \<open>anyOf\<close>; and it lets \<open>null\<close>
  through where \<open>enum\<close> does not list it.
\<close>
lemma zod_drops_keywords:
  "build defs (JObj [(''type'', JStr ''array''), (''uniqueItems'', JBool True)]) p = Inr (Z_array Z_unknown)"
  "build defs (JObj [(''type'', JStr ''object''), (''additionalProperties'', JObj [(''type'', JStr ''string'')])]) p =
     Inr (Z_object [] Z_unknown)"
  "build defs (JObj [(''const'', JStr ''a''), (''maxLength'', JNum (num 0))]) p = Inr (Z_literal (JStr ''a''))"
  "build defs (JObj [(''minLength'', JNum (num 9))]) p = Inr Z_unknown"
  "build defs (JObj [(''oneOf'', JArr [s, t])]) p = build defs (JObj [(''anyOf'', JArr [s, t])]) p"
  "build defs (JObj [(''type'', JArr [JStr ''string'', JStr ''null'']), (''enum'', JArr [JStr ''a''])]) p =
     Inr (Z_nullable (Z_enum [JStr ''a'']))"
  by (simp_all add: build.simps [of _ "JObj ps" for ps] build_type.simps isPlainValue_def fld_def kind_of_def core_types_def types_of_def
      type_names_def nullable_def refine_and_null_def array_type_def object_type_def string_type_def with_bound_def
      map_res_def coalesce_def is_nullish_def)

end
