(* ===== verification/Zod_Canonical.thy ===== *)
theory Zod_Canonical
  imports Zod_Agreement
begin

text \<open>
  The canonical schema is mapped without loss: a faithful schema is never refused, every
  canonical definition is faithful, so the zod schemas and the validator agree on it.
\<close>

section \<open>The canonical schema\<close>

text \<open>A faithful schema is never refused.\<close>

lemma map_res_ex [simp]: "(\<exists>y. map_res f r = Inr y) \<longleftrightarrow> (\<exists>x. r = Inr x)"
  by (cases r) (auto simp: map_res_def)

lemma build_branches_total:
  assumes "\<And>b p. b \<in> set bs \<Longrightarrow> \<exists>z. build defs b p = Inr z"
  shows "\<exists>zs. build_branches defs bs path i = Inr zs"
  using assms
proof (induction bs arbitrary: i)
  case Nil
  then show ?case by simp
next
  case (Cons b bs)
  obtain z where "build defs b (branch_path path i) = Inr z"
    using Cons.prems [of b "branch_path path i"] by auto
  then show ?case
    using Cons by simp
qed

lemma build_shape_total:
  assumes "\<And>p q. p \<in> set subs \<Longrightarrow> \<exists>z. build defs (snd p) q = Inr z"
  shows "\<exists>shape. build_shape defs required subs path = Inr shape"
  using assms
proof (induction subs)
  case Nil
  then show ?case by simp
next
  case (Cons p subs)
  obtain z where "build defs (snd p) (child_path path (fst p)) = Inr z"
    using Cons.prems [of p "child_path path (fst p)"] by auto
  then show ?case
    using Cons by (cases p) simp
qed

lemma leaf_total:
  assumes "isPlainValue s" "faithful_leaf s"
  shows "\<exists>z. build defs s path = Inr z"
proof -
  consider (enum) "fld s ''type'' = JUndef" "only_keys s [''enum'']"
    | (typed) t ks where "core_types s = Some [JStr t]" "only_keys s ks" "t \<in> {''boolean'', ''string'', ''integer'', ''number''}"
        "set ks \<subseteq> {''type'', ''enum'', ''minLength'', ''maxLength'', ''minimum'', ''maximum'', ''exclusiveMinimum'', ''exclusiveMaximum''}"
    | (literal) "only_keys s [''const'']" "literal_ok (fld s ''const'')"
    using assms(2) unfolding faithful_leaf_def by (elim disjE conjE) force+
  then show ?thesis
  proof cases
    case enum
    then show ?thesis
      by (subst build_node [OF enum(2) assms(1)]) simp_all
  next
    case typed
    have "build defs s path = map_res (refine_and_null s) (build_type defs s path)"
      by (rule build_core [OF typed(2) assms(1) typed(1)]; rule contra_subsetD [OF typed(4)]; simp)
    then show ?thesis
      using typed(3) by (auto simp: build_type.simps kind_core [OF typed(1)] map_res_def)
  next
    case literal
    then show ?thesis
      using build_literal [OF assms(1)] by blast
  qed
qed

lemma faithful_total: "faithful n defs s \<Longrightarrow> \<exists>z. build defs s path = Inr z"
proof (induction n arbitrary: s path)
  case 0
  then show ?case by simp
next
  case (Suc n)
  consider b where "s = JBool b" | (leaf) "isPlainValue s" "faithful_leaf s"
    | (ref) "isPlainValue s" "faithful_ref (faithful n defs) defs s"
    | (union) "isPlainValue s" "faithful_union (faithful n defs) s"
    | (array) "isPlainValue s" "faithful_array (faithful n defs) s"
    | (object) "isPlainValue s" "faithful_object (faithful n defs) (demands n defs) s"
    using Suc.prems(1) unfolding faithful.simps by (elim disjE conjE) blast+
  then show ?case
  proof cases
    case 1
    then show ?thesis
      by (cases b) (simp_all add: build.simps)
  next
    case leaf
    then show ?thesis
      by (rule leaf_total)
  next
    case ref
    then show ?thesis
      by (elim faithful_refE) (use build_ref in fastforce)
  next
    case union
    obtain bs where bs: "only_keys s [''anyOf'']" "fld s ''anyOf'' = JArr bs" "bs \<noteq> []" "\<forall>b \<in> set bs. faithful n defs b"
      by (rule faithful_unionE [OF union(2)])
    show ?thesis
      unfolding build_union_eq [OF union(1) bs(1,2)] map_res_ex
      by (rule build_branches_total) (use bs(4) Suc.IH in blast)
  next
    case array
    have a: "core_types s = Some [JStr ''array'']" "only_keys s [''type'', ''enum'', ''items'', ''minItems'', ''maxItems'']"
        "fld s ''items'' = JUndef \<or> faithful n defs (fld s ''items'')"
      using array(2) unfolding faithful_array_def by blast+
    show ?thesis
      unfolding build_array_eq [OF array(1) a(1,2)] map_res_ex
      using a(3) Suc.IH by auto
  next
    case object
    obtain names where a: "core_types s = Some [JStr ''object'']"
        "only_keys s [''type'', ''enum'', ''properties'', ''required'', ''additionalProperties'']"
        "strings_of (fld s ''required'') = Some names" "\<forall>p \<in> set (named_props s). faithful n defs (snd p)"
      by (rule faithful_objectE [OF object(2)])
    show ?thesis
      unfolding build_object_eq [OF object(1) a(1-3)] map_res_ex
      by (rule build_shape_total) (use a(4) Suc.IH in blast)
  qed
qed

lemma build_defs_total:
  assumes "\<And>name. name \<in> set names \<Longrightarrow> faithful n defs (js_get defs name)"
  shows "\<exists>registry. build_defs defs names reg0 = Inr registry"
  using assms
proof (induction defs names reg0 rule: build_defs.induct)
  case (1 defs reg0)
  then show ?case by simp
next
  case (2 defs name names reg0)
  obtain z where "build defs (js_get defs name) (''#/$defs/'' @ name) = Inr z"
    using faithful_total "2.prems" [of name] by fastforce
  then show ?case
    using 2 by simp
qed

text \<open>The nodes that occur in the canonical schema.\<close>

lemma canonical_leaves:
  "faithful_leaf (JObj [(''type'', JStr ''string''), (''minLength'', JNum (num k)), (''description'', d)])"
  "faithful_leaf (JObj [(''type'', JStr ''string''), (''minLength'', JNum (num k)), (''maxLength'', JNum (num m)), (''description'', d)])"
  "\<forall>c \<in> set cs. typeof c = ''string'' \<Longrightarrow>
     faithful_leaf (JObj [(''type'', JStr ''string''), (''enum'', JArr cs), (''description'', d)])"
  "faithful_leaf (JObj [(''type'', JStr ''integer''), (''minimum'', JNum (num k)), (''maximum'', JNum (num m)), (''description'', d)])"
  "faithful_leaf (JObj [(''type'', JStr ''integer''), (''minimum'', JNum (num k)), (''description'', d)])"
  "faithful_leaf (JObj [(''type'', JStr ''boolean''), (''description'', d)])"
  by (simp_all add: faithful_leaf_def only_keys_def ENFORCED_def core_types_def types_of_def type_names_def fld_def
      bounds_ok_def num_def enum_ok_def nullable_def strings_of_def list_all_iff)

lemma canonical_row:
  "faithful_object ok req (JObj [(''type'', JArr [JStr ''object'', JStr ''null'']), (''description'', d)])"
  by (simp add: faithful_object_def only_keys_def ENFORCED_def core_types_def types_of_def type_names_def fld_def
      enum_ok_def named_props_def has_own_def strings_of_def)

lemma canonical_envelope:
  assumes "list_all (\<lambda>p. ok (snd p)) subs"
    and names: "strings_of (JArr rs) = Some names" "list_all (\<lambda>k. has_own subs k \<and> req (js_get subs k)) names"
    and "distinct (map fst subs)" "''__proto__'' \<notin> fst ` set subs"
    and s: "s = JObj [(''type'', JStr ''object''), (''title'', t), (''description'', d),
      (''additionalProperties'', JBool False), (''required'', JArr rs), (''properties'', JObj subs)]"
  shows "faithful_object ok req s"
proof -
  have "named_props s = subs" "core_types s = Some [JStr ''object'']"
      "only_keys s [''type'', ''enum'', ''properties'', ''required'', ''additionalProperties'']" "enum_ok s"
      "fld s ''additionalProperties'' = JBool False" "fld s ''properties'' = JObj subs" "fld s ''required'' = JArr rs"
    by (simp_all add: s named_props_def fld_def core_types_def types_of_def type_names_def only_keys_def ENFORCED_def enum_ok_def)
  then show ?thesis
    unfolding faithful_object_def using assms by (simp add: has_own_def)
qed

lemma canonical_changes:
  assumes "faithful n defs (js_get defs r)" "has_own defs r" "r \<notin> set INHERITED" "r \<noteq> ''__proto__''"
  shows "faithful_array (faithful (Suc n) defs) (JObj [(''type'', JStr ''array''),
      (''items'', JObj [(''$ref'', JStr (''#/$defs/'' @ r))]), (''description'', d)])"
  using assms
  by (simp add: faithful_array_def faithful_ref_def only_keys_def ENFORCED_def core_types_def types_of_def type_names_def fld_def
      bounds_ok_def enum_ok_def isPlainValue_def)

lemma plain_object [simp]: "isPlainValue (JObj ps)"
  by (simp add: isPlainValue_def)

lemma faithful_steps:
  "faithful_leaf s \<Longrightarrow> isPlainValue s \<Longrightarrow> faithful (Suc n) defs s"
  "faithful_array (faithful n defs) s \<Longrightarrow> isPlainValue s \<Longrightarrow> faithful (Suc n) defs s"
  "faithful_object (faithful n defs) (demands n defs) s \<Longrightarrow> isPlainValue s \<Longrightarrow> faithful (Suc n) defs s"
  by simp_all

lemma typed_demands: "fld s ''type'' \<noteq> JUndef \<Longrightarrow> demands (Suc n) defs s"
  by simp

lemmas canonical_fields = canonical_leaves [THEN faithful_steps(1)] canonical_row [THEN faithful_steps(3)]

lemma faithful_change: "faithful (Suc (Suc n)) defs SyncChangeEvent"
  by (rule faithful_steps(3), rule canonical_envelope [OF _ _ _ _ _ SyncChangeEvent_def])
    (simp_all add: canonical_fields strings_of_def has_own_def list.pred_inject fld_def SyncChangeEvent_def del: faithful.simps)+

lemma faithful_envelopes:
  "faithful (Suc (Suc n)) defs SyncQueuedWrite"
  "faithful (Suc (Suc n)) defs SyncWriteAcknowledgement"
  "faithful (Suc (Suc n)) defs SyncWritePolicy"
  "faithful (Suc (Suc n)) defs SyncReplicaMetadata"
  "faithful (Suc (Suc n)) defs SyncTelemetryEvent"
  subgoal
    by (rule faithful_steps(3), rule canonical_envelope [OF _ _ _ _ _ SyncQueuedWrite_def])
      (simp_all add: canonical_fields strings_of_def has_own_def list.pred_inject fld_def SyncQueuedWrite_def del: faithful.simps)+
  subgoal
    by (rule faithful_steps(3), rule canonical_envelope [OF _ _ _ _ _ SyncWriteAcknowledgement_def])
      (simp_all add: canonical_fields strings_of_def has_own_def list.pred_inject fld_def SyncWriteAcknowledgement_def del: faithful.simps)+
  subgoal
    by (rule faithful_steps(3), rule canonical_envelope [OF _ _ _ _ _ SyncWritePolicy_def])
      (simp_all add: canonical_fields strings_of_def has_own_def list.pred_inject fld_def SyncWritePolicy_def del: faithful.simps)+
  subgoal
    by (rule faithful_steps(3), rule canonical_envelope [OF _ _ _ _ _ SyncReplicaMetadata_def])
      (simp_all add: canonical_fields strings_of_def has_own_def list.pred_inject fld_def SyncReplicaMetadata_def del: faithful.simps)+
  subgoal
    by (rule faithful_steps(3), rule canonical_envelope [OF _ _ _ _ _ SyncTelemetryEvent_def])
      (simp_all add: canonical_fields strings_of_def has_own_def list.pred_inject fld_def SyncTelemetryEvent_def del: faithful.simps)+
  done

lemma faithful_page: "faithful (Suc (Suc (Suc (Suc (Suc n))))) SYNC_DEFS SyncPullPage"
proof -
  have event: "js_get SYNC_DEFS ''SyncChangeEvent'' = SyncChangeEvent" "has_own SYNC_DEFS ''SyncChangeEvent''"
    by (simp_all add: SYNC_DEFS_def has_own_def)+
  have changes: "faithful (Suc (Suc (Suc (Suc n)))) SYNC_DEFS (JObj [(''type'', JStr ''array''),
      (''items'', JObj [(''$ref'', JStr ''#/$defs/SyncChangeEvent'')]), (''description'', d)])" for d
    using canonical_changes [of "Suc (Suc n)" SYNC_DEFS "''SyncChangeEvent''" d]
    by (intro faithful_steps(2)) (simp_all add: event faithful_change INHERITED_def del: faithful.simps)
  show ?thesis
    by (rule faithful_steps(3), rule canonical_envelope [OF _ _ _ _ _ SyncPullPage_def])
      (simp_all add: changes canonical_fields strings_of_def has_own_def list.pred_inject fld_def SyncPullPage_def del: faithful.simps)+
qed

text \<open>Every definition of the canonical schema is faithful, so all of it is mapped.\<close>

lemma sync_defs_cases:
  "(name, s) \<in> set SYNC_DEFS \<Longrightarrow> s \<in> {SyncChangeEvent, SyncQueuedWrite, SyncWriteAcknowledgement, SyncPullPage,
     SyncWritePolicy, SyncReplicaMetadata, SyncTelemetryEvent}"
  by (auto simp: SYNC_DEFS_def)

lemma sync_defs_faithful: "(name, s) \<in> set SYNC_DEFS \<Longrightarrow> faithful 65 SYNC_DEFS s"
proof -
  have n: "(65 :: nat) = Suc (Suc (Suc (Suc (Suc 60))))"
    by simp
  assume "(name, s) \<in> set SYNC_DEFS"
  from sync_defs_cases [OF this] show ?thesis
    unfolding n by (elim insertE emptyE; simp only: faithful_change faithful_page faithful_envelopes)
qed

lemma sync_schema_zod:
  assumes "zod_laws acc" "conv_ok cv"
  shows "\<exists>registry. zodSchemas True SYNC_SCHEMA = Inr registry \<and>
    (\<forall>(name, s) \<in> set SYNC_DEFS. \<exists>z. map_of registry name = Some z \<and>
      (\<forall>v vs. json_safe v \<longrightarrow> validateSyncEnvelope cv name v = Inr vs \<longrightarrow> acc (map_of registry) z v = (vs = [])))"
proof -
  have get: "js_get SYNC_DEFS name = s" if "(name, s) \<in> set SYNC_DEFS" for name s
    using that by (auto simp: SYNC_DEFS_def)
  have "\<exists>registry. build_defs SYNC_DEFS (map fst SYNC_DEFS) [] = Inr registry"
    by (rule build_defs_total) (use get sync_defs_faithful in fastforce)
  moreover have "checkSupported SYNC_SCHEMA ''#'' = Inr ()" "obj_props (fld SYNC_SCHEMA ''$defs'') = Some SYNC_DEFS"
    using sync_schema_loads by (auto simp: makeValidator_def SYNC_SCHEMA_def fld_def split: sum.splits)
  ultimately obtain registry where zod: "zodSchemas True SYNC_SCHEMA = Inr registry"
    by (auto simp: zodSchemas_def)
  note facts = zodSchemas_registry [OF zod sync_schema_loads]
  have "\<exists>z. map_of registry name = Some z" if "(name, s) \<in> set SYNC_DEFS" for name s
  proof -
    have "has_own SYNC_DEFS name" "name \<notin> set INHERITED" "name \<noteq> ''__proto__''"
      using that by (auto simp: has_own_def SYNC_DEFS_def INHERITED_def)
    then show ?thesis
      using facts(1) unfolding registry_ok_def by blast
  qed
  then show ?thesis
    using zod registry_agrees [OF assms zod sync_schema_loads] sync_defs_faithful get
    by (fastforce simp: validateSyncEnvelope_def sync_schema_loads)
qed

end
