(* ===== verification/Rust_Schema.thy ===== *)
theory Rust_Schema
  imports Sync_Schema
begin

text \<open>
  The Rust copy of the validator (src/schema.rs) on the values of serde_json, function by
  function, and the JavaScript value the same JSON text stands for.
\<close>

section \<open>Values\<close>

text \<open>
  A number is an integer of 64 bits or a finite double; an object is a map sorted by key.
\<close>

datatype rs_num = Rs_int int | Rs_float rat

datatype rs_val =
    R_null
  | R_bool bool
  | R_num rs_num
  | R_str string
  | R_arr "rs_val list"
  | R_obj "(string \<times> rs_val) list"

type_synonym rs_map = "(string \<times> rs_val) list"

text \<open>The double nearest to an integer, ties to even.\<close>

fun excess_bits :: "nat \<Rightarrow> nat" where
  "excess_bits a = (if a < 2 ^ 53 then 0 else Suc (excess_bits (a div 2)))"

declare excess_bits.simps [simp del]

definition f64_of_nat :: "nat \<Rightarrow> nat" where
  "f64_of_nat a =
     (let e = excess_bits a; q = a div 2 ^ e; r = a mod 2 ^ e;
          up = e \<noteq> 0 \<and> (2 ^ e < 2 * r \<or> 2 ^ e = 2 * r \<and> odd q)
      in (if up then Suc q else q) * 2 ^ e)"

definition f64_of_int :: "int \<Rightarrow> int" where
  "f64_of_int i = sgn i * int (f64_of_nat (nat \<bar>i\<bar>))"

fun as_f64 :: "rs_num \<Rightarrow> rat" where
  "as_f64 (Rs_int i) = of_int (f64_of_int i)"
| "as_f64 (Rs_float r) = r"

fun as_u64 :: "rs_val \<Rightarrow> nat option" where
  "as_u64 (R_num (Rs_int i)) = (if 0 \<le> i then Some (nat i) else None)"
| "as_u64 _ = None"

fun is_integer :: "rs_num \<Rightarrow> bool" where
  "is_integer (Rs_int i) = True"
| "is_integer (Rs_float r) = (of_int \<lfloor>r\<rfloor> = r)"

definition type_name :: "rs_val \<Rightarrow> string" where
  "type_name v =
     (case v of R_null \<Rightarrow> ''null'' | R_bool _ \<Rightarrow> ''boolean''
      | R_num x \<Rightarrow> if is_integer x then ''integer'' else ''number''
      | R_str _ \<Rightarrow> ''string'' | R_arr _ \<Rightarrow> ''array'' | R_obj _ \<Rightarrow> ''object'')"

definition matches_one :: "rs_val \<Rightarrow> string \<Rightarrow> bool" where
  "matches_one v name =
     (if name = ''object'' then (case v of R_obj _ \<Rightarrow> True | _ \<Rightarrow> False)
      else if name = ''array'' then (case v of R_arr _ \<Rightarrow> True | _ \<Rightarrow> False)
      else if name = ''string'' then (case v of R_str _ \<Rightarrow> True | _ \<Rightarrow> False)
      else if name = ''boolean'' then (case v of R_bool _ \<Rightarrow> True | _ \<Rightarrow> False)
      else if name = ''null'' then v = R_null
      else if name = ''number'' then (case v of R_num _ \<Rightarrow> True | _ \<Rightarrow> False)
      else if name = ''integer'' then (case v of R_num x \<Rightarrow> is_integer x | _ \<Rightarrow> False)
      else False)"

definition type_matches :: "rs_val \<Rightarrow> rs_val \<Rightarrow> bool" where
  "type_matches expected v =
     (case expected of
        R_str name \<Rightarrow> matches_one v name
      | R_arr names \<Rightarrow> list_ex (\<lambda>x. case x of R_str name \<Rightarrow> matches_one v name | _ \<Rightarrow> False) names
      | _ \<Rightarrow> False)"

text \<open>What \<^verbatim>\<open>JSON.parse\<close> gives for the text of a value.\<close>

fun js_of :: "rs_val \<Rightarrow> jsval" where
  "js_of R_null = JNull"
| "js_of (R_bool b) = JBool b"
| "js_of (R_num x) = JNum (Fin (as_f64 x))"
| "js_of (R_str s) = JStr s"
| "js_of (R_arr xs) = JArr (map js_of xs)"
| "js_of (R_obj ps) = JObj (map (\<lambda>p. (fst p, js_of (snd p))) ps)"

abbreviation js_map :: "rs_map \<Rightarrow> props" where
  "js_map ps \<equiv> map (\<lambda>p. (fst p, js_of (snd p))) ps"

section \<open>The checks\<close>

datatype rs_message = Same violation_text | Bad_node | Not_loaded string

type_synonym rs_violation = "string \<times> rs_message"
type_synonym rs_checker = "rs_val \<Rightarrow> rs_val \<Rightarrow> string \<Rightarrow> rs_violation list"

definition rs_array :: "rs_map \<Rightarrow> string \<Rightarrow> rs_val list option" where
  "rs_array s k = (case map_of s k of Some (R_arr xs) \<Rightarrow> Some xs | _ \<Rightarrow> None)"

definition rs_object :: "rs_map \<Rightarrow> string \<Rightarrow> rs_map option" where
  "rs_object s k = (case map_of s k of Some (R_obj ps) \<Rightarrow> Some ps | _ \<Rightarrow> None)"

definition rs_number :: "rs_map \<Rightarrow> string \<Rightarrow> rat option" where
  "rs_number s k = (case map_of s k of Some (R_num x) \<Rightarrow> Some (as_f64 x) | _ \<Rightarrow> None)"

definition rs_length :: "rs_map \<Rightarrow> string \<Rightarrow> nat option" where
  "rs_length s k = Option.bind (map_of s k) as_u64"

definition resolve :: "rs_map \<Rightarrow> string \<Rightarrow> rs_val option" where
  "resolve defs reference = (if take 8 reference = ''#/$defs/'' then map_of defs (drop 8 reference) else None)"

definition rs_check_ref :: "rs_checker \<Rightarrow> rs_map \<Rightarrow> rs_map \<Rightarrow> rs_val \<Rightarrow> string \<Rightarrow> rs_violation list" where
  "rs_check_ref chk defs s value path =
     (case map_of s ''$ref'' of
        Some (R_str r) \<Rightarrow>
          (case resolve defs r of
             Some target \<Rightarrow> chk target value path
           | None \<Rightarrow> [(path, Same (Unresolvable (JStr r)))])
      | _ \<Rightarrow> [])"

definition rs_check_enum :: "rs_map \<Rightarrow> rs_val \<Rightarrow> string \<Rightarrow> rs_violation list" where
  "rs_check_enum s value path =
     (case rs_array s ''enum'' of
        Some allowed \<Rightarrow> if list_ex (\<lambda>c. c = value) allowed then [] else [(path, Same Not_enum)]
      | None \<Rightarrow> []) @
     (case map_of s ''const'' of
        Some c \<Rightarrow> if c \<noteq> value then [(path, Same Not_const)] else [] | None \<Rightarrow> [])"

definition rs_over :: "'a option \<Rightarrow> ('a \<Rightarrow> bool) \<Rightarrow> string \<Rightarrow> ('a \<Rightarrow> violation_text) \<Rightarrow> rs_violation list" where
  "rs_over b bad path txt = (case b of Some x \<Rightarrow> if bad x then [(path, Same (txt x))] else [] | None \<Rightarrow> [])"

definition rs_check_string :: "rs_map \<Rightarrow> rs_val \<Rightarrow> string \<Rightarrow> rs_violation list" where
  "rs_check_string s value path =
     (case value of
        R_str t \<Rightarrow>
          rs_over (rs_length s ''minLength'') (\<lambda>m. length t < m) path (\<lambda>m. Too_short (JNum (num (int m)))) @
          rs_over (rs_length s ''maxLength'') (\<lambda>m. m < length t) path (\<lambda>m. Too_long (JNum (num (int m))))
      | _ \<Rightarrow> [])"

definition rs_check_number :: "rs_map \<Rightarrow> rs_val \<Rightarrow> string \<Rightarrow> rs_violation list" where
  "rs_check_number s value path =
     (case value of
        R_num x \<Rightarrow>
          rs_over (rs_number s ''minimum'') (\<lambda>m. \<not> m \<le> as_f64 x) path (\<lambda>_. Below_minimum) @
          rs_over (rs_number s ''maximum'') (\<lambda>m. \<not> as_f64 x \<le> m) path (\<lambda>_. Above_maximum) @
          rs_over (rs_number s ''exclusiveMinimum'') (\<lambda>m. \<not> m < as_f64 x) path (\<lambda>_. Below_exclusive) @
          rs_over (rs_number s ''exclusiveMaximum'') (\<lambda>m. \<not> as_f64 x < m) path (\<lambda>_. Above_exclusive)
      | _ \<Rightarrow> [])"

definition rs_check_object :: "rs_checker \<Rightarrow> rs_map \<Rightarrow> rs_val \<Rightarrow> string \<Rightarrow> rs_violation list" where
  "rs_check_object chk s value path =
     (case value of
        R_obj ps \<Rightarrow>
          (let properties = (case rs_object s ''properties'' of Some subs \<Rightarrow> subs | None \<Rightarrow> []);
               declared = (\<lambda>name. map_of properties name \<noteq> None)
           in (case rs_array s ''required'' of
                 Some names \<Rightarrow> concat (map (\<lambda>x. case x of
                     R_str name \<Rightarrow> if map_of ps name = None then [(path, Same (Missing_property (JStr name)))] else []
                   | _ \<Rightarrow> []) names)
               | None \<Rightarrow> []) @
              concat (map (\<lambda>(name, sub). case map_of ps name of
                  Some child \<Rightarrow> chk sub child (prop_path path name) | None \<Rightarrow> []) properties) @
              (case map_of s ''additionalProperties'' of
                 None \<Rightarrow> []
               | Some additional \<Rightarrow>
                   if additional = R_bool False
                   then concat (map (\<lambda>(name, _). if declared name then []
                          else [(path, Same (Additional_property name))]) ps)
                   else if additional = R_bool True then []
                   else concat (map (\<lambda>(name, child). if declared name then []
                          else chk additional child (prop_path path name)) ps)))
      | _ \<Rightarrow> [])"

fun rs_first_repeat :: "rs_val list \<Rightarrow> rs_val list \<Rightarrow> nat \<Rightarrow> nat option" where
  "rs_first_repeat prior [] i = None"
| "rs_first_repeat prior (x # xs) i =
     (if list_ex (\<lambda>p. p = x) prior then Some i else rs_first_repeat (prior @ [x]) xs (Suc i))"

definition rs_check_array :: "rs_checker \<Rightarrow> rs_map \<Rightarrow> rs_val \<Rightarrow> string \<Rightarrow> rs_violation list" where
  "rs_check_array chk s value path =
     (case value of
        R_arr xs \<Rightarrow>
          (case map_of s ''items'' of
             Some sub \<Rightarrow> concat (map (\<lambda>(i, x). chk sub x (branch_path path i)) (enumerate 0 xs))
           | None \<Rightarrow> []) @
          rs_over (rs_length s ''minItems'') (\<lambda>m. length xs < m) path (\<lambda>m. Too_few_items (JNum (num (int m)))) @
          rs_over (rs_length s ''maxItems'') (\<lambda>m. m < length xs) path (\<lambda>m. Too_many_items (JNum (num (int m)))) @
          (if map_of s ''uniqueItems'' = Some (R_bool True)
           then (case rs_first_repeat [] xs 0 of Some i \<Rightarrow> [(branch_path path i, Same Not_unique)] | None \<Rightarrow> [])
           else [])
      | _ \<Rightarrow> [])"

definition rs_check_composition :: "rs_checker \<Rightarrow> rs_map \<Rightarrow> rs_val \<Rightarrow> string \<Rightarrow> rs_violation list" where
  "rs_check_composition chk s value path =
     (let passes = (\<lambda>sub. chk sub value path = []) in
      (case rs_array s ''anyOf'' of
         Some bs \<Rightarrow> if list_ex passes bs then [] else [(path, Same No_anyOf_branch)] | None \<Rightarrow> []) @
      (case rs_array s ''oneOf'' of
         Some bs \<Rightarrow> (let matches = length (filter passes bs) in
            if matches \<noteq> 1 then [(path, Same (OneOf_branches matches))] else []) | None \<Rightarrow> []) @
      (case rs_array s ''allOf'' of Some bs \<Rightarrow> concat (map (\<lambda>b. chk b value path) bs) | None \<Rightarrow> []) @
      (case map_of s ''not'' of
         Some negated \<Rightarrow> if passes negated then [(path, Same Matches_not)] else [] | None \<Rightarrow> []))"

text \<open>The first argument is what is left of the depth.\<close>

primrec rs_check :: "nat \<Rightarrow> rs_map \<Rightarrow> rs_checker" where
  "rs_check 0 defs = (\<lambda>schema value path. [(path, Same Depth_exceeded)])"
| "rs_check (Suc n) defs = (\<lambda>schema value path.
     (case schema of
        R_obj s \<Rightarrow>
          rs_check_ref (rs_check n defs) defs s value path @
          (case map_of s ''type'' of
             Some expected \<Rightarrow>
               if \<not> type_matches expected value
               then [(path, Same (Wrong_type (js_of expected) (type_name value)))]
               else rs_check_enum s value path @ rs_check_string s value path @ rs_check_number s value path @
                 rs_check_object (rs_check n defs) s value path @ rs_check_array (rs_check n defs) s value path @
                 rs_check_composition (rs_check n defs) s value path
           | None \<Rightarrow>
               rs_check_enum s value path @ rs_check_string s value path @ rs_check_number s value path @
                 rs_check_object (rs_check n defs) s value path @ rs_check_array (rs_check n defs) s value path @
                 rs_check_composition (rs_check n defs) s value path)
      | R_bool b \<Rightarrow> if b then [] else [(path, Same Forbidden)]
      | _ \<Rightarrow> [(path, Bad_node)]))"

section \<open>Loading\<close>

text \<open>A \<^verbatim>\<open>SchemaError\<close>; the text for an unknown keyword is cut before its explanation.\<close>

definition schema_error :: "string \<Rightarrow> string + unit" where
  "schema_error why = Inl why"

function rs_check_supported :: "rs_val \<Rightarrow> string \<Rightarrow> string + unit"
  and rs_check_entries :: "rs_map \<Rightarrow> string \<Rightarrow> string + unit"
  and rs_check_subs :: "rs_map \<Rightarrow> string \<Rightarrow> string + unit"
  and rs_check_branches :: "rs_val list \<Rightarrow> string \<Rightarrow> nat \<Rightarrow> string + unit" where
  "rs_check_supported node path =
     (case node of
        R_bool b \<Rightarrow> Inr ()
      | R_obj entries \<Rightarrow> rs_check_entries entries path
      | _ \<Rightarrow> schema_error (''schema node at '' @ path @ '' must be an object or boolean''))"
| "rs_check_entries [] path = Inr ()"
| "rs_check_entries ((key, child) # rest) path =
     (case (if key = ''properties'' \<or> key = ''$defs'' then
              (case child of
                 R_obj subs \<Rightarrow> rs_check_subs subs (child_path path key)
               | _ \<Rightarrow> schema_error (child_path path key @ '' must be an object of schemas''))
            else if key = ''items'' \<or> key = ''additionalProperties'' \<or> key = ''not''
            then rs_check_supported child (child_path path key)
            else if key = ''anyOf'' \<or> key = ''oneOf'' \<or> key = ''allOf'' then
              (case child of
                 R_arr branches \<Rightarrow> rs_check_branches branches (child_path path key) 0
               | _ \<Rightarrow> schema_error (child_path path key @ '' must be an array of schemas''))
            else if key \<in> set ENFORCED \<or> key \<in> set METADATA then Inr ()
            else schema_error (''unsupported keyword '' @ key @ '' at '' @ path)) of
        Inl e \<Rightarrow> Inl e
      | Inr _ \<Rightarrow> rs_check_entries rest path)"
| "rs_check_subs [] path = Inr ()"
| "rs_check_subs ((name, sub) # rest) path =
     (case rs_check_supported sub (child_path path name) of
        Inl e \<Rightarrow> Inl e | Inr _ \<Rightarrow> rs_check_subs rest path)"
| "rs_check_branches [] path i = Inr ()"
| "rs_check_branches (b # bs) path i =
     (case rs_check_supported b (branch_path path i) of
        Inl e \<Rightarrow> Inl e | Inr _ \<Rightarrow> rs_check_branches bs path (Suc i))"
  by pat_completeness auto
termination
  by (relation "measure (case_sum (case_sum (\<lambda>(a, _). size a) (\<lambda>(ps, _). size_list (size_prod (\<lambda>_. 0) size) ps))
        (case_sum (\<lambda>(ps, _). size_list (size_prod (\<lambda>_. 0) size) ps) (\<lambda>(bs, _). size_list size bs)))") auto

declare rs_check_supported.simps [simp del]

text \<open>\<open>from_json\<close>; \<open>parsed\<close> is the answer of serde_json.\<close>

definition from_json :: "(string + rs_val) \<Rightarrow> string + rs_val" where
  "from_json parsed =
     (case parsed of
        Inl e \<Rightarrow> Inl (''not JSON: '' @ e)
      | Inr (R_obj ps) \<Rightarrow>
          (case rs_check_supported (R_obj ps) ''#'' of Inl e \<Rightarrow> Inl e | Inr _ \<Rightarrow> Inr (R_obj ps))
      | Inr _ \<Rightarrow> Inl ''schema root must be an object'')"

definition rs_defs :: "rs_val \<Rightarrow> rs_map option" where
  "rs_defs document = (case document of R_obj ps \<Rightarrow> rs_object ps ''$defs'' | _ \<Rightarrow> None)"

definition rs_validate :: "rs_val \<Rightarrow> string \<Rightarrow> rs_val \<Rightarrow> rs_violation list + unit" where
  "rs_validate document definition_name value =
     (case Option.bind (rs_defs document) (\<lambda>defs. map_of defs definition_name) of
        None \<Rightarrow> Inl [(''$'', Same (Unknown_definition definition_name))]
      | Some schema \<Rightarrow>
          (let violations = rs_check (SCHEMA_MAX_DEPTH + 1) (the (rs_defs document)) schema value ''$''
           in if violations = [] then Inr () else Inl violations))"

end
