(* ===== verification/Rust_Values.thy ===== *)
theory Rust_Values
  imports Rust_Schema
begin

text \<open>
  The values of serde_json and those of JavaScript: which numbers both write alike, equality on
  them, and that the two validators load the same documents.
\<close>

section \<open>Numbers and equality\<close>

lemma f64_exact: "\<bar>i\<bar> \<le> 2 ^ 53 \<Longrightarrow> f64_of_int i = i"
proof -
  assume i: "\<bar>i\<bar> \<le> 2 ^ 53"
  have "f64_of_nat a = a" if "a \<le> 2 ^ 53" for a
  proof (cases "a = 2 ^ 53")
    case True
    moreover have "excess_bits 9007199254740992 = 1"
      by (simp add: excess_bits.simps [of 9007199254740992] excess_bits.simps [of 4503599627370496])
    ultimately show ?thesis
      by (simp add: f64_of_nat_def Let_def)
  next
    case False
    then have "excess_bits a = 0"
      using that by (simp add: excess_bits.simps [of a])
    then show ?thesis
      by (simp add: f64_of_nat_def Let_def)
  qed
  from this [of "nat \<bar>i\<bar>"] show ?thesis
    using i by (simp add: f64_of_int_def sgn_mult_abs nat_le_iff)
qed

text \<open>
  Numbers both runtimes write alike: an integer that is exact as a double is written without
  a fraction, and no other integer occurs.
\<close>

fun canon_num :: "rs_num \<Rightarrow> bool" where
  "canon_num (Rs_int i) = (\<bar>i\<bar> \<le> 2 ^ 53)"
| "canon_num (Rs_float r) = (\<not> (of_int \<lfloor>r\<rfloor> = r \<and> \<bar>r\<bar> \<le> 2 ^ 53))"

fun canon :: "rs_val \<Rightarrow> bool" where
  "canon (R_num x) = canon_num x"
| "canon (R_arr xs) = list_all canon xs"
| "canon (R_obj ps) = (sorted_wrt (<) (map fst ps) \<and> list_all (\<lambda>p. canon (snd p)) ps)"
| "canon _ = True"

lemma as_f64_inj: "canon_num x \<Longrightarrow> canon_num y \<Longrightarrow> as_f64 x = as_f64 y \<longleftrightarrow> x = y"
  by (cases x; cases y) (auto simp: f64_exact)

lemma is_integer_f64: "num_int (Fin (as_f64 x)) \<noteq> None \<longleftrightarrow> is_integer x"
  by (cases x) auto

lemma js_of_not [simp]: "js_of v \<noteq> JUndef" "js_of v = JNull \<longleftrightarrow> v = R_null" "js_of v = JBool b \<longleftrightarrow> v = R_bool b"
  "js_of v = JStr s \<longleftrightarrow> v = R_str s"
  by (cases v; simp)+

lemma map_of_js: "map_of (js_map ps) k = map_option js_of (map_of ps k)"
  by (induction ps) auto

lemma equal_elems_js:
  assumes "\<And>x y. x \<in> set xs \<Longrightarrow> y \<in> set ys \<Longrightarrow> deepEqual (js_of x) (js_of y) \<longleftrightarrow> x = y" "length xs = length ys"
  shows "equal_elems (map js_of xs) (map js_of ys) \<longleftrightarrow> xs = ys"
  using assms(2,1) by (induction xs ys rule: list_induct2) auto

lemma equal_props_iff:
  "equal_props ps qs \<longleftrightarrow> (\<forall>(k, v) \<in> set ps. has_own qs k \<and> deepEqual v (js_get qs k))"
  by (induction ps) auto

lemma has_own_js: "has_own (js_map qs) k \<longleftrightarrow> map_of qs k \<noteq> None"
  by (simp add: has_own_def image_image map_of_eq_None_iff)

lemma equal_props_js:
  assumes "\<And>p q. p \<in> set ps \<Longrightarrow> q \<in> set qs \<Longrightarrow> deepEqual (js_of (snd p)) (js_of (snd q)) \<longleftrightarrow> snd p = snd q"
    and "length ps = length qs" "sorted_wrt (<) (map fst ps)" "sorted_wrt (<) (map fst qs)"
  shows "equal_props (js_map ps) (js_map qs) \<longleftrightarrow> ps = qs"
proof
  have d: "distinct (map fst ps)" "distinct (map fst qs)"
    using assms(3,4) strict_sorted_iff by blast+
  have val_eq: "deepEqual (js_of v) (js_get (js_map qs) k) \<longleftrightarrow> map_of qs k = Some v"
    if kv: "(k, v) \<in> set ps" and k: "k \<in> fst ` set qs" for k v
  proof -
    obtain w where w: "map_of qs k = Some w"
      using k by (metis map_of_eq_None_iff not_None_eq)
    then have "(k, w) \<in> set qs"
      by (rule map_of_SomeD)
    then show ?thesis
      using assms(1) [OF kv, of "(k, w)"] w by (auto simp: js_get_def map_of_js)
  qed
  assume eq: "equal_props (js_map ps) (js_map qs)"
  have all: "k \<in> fst ` set qs \<and> deepEqual (js_of v) (js_get (js_map qs) k)" if "(k, v) \<in> set ps" for k v
  proof -
    have "(k, js_of v) \<in> set (js_map ps)"
      using that by force
    then show ?thesis
      using eq by (auto simp: equal_props_iff has_own_js map_of_eq_None_iff)
  qed
  then have sub: "set ps \<subseteq> set qs"
    using val_eq map_of_SomeD by fast
  have "card (set ps) = card (set qs)"
    using assms(2) d by (simp add: distinct_card distinct_map)
  then have "set ps = set qs"
    using sub by (simp add: card_subset_eq)
  moreover from this have "inj_on fst (set ps \<union> set qs)"
    using d(2) by (simp add: distinct_map)
  moreover have "sorted (map fst ps)" "sorted (map fst qs)"
    using assms(3,4) strict_sorted_iff by blast+
  ultimately show "ps = qs"
    using d by (intro map_sorted_distinct_set_unique [of fst ps qs])
next
  assume "ps = qs"
  moreover have "has_own (js_map qs) k \<and> deepEqual (js_of v) (js_get (js_map qs) k)" if "(k, v) \<in> set qs" for k v
  proof -
    have "map_of qs k = Some v"
      using that assms(4) strict_sorted_iff by (metis map_of_is_SomeI)
    moreover have "deepEqual (js_of v) (js_of v)"
      using assms(1) [of "(k, v)" "(k, v)"] that \<open>ps = qs\<close> by simp
    ultimately show ?thesis
      by (simp add: has_own_js js_get_def map_of_js)
  qed
  ultimately show "equal_props (js_map ps) (js_map qs)"
    by (auto simp: equal_props_iff)
qed

lemma deepEqual_js: "canon a \<Longrightarrow> canon b \<Longrightarrow> deepEqual (js_of a) (js_of b) \<longleftrightarrow> a = b"
proof (induction a arbitrary: b)
  case (R_num x)
  then show ?case
    using as_f64_inj by (cases b) (auto simp: deepEqual.simps [of "JNum _"])
next
  case (R_arr xs)
  show ?case
  proof (cases b)
    case (R_arr ys)
    then show ?thesis
      using R_arr.IH R_arr.prems equal_elems_js [of xs ys]
      by (auto simp: deepEqual.simps [of "JArr _"] list_all_iff)
  qed (auto simp: deepEqual.simps [of "JArr _"])
next
  case (R_obj ps)
  show ?case
  proof (cases b)
    case (R_obj qs)
    have "deepEqual (js_of (snd p)) (js_of (snd q)) \<longleftrightarrow> snd p = snd q" if "p \<in> set ps" "q \<in> set qs" for p q
      using R_obj.IH [OF that(1), of "snd p" "snd q"] that R_obj.prems \<open>b = R_obj qs\<close>
      by (auto simp: list_all_iff snds.simps)
    then show ?thesis
      using R_obj R_obj.prems equal_props_js [of ps qs]
      by (auto simp: deepEqual.simps [of "JObj _"])
  qed (auto simp: deepEqual.simps [of "JObj _"])
next
  case R_null
  then show ?case by (cases b) (auto simp: deepEqual.simps [of JNull])
next
  case (R_bool x)
  then show ?case by (cases b) (auto simp: deepEqual.simps [of "JBool _"])
next
  case (R_str x)
  then show ?case by (cases b) (auto simp: deepEqual.simps [of "JStr _"])
qed

section \<open>Loading\<close>

definition rs_entry :: "string \<Rightarrow> rs_val \<Rightarrow> string \<Rightarrow> string + unit" where
  "rs_entry key child path =
     (if key = ''properties'' \<or> key = ''$defs'' then
        (case child of
           R_obj subs \<Rightarrow> rs_check_subs subs (child_path path key)
         | _ \<Rightarrow> schema_error (child_path path key @ '' must be an object of schemas''))
      else if key = ''items'' \<or> key = ''additionalProperties'' \<or> key = ''not''
      then rs_check_supported child (child_path path key)
      else if key = ''anyOf'' \<or> key = ''oneOf'' \<or> key = ''allOf'' then
        (case child of
           R_arr branches \<Rightarrow> rs_check_branches branches (child_path path key) 0
         | _ \<Rightarrow> schema_error (child_path path key @ '' must be an array of schemas''))
      else if key \<in> set ENFORCED \<or> key \<in> set METADATA then Inr ()
      else schema_error (''unsupported keyword '' @ key @ '' at '' @ path))"

definition js_entry :: "string \<Rightarrow> jsval \<Rightarrow> string \<Rightarrow> unit res" where
  "js_entry key child path =
     (if key = ''properties'' \<or> key = ''$defs'' then
        (case obj_props child of
           None \<Rightarrow> Inl (TypeErr (child_path path key @ '' must be an object of schemas''))
         | Some subs \<Rightarrow> check_subs subs (child_path path key))
      else if key = ''items'' \<or> key = ''additionalProperties'' \<or> key = ''not''
      then checkSupported child (child_path path key)
      else if key = ''anyOf'' \<or> key = ''oneOf'' \<or> key = ''allOf'' then
        (case child of
           JArr branches \<Rightarrow> check_branches branches (child_path path key) 0
         | _ \<Rightarrow> Inl (TypeErr (child_path path key @ '' must be an array of schemas'')))
      else if key \<notin> set ENFORCED \<and> key \<notin> set METADATA
      then Inl (TypeErrAt (''unsupported keyword at '' @ path @ '': '') (JStr key))
      else Inr ())"

lemma load_step_ok: "(case r of Inl e \<Rightarrow> Inl e | Inr (_ :: unit) \<Rightarrow> s) = Inr () \<longleftrightarrow> r = Inr () \<and> s = Inr ()"
  by (cases r) auto

lemma rs_check_entries_Cons:
  "rs_check_entries ((key, child) # rest) path = Inr () \<longleftrightarrow>
     rs_entry key child path = Inr () \<and> rs_check_entries rest path = Inr ()"
  unfolding rs_check_entries.simps(2) rs_entry_def by (rule load_step_ok)

lemma check_entries_entry:
  "check_entries ((key, child) # rest) path = Inr () \<longleftrightarrow>
     js_entry key child path = Inr () \<and> check_entries rest path = Inr ()"
  unfolding check_entries.simps(2) js_entry_def by (rule load_step_ok)

lemma loads_alike:
  "rs_check_supported node path = Inr () \<longleftrightarrow> checkSupported (js_of node) path = Inr ()"
  "rs_check_entries entries path = Inr () \<longleftrightarrow> check_entries (js_map entries) path = Inr ()"
  "rs_check_subs subs path = Inr () \<longleftrightarrow> check_subs (js_map subs) path = Inr ()"
  "rs_check_branches bs path i = Inr () \<longleftrightarrow> check_branches (map js_of bs) path i = Inr ()"
proof (induction node path and entries path and subs path and bs path i
    rule: rs_check_supported_rs_check_entries_rs_check_subs_rs_check_branches.induct)
  case (1 node path)
  then show ?case
    by (cases node) (simp_all add: rs_check_supported.simps checkSupported.simps schema_error_def)
next
  case (3 key child rest path)
  have rest: "rs_check_entries rest path = Inr () \<longleftrightarrow> check_entries (js_map rest) path = Inr ()"
    if "rs_entry key child path = Inr ()"
    using "3.IH"(4) that unfolding rs_entry_def by blast
  have "rs_entry key child path = Inr () \<longleftrightarrow> js_entry key (js_of child) path = Inr ()"
  proof -
    consider "key = ''properties'' \<or> key = ''$defs''"
      | "\<not> (key = ''properties'' \<or> key = ''$defs'')" "key = ''items'' \<or> key = ''additionalProperties'' \<or> key = ''not''"
      | "\<not> (key = ''properties'' \<or> key = ''$defs'')" "\<not> (key = ''items'' \<or> key = ''additionalProperties'' \<or> key = ''not'')"
        "key = ''anyOf'' \<or> key = ''oneOf'' \<or> key = ''allOf''"
      | "\<not> (key = ''properties'' \<or> key = ''$defs'')" "\<not> (key = ''items'' \<or> key = ''additionalProperties'' \<or> key = ''not'')"
        "\<not> (key = ''anyOf'' \<or> key = ''oneOf'' \<or> key = ''allOf'')"
      by argo
    then show ?thesis
    proof cases
      case 1
      then show ?thesis
        using "3.IH"(1) by (cases child) (simp_all only: rs_entry_def js_entry_def simp_thms if_True rs_val.case js_of.simps obj_props.simps
            option.case schema_error_def sum.distinct)
    next
      case 2
      then show ?thesis
        using "3.IH"(2) by (simp only: rs_entry_def js_entry_def if_True if_False simp_thms)
    next
      case 3
      then show ?thesis
        using "3.IH"(3) by (cases child) (simp_all only: rs_entry_def js_entry_def simp_thms if_True if_False rs_val.case js_of.simps
            jsval.case schema_error_def sum.distinct)
    next
      case 4
      then show ?thesis
        by (simp only: rs_entry_def js_entry_def if_False) (auto simp: schema_error_def)
    qed
  qed
  then show ?case
    using rest unfolding rs_check_entries_Cons list.map fst_conv snd_conv check_entries_entry by blast
next
  case (5 name sub rest path)
  then show ?case
    by (auto split: sum.splits)
next
  case (7 b bs path i)
  then show ?case
    by (auto split: sum.splits)
qed simp_all

end
