(* ===== verification/Rust_Agreement.thy ===== *)
theory Rust_Agreement
  imports Rust_Values
begin

text \<open>
  The checks of the two validators, one group of keywords after the other: on schemas both read
  alike and values both write alike the Rust checks are clean exactly where the reference
  semantics of the JavaScript validator holds, and the JavaScript validator does not throw.
\<close>

section \<open>Schemas both runtimes read alike\<close>

definition some_or :: "bool \<Rightarrow> ('a \<Rightarrow> bool) \<Rightarrow> 'a option \<Rightarrow> bool" where
  "some_or d P x = (case x of None \<Rightarrow> d | Some v \<Rightarrow> P v)"

fun length_bound :: "rs_val \<Rightarrow> bool" where
  "length_bound (R_num (Rs_int i)) = (0 \<le> i \<and> i \<le> 2 ^ 53)"
| "length_bound _ = False"

fun is_num :: "rs_val \<Rightarrow> bool" where
  "is_num (R_num _) = True"
| "is_num _ = False"

fun is_name :: "rs_val \<Rightarrow> bool" where
  "is_name (R_str _) = True"
| "is_name _ = False"

text \<open>
  The values of the keywords of one node: bounds of lengths are natural numbers, other bounds
  numbers, \<open>required\<close> lists names, constants are written alike, and no reference has a name
  every JavaScript object inherits.
\<close>

definition portable_keys :: "rs_map \<Rightarrow> bool" where
  "portable_keys s \<longleftrightarrow>
     list_all (\<lambda>k. some_or True length_bound (map_of s k)) [''minLength'', ''maxLength'', ''minItems'', ''maxItems''] \<and>
     list_all (\<lambda>k. some_or True is_num (map_of s k)) [''minimum'', ''maximum'', ''exclusiveMinimum'', ''exclusiveMaximum''] \<and>
     some_or True (\<lambda>v. case v of R_arr xs \<Rightarrow> list_all is_name xs | _ \<Rightarrow> False) (map_of s ''required'') \<and>
     some_or True (\<lambda>v. case v of R_arr cs \<Rightarrow> list_all canon cs | _ \<Rightarrow> True) (map_of s ''enum'') \<and>
     some_or True canon (map_of s ''const'') \<and>
     some_or True (\<lambda>v. case v of R_str r \<Rightarrow> drop 8 r \<notin> set INHERITED \<and> drop 8 r \<noteq> ''__proto__'' | _ \<Rightarrow> True) (map_of s ''$ref'')"

definition list_of :: "'a option \<Rightarrow> 'a list" where
  "list_of x = (case x of None \<Rightarrow> [] | Some v \<Rightarrow> [v])"

definition sub_schemas :: "rs_map \<Rightarrow> rs_map \<Rightarrow> rs_val list" where
  "sub_schemas defs s =
     map snd (concat (list_of (rs_object s ''properties''))) @
     list_of (map_of s ''items'') @ list_of (map_of s ''additionalProperties'') @ list_of (map_of s ''not'') @
     concat (list_of (rs_array s ''anyOf'')) @ concat (list_of (rs_array s ''oneOf'')) @ concat (list_of (rs_array s ''allOf'')) @
     (case map_of s ''$ref'' of Some (R_str r) \<Rightarrow> list_of (resolve defs r) | _ \<Rightarrow> [])"

primrec portable :: "nat \<Rightarrow> rs_map \<Rightarrow> rs_val \<Rightarrow> bool" where
  "portable 0 defs s = True"
| "portable (Suc n) defs s =
     (case s of
        R_bool _ \<Rightarrow> True
      | R_obj o' \<Rightarrow> portable_keys o' \<and> list_all (portable n defs) (sub_schemas defs o')
      | _ \<Rightarrow> False)"

section \<open>The checks same_verdict\<close>

lemma get_js [simp]: "js_get (js_map s) k = (case map_of s k of Some x \<Rightarrow> js_of x | None \<Rightarrow> JUndef)"
  by (simp add: js_get_def map_of_js split: option.split)

lemma fld_js: "fld (JObj (js_map s)) k = (case map_of s k of Some x \<Rightarrow> js_of x | None \<Rightarrow> JUndef)"
  by simp

lemma fld_js_undef: "fld (JObj (js_map s)) k = JUndef \<longleftrightarrow> map_of s k = None"
  by (simp add: fld_js split: option.split)

lemma js_of_arr: "js_of v = JArr xs \<longleftrightarrow> (\<exists>ys. v = R_arr ys \<and> xs = map js_of ys)"
  by (cases v) auto

lemma js_of_num: "js_of v = JNum x \<longleftrightarrow> (\<exists>y. v = R_num y \<and> x = Fin (as_f64 y))"
  by (cases v) auto

lemma obj_props_js: "obj_props (js_of v) = (case v of R_obj ps \<Rightarrow> Some (js_map ps) | _ \<Rightarrow> None)"
  by (cases v) auto

lemma matches_js: "matchesType (JStr name) (js_of v) \<longleftrightarrow> matches_one v name"
  using is_integer_f64
  by (cases v) (auto simp: matchesType_def matches_one_def isPlainValue_def simp del: matches num_int.simps)

lemma matches_other: "\<forall>name. t \<noteq> R_str name \<Longrightarrow> \<not> matchesType (js_of t) v"
  by (cases t) (auto simp: matchesType_def)

lemma type_js: "type_mismatch (JObj (js_map s)) (js_of v) \<longleftrightarrow> \<not> some_or True (\<lambda>t. type_matches t v) (map_of s ''type'')"
proof (cases "map_of s ''type''")
  case None
  then show ?thesis
    by (simp add: type_mismatch_def fld_js some_or_def)
next
  case (Some t)
  have "list_ex (\<lambda>n. matchesType n (js_of v)) (type_names (js_of t)) \<longleftrightarrow> type_matches t v"
  proof (cases t)
    case (R_arr xs)
    have "matchesType (js_of x) (js_of v) \<longleftrightarrow> (case x of R_str name \<Rightarrow> matches_one v name | _ \<Rightarrow> False)" for x
      using matches_other [of x "js_of v"] by (cases x) (simp_all add: matches_js del: matches)
    then show ?thesis
      using R_arr by (simp add: type_names_def type_matches_def list_ex_iff)
  qed (use matches_other [of t "js_of v"] in \<open>simp_all add: type_names_def type_matches_def matches_js del: matches\<close>)
  then show ?thesis
    using Some by (simp add: type_mismatch_def fld_js some_or_def)
qed

lemma rs_over_Nil [simp]: "rs_over b bad path txt = [] \<longleftrightarrow> (\<forall>x. b = Some x \<longrightarrow> \<not> bad x)"
  by (simp add: rs_over_def split: option.split)

lemma length_bound_js:
  assumes "conv_ok cv" "some_or True length_bound (map_of s k)"
  shows "bound_ok cv (JObj (js_map s)) k (\<lambda>b. \<not> js_lt (num (int m)) b) \<longleftrightarrow> (\<forall>x. rs_length s k = Some x \<longrightarrow> \<not> m < x)"
    "bound_ok cv (JObj (js_map s)) k (\<lambda>b. \<not> js_lt b (num (int m))) \<longleftrightarrow> (\<forall>x. rs_length s k = Some x \<longrightarrow> \<not> x < m)"
proof -
  consider "map_of s k = None" | i where "map_of s k = Some (R_num (Rs_int i))" "0 \<le> i" "i \<le> 2 ^ 53"
    using assms(2) by (auto simp: some_or_def split: option.splits elim!: length_bound.elims)
  note c = this
  show "bound_ok cv (JObj (js_map s)) k (\<lambda>b. \<not> js_lt (num (int m)) b) \<longleftrightarrow> (\<forall>x. rs_length s k = Some x \<longrightarrow> \<not> m < x)"
    using c by cases (use assms(1) f64_exact in \<open>auto simp: bound_ok_def fld_js rs_length_def num_def\<close>)
  show "bound_ok cv (JObj (js_map s)) k (\<lambda>b. \<not> js_lt b (num (int m))) \<longleftrightarrow> (\<forall>x. rs_length s k = Some x \<longrightarrow> \<not> x < m)"
    using c by cases (use assms(1) f64_exact in \<open>auto simp: bound_ok_def fld_js rs_length_def num_def\<close>)
qed

lemma number_bound_js:
  assumes "conv_ok cv" "some_or True is_num (map_of s k)"
  shows "bound_ok cv (JObj (js_map s)) k P \<longleftrightarrow> (\<forall>x. rs_number s k = Some x \<longrightarrow> P (Fin x))"
  using assms by (auto simp: bound_ok_def fld_js rs_number_def some_or_def split: option.splits elim!: is_num.elims)


lemma enum_js:
  assumes "portable_keys s" "canon v"
  shows "rs_check_enum s v path = [] \<longleftrightarrow>
     (\<forall>cs. fld (JObj (js_map s)) ''enum'' = JArr cs \<longrightarrow> (\<exists>c \<in> set cs. deepEqual c (js_of v))) \<and>
     (fld (JObj (js_map s)) ''const'' = JUndef \<or> deepEqual (fld (JObj (js_map s)) ''const'') (js_of v))"
proof -
  have e: "deepEqual (js_of c) (js_of v) \<longleftrightarrow> c = v" if "map_of s ''enum'' = Some (R_arr cs)" "c \<in> set cs" for c cs
    using assms that by (intro deepEqual_js) (auto simp: portable_keys_def some_or_def list_all_iff)
  have c: "deepEqual (js_of c) (js_of v) \<longleftrightarrow> c = v" if "map_of s ''const'' = Some c" for c
    using assms that by (intro deepEqual_js) (auto simp: portable_keys_def some_or_def)
  have "(case rs_array s ''enum'' of
        Some allowed \<Rightarrow> if list_ex (\<lambda>c. c = v) allowed then [] else [(path, Same Not_enum)]
      | None \<Rightarrow> []) = [] \<longleftrightarrow>
     (\<forall>cs. fld (JObj (js_map s)) ''enum'' = JArr cs \<longrightarrow> (\<exists>c \<in> set cs. deepEqual c (js_of v)))"
    using e by (auto simp: rs_array_def list_ex_iff js_of_arr split: option.splits rs_val.splits)
  moreover have "(case map_of s ''const'' of
        Some c \<Rightarrow> if c \<noteq> v then [(path, Same Not_const)] else [] | None \<Rightarrow> []) = [] \<longleftrightarrow>
     (fld (JObj (js_map s)) ''const'' = JUndef \<or> deepEqual (fld (JObj (js_map s)) ''const'') (js_of v))"
    using c by (auto split: option.splits)
  ultimately show ?thesis
    unfolding rs_check_enum_def by simp
qed

lemma string_js:
  assumes "conv_ok cv" "portable_keys s"
  shows "rs_check_string s v path = [] \<longleftrightarrow>
     (\<forall>t. js_of v = JStr t \<longrightarrow>
        bound_ok cv (JObj (js_map s)) ''minLength'' (\<lambda>b. \<not> js_lt (num (int (length t))) b) \<and>
        bound_ok cv (JObj (js_map s)) ''maxLength'' (\<lambda>b. \<not> js_lt b (num (int (length t)))))"
  using assms(2) length_bound_js [OF assms(1), of s]
  by (cases v) (auto simp: rs_check_string_def portable_keys_def)

lemma number_js:
  assumes "conv_ok cv" "portable_keys s"
  shows "rs_check_number s v path = [] \<longleftrightarrow>
     (\<forall>r. js_of v = JNum (Fin r) \<longrightarrow>
        bound_ok cv (JObj (js_map s)) ''minimum'' (\<lambda>b. js_le b (Fin r)) \<and>
        bound_ok cv (JObj (js_map s)) ''maximum'' (\<lambda>b. js_le (Fin r) b) \<and>
        bound_ok cv (JObj (js_map s)) ''exclusiveMinimum'' (\<lambda>b. js_lt b (Fin r)) \<and>
        bound_ok cv (JObj (js_map s)) ''exclusiveMaximum'' (\<lambda>b. js_lt (Fin r) b))"
  using assms(2) number_bound_js [OF assms(1), of s]
  by (cases v) (auto simp: rs_check_number_def portable_keys_def js_le_def)

lemma leaf_js:
  assumes "conv_ok cv" "portable_keys s" "canon v"
  shows "some_or True (\<lambda>t. type_matches t v) (map_of s ''type'') \<and> rs_check_enum s v path = [] \<and>
     rs_check_string s v path = [] \<and> rs_check_number s v path = [] \<longleftrightarrow> sat_value cv (JObj (js_map s)) (js_of v)"
  unfolding sat_value_def type_js enum_js [OF assms(2,3)] string_js [OF assms(1,2)] number_js [OF assms(1,2)]
  by blast

text \<open>A checker and a predicate agree on the subschemas of a node.\<close>

definition same_verdict :: "rs_val list \<Rightarrow> rs_checker \<Rightarrow> (jsval \<Rightarrow> jsval \<Rightarrow> bool) \<Rightarrow> bool" where
  "same_verdict subs chk ok \<longleftrightarrow> (\<forall>s \<in> set subs. \<forall>v path. canon v \<longrightarrow> (chk s v path = [] \<longleftrightarrow> ok (js_of s) (js_of v)))"

lemma same_verdictD: "same_verdict subs chk ok \<Longrightarrow> s \<in> set subs \<Longrightarrow> canon v \<Longrightarrow> chk s v path = [] \<longleftrightarrow> ok (js_of s) (js_of v)"
  by (simp add: same_verdict_def)

lemma def_get_js:
  assumes "portable_keys s" "map_of s ''$ref'' = Some (R_str r)"
  shows "def_get (js_map defs) (drop 8 r) = (case map_of defs (drop 8 r) of Some t \<Rightarrow> js_of t | None \<Rightarrow> JUndef)"
  using assms by (auto simp: def_get_def has_own_js portable_keys_def some_or_def split: option.split)

lemma ref_js:
  assumes "same_verdict (sub_schemas defs s) chk ok" "portable_keys s" "canon v"
  shows "rs_check_ref chk defs s v path = [] \<longleftrightarrow> sat_ref ok (js_map defs) (JObj (js_map s)) (js_of v)"
proof (cases "\<exists>r. map_of s ''$ref'' = Some (R_str r)")
  case True
  then obtain r where r: "map_of s ''$ref'' = Some (R_str r)"
    by blast
  have "chk t v path = [] \<longleftrightarrow> ok (js_of t) (js_of v)" if "resolve defs r = Some t" for t
    using that r by (intro same_verdictD [OF assms(1) _ assms(3)]) (simp add: sub_schemas_def list_of_def)
  then show ?thesis
    using r by (auto simp: rs_check_ref_def sat_ref_def def_get_js [OF assms(2) r] resolve_def split: option.splits)
next
  case False
  then show ?thesis
    by (auto simp: rs_check_ref_def sat_ref_def split: option.splits rs_val.splits)
qed


lemma canon_arr: "canon (R_arr xs) \<Longrightarrow> x \<in> set xs \<Longrightarrow> canon x"
  by (simp add: list_all_iff)

lemma canon_child: "canon (R_obj ps) \<Longrightarrow> (k, v) \<in> set ps \<Longrightarrow> canon v"
  by (auto simp: list_all_iff)

lemma named_js: "named_props (JObj (js_map s)) = js_map (concat (list_of (rs_object s ''properties'')))"
  by (auto simp: named_props_def rs_object_def list_of_def obj_props_js split: option.split rs_val.split)

lemma names_only: "list_all is_name xs \<Longrightarrow> \<exists>names. xs = map R_str names"
proof (induction xs)
  case (Cons x xs)
  then obtain n names where "x = R_str n" "xs = map R_str names"
    by (cases x) auto
  then show ?case
    by (intro exI [of _ "n # names"]) simp
qed simp

lemma required_js:
  assumes "conv_ok cv" "portable_keys s"
  shows "(\<exists>names. rows_of (fld (JObj (js_map s)) ''required'') = Inr (map JStr names) \<and>
      rs_array s ''required'' = (if map_of s ''required'' = None then None else Some (map R_str names)))"
proof (cases "map_of s ''required''")
  case None
  then show ?thesis
    by (auto simp: rs_array_def intro!: exI [of _ "[]"])
next
  case (Some r)
  then obtain xs where xs: "r = R_arr xs" "list_all is_name xs"
    using assms(2) by (auto simp: portable_keys_def some_or_def split: rs_val.splits)
  moreover from this obtain names where "xs = map R_str names"
    using names_only by blast
  ultimately show ?thesis
    using Some by (intro exI [of _ names]) (simp add: rs_array_def)
qed

lemma object_js:
  assumes a: "same_verdict (sub_schemas defs s) chk ok" and k: "conv_ok cv" "portable_keys s"
    and f: "ok (JBool False) = (\<lambda>_. False)" and c: "canon v"
  shows "rs_check_object chk s v path = [] \<longleftrightarrow>
    (\<forall>ps. obj_props (js_of v) = Some ps \<longrightarrow> sat_object cv ok (JObj (js_map s)) ps)"
proof (cases v)
  case (R_obj ps)
  define named where "named = concat (list_of (rs_object s ''properties''))"
  have named: "(case rs_object s ''properties'' of Some subs \<Rightarrow> subs | None \<Rightarrow> []) = named"
    by (simp add: named_def list_of_def split: option.split)
  obtain names where names: "rows_of (fld (JObj (js_map s)) ''required'') = Inr (map JStr names)"
      "rs_array s ''required'' = (if map_of s ''required'' = None then None else Some (map R_str names))"
    using required_js [OF k] by blast
  have none: "map_of s ''required'' = None \<Longrightarrow> names = []"
    using names(1) by simp
  have req: "(case rs_array s ''required'' of
       Some ns \<Rightarrow> concat (map (\<lambda>x. case x of
           R_str name \<Rightarrow> if map_of ps name = None then [(path, Same (Missing_property (JStr name)))] else []
         | _ \<Rightarrow> []) ns)
     | None \<Rightarrow> []) = [] \<longleftrightarrow> (\<forall>name \<in> set names. has_own (js_map ps) name)"
  proof -
    have "concat (map (\<lambda>name. if map_of ps name = None then [(path, Same (Missing_property (JStr name)))] else []) names) = [] \<longleftrightarrow>
        (\<forall>name \<in> set names. has_own (js_map ps) name)"
      by (induction names) (auto simp: has_own_js)
    then show ?thesis
      using none by (simp add: names(2) o_def)
  qed
  have sub: "chk sub x p = [] \<longleftrightarrow> ok (js_of sub) (js_of x)" if "(name, sub) \<in> set named" "map_of ps name = Some x" for name sub x p
    using that c R_obj by (intro same_verdictD [OF a]) (auto simp: sub_schemas_def named_def dest!: map_of_SomeD intro: canon_child rev_image_eqI)
  have props: "concat (map (\<lambda>(name, sub). case map_of ps name of
         Some child \<Rightarrow> chk sub child (prop_path path name) | None \<Rightarrow> []) named) = [] \<longleftrightarrow>
     (\<forall>(name, sub) \<in> set (js_map named). has_own (js_map ps) name \<longrightarrow> ok sub (js_get (js_map ps) name))"
    using sub by (force simp: has_own_js split: option.splits)
  have add: "chk additional x p = [] \<longleftrightarrow> ok (js_of additional) (js_of x)"
    if "map_of s ''additionalProperties'' = Some additional" "(name, x) \<in> set ps" for additional x p name
    using that c R_obj by (intro same_verdictD [OF a]) (auto simp: sub_schemas_def list_of_def intro: canon_child)
  have extra: "(case map_of s ''additionalProperties'' of
       None \<Rightarrow> []
     | Some additional \<Rightarrow>
         if additional = R_bool False
         then concat (map (\<lambda>(name, _). if map_of named name \<noteq> None then []
                else [(path, Same (Additional_property name))]) ps)
         else if additional = R_bool True then []
         else concat (map (\<lambda>(name, child). if map_of named name \<noteq> None then []
                else chk additional child (prop_path path name)) ps)) = [] \<longleftrightarrow>
     (fld (JObj (js_map s)) ''additionalProperties'' \<in> {JUndef, JBool True} \<or>
      (\<forall>(name, child) \<in> set (js_map ps). has_own (js_map named) name \<or> ok (fld (JObj (js_map s)) ''additionalProperties'') child))"
  proof (cases "map_of s ''additionalProperties''")
    case (Some additional)
    consider "additional = R_bool False" | "additional = R_bool True"
      | "additional \<noteq> R_bool False" "additional \<noteq> R_bool True"
      by blast
    then show ?thesis
    proof cases
      case 3
      have "concat (map (\<lambda>(name, child). if map_of named name \<noteq> None then []
              else chk additional child (prop_path path name)) ps) = [] \<longleftrightarrow>
          (\<forall>(name, child) \<in> set ps. map_of named name \<noteq> None \<or> ok (js_of additional) (js_of child))"
        unfolding concat_eq_Nil_conv using add [OF Some] by (fastforce split: if_splits)
      then show ?thesis
        using Some 3 by (simp add: has_own_js case_prod_beta del: concat_eq_Nil_conv)
    qed (use Some f in \<open>auto simp: has_own_js split: if_splits\<close>)
  qed simp
  have required: "(\<forall>nms. rows_of (fld (JObj (js_map s)) ''required'') = Inr nms \<longrightarrow>
      (\<forall>n \<in> set nms. has_own (js_map ps) (cv_String cv n))) \<longleftrightarrow> (\<forall>name \<in> set names. has_own (js_map ps) name)"
    unfolding names(1) using k(1) by simp
  have "rs_check_object chk s v path = [] \<longleftrightarrow> sat_object cv ok (JObj (js_map s)) (js_map ps)"
    unfolding R_obj rs_check_object_def rs_val.case named Let_def append_is_Nil_conv req props extra
      sat_object_def required named_js named_def [symmetric] ..
  then show ?thesis
    using R_obj by simp
qed (simp_all add: rs_check_object_def)

lemma rs_first_repeat_js:
  assumes "list_all canon prior" "list_all canon xs"
  shows "rs_first_repeat prior xs i = first_repeat (map js_of prior) (map js_of xs) i"
  using assms
proof (induction prior xs i rule: rs_first_repeat.induct)
  case (2 prior x xs i)
  then have "list_ex (\<lambda>p. deepEqual p (js_of x)) (map js_of prior) \<longleftrightarrow> list_ex (\<lambda>p. p = x) prior"
    by (auto simp: list_ex_iff list_all_iff deepEqual_js)
  then show ?case
    using 2 by simp
qed simp

lemma array_js:
  assumes a: "same_verdict (sub_schemas defs s) chk ok" and k: "conv_ok cv" "portable_keys s" and c: "canon v"
  shows "rs_check_array chk s v path = [] \<longleftrightarrow>
    (\<forall>xs. js_of v = JArr xs \<longrightarrow> sat_array cv ok (JObj (js_map s)) xs)"
proof (cases v)
  case (R_arr xs)
  have item: "chk sub x p = [] \<longleftrightarrow> ok (js_of sub) (js_of x)" if "map_of s ''items'' = Some sub" "x \<in> set xs" for sub x p
    using that c R_arr by (intro same_verdictD [OF a]) (auto simp: sub_schemas_def list_of_def list_all_iff)
  have items: "(case map_of s ''items'' of
       Some sub \<Rightarrow> concat (map (\<lambda>(i, x). chk sub x (branch_path path i)) (enumerate 0 xs)) | None \<Rightarrow> []) = [] \<longleftrightarrow>
     (fld (JObj (js_map s)) ''items'' = JUndef \<or> (\<forall>x \<in> set (map js_of xs). ok (fld (JObj (js_map s)) ''items'') x))"
    using item by (force simp: set_enumerate in_set_conv_nth split: option.splits)
  have "(case rs_first_repeat [] xs 0 of Some i \<Rightarrow> [(branch_path path i, Same Not_unique)] | None \<Rightarrow> []) = [] \<longleftrightarrow>
     first_repeat [] (map js_of xs) 0 = None"
    using c R_arr rs_first_repeat_js [of "[]" xs 0] by (simp split: option.split)
  then have unique: "(if map_of s ''uniqueItems'' = Some (R_bool True)
       then (case rs_first_repeat [] xs 0 of Some i \<Rightarrow> [(branch_path path i, Same Not_unique)] | None \<Rightarrow> []) else []) = [] \<longleftrightarrow>
     (fld (JObj (js_map s)) ''uniqueItems'' = JBool True \<longrightarrow>
        (\<forall>i j. i < j \<longrightarrow> j < length (map js_of xs) \<longrightarrow> \<not> deepEqual (map js_of xs ! i) (map js_of xs ! j)))"
    unfolding first_repeat_None by (auto split: option.splits)
  have sizes: "some_or True length_bound (map_of s ''minItems'')" "some_or True length_bound (map_of s ''maxItems'')"
    using k(2) by (simp_all add: portable_keys_def)
  show ?thesis
    using R_arr unfolding rs_check_array_def sat_array_def
    by (simp add: items [simplified] unique [simplified] length_bound_js(1) [OF k(1) sizes(1), simplified] length_bound_js(2) [OF k(1) sizes(2), simplified]
        del: concat_eq_Nil_conv) 
qed (simp_all add: rs_check_array_def)


lemma branching_js:
  assumes a: "same_verdict (sub_schemas defs s) chk ok" and c: "canon v"
  shows "rs_check_composition chk s v path = [] \<longleftrightarrow> sat_branching ok (JObj (js_map s)) (js_of v)"
proof -
  have b: "chk b v path = [] \<longleftrightarrow> ok (js_of b) (js_of v)"
    if "rs_array s k = Some bs" "b \<in> set bs" "k \<in> {''anyOf'', ''oneOf'', ''allOf''}" for k bs b
    using that by (intro same_verdictD [OF a _ c]) (auto simp: sub_schemas_def list_of_def)
  have array: "rs_array s k = Some bs \<longleftrightarrow> map_of s k = Some (R_arr bs)" for k bs
    by (auto simp: rs_array_def split: option.splits rs_val.splits)
  have arr: "fld (JObj (js_map s)) k = JArr cs \<longleftrightarrow> (\<exists>bs. rs_array s k = Some bs \<and> cs = map js_of bs)" for k cs
    by (auto simp: array js_of_arr split: option.splits)
  have any: "(case rs_array s ''anyOf'' of
       Some bs \<Rightarrow> if list_ex (\<lambda>b. chk b v path = []) bs then [] else [(path, Same No_anyOf_branch)] | None \<Rightarrow> []) = [] \<longleftrightarrow>
     (\<forall>cs. fld (JObj (js_map s)) ''anyOf'' = JArr cs \<longrightarrow> (\<exists>c \<in> set cs. ok c (js_of v)))"
    unfolding arr using b [of "''anyOf''"] by (auto simp: list_ex_iff split: option.split)
  have "filter (\<lambda>b. chk b v path = []) bs = filter (\<lambda>b. ok (js_of b) (js_of v)) bs"
    if "rs_array s ''oneOf'' = Some bs" for bs
    using that b [of "''oneOf''" bs] by (intro filter_cong) auto
  then have one: "(case rs_array s ''oneOf'' of
       Some bs \<Rightarrow> if length (filter (\<lambda>b. chk b v path = []) bs) \<noteq> 1
          then [(path, Same (OneOf_branches (length (filter (\<lambda>b. chk b v path = []) bs))))] else [] | None \<Rightarrow> []) = [] \<longleftrightarrow>
     (\<forall>cs. fld (JObj (js_map s)) ''oneOf'' = JArr cs \<longrightarrow> length (filter (\<lambda>c. ok c (js_of v)) cs) = 1)"
    unfolding arr by (auto simp: filter_map o_def split: option.split)
  have all: "(case rs_array s ''allOf'' of Some bs \<Rightarrow> concat (map (\<lambda>b. chk b v path) bs) | None \<Rightarrow> []) = [] \<longleftrightarrow>
     (\<forall>cs. fld (JObj (js_map s)) ''allOf'' = JArr cs \<longrightarrow> (\<forall>c \<in> set cs. ok c (js_of v)))"
    unfolding arr using b [of "''allOf''"] by (auto split: option.split)
  have "chk x v path = [] \<longleftrightarrow> ok (js_of x) (js_of v)" if "map_of s ''not'' = Some x" for x
    using that by (intro same_verdictD [OF a _ c]) (auto simp: sub_schemas_def list_of_def)
  then have negated: "(case map_of s ''not'' of
       Some x \<Rightarrow> if chk x v path = [] then [(path, Same Matches_not)] else [] | None \<Rightarrow> []) = [] \<longleftrightarrow>
     (fld (JObj (js_map s)) ''not'' = JUndef \<or> \<not> ok (fld (JObj (js_map s)) ''not'') (js_of v))"
    by (auto split: option.split)
  show ?thesis
    unfolding rs_check_composition_def Let_def append_is_Nil_conv any one all negated sat_branching_def ..
qed

lemma rs_check_clean:
  "rs_check (Suc n) defs (R_obj s) v path = [] \<longleftrightarrow>
     rs_check_ref (rs_check n defs) defs s v path = [] \<and>
     (some_or True (\<lambda>t. type_matches t v) (map_of s ''type'') \<and> rs_check_enum s v path = [] \<and>
        rs_check_string s v path = [] \<and> rs_check_number s v path = []) \<and>
     rs_check_object (rs_check n defs) s v path = [] \<and> rs_check_array (rs_check n defs) s v path = [] \<and>
     rs_check_composition (rs_check n defs) s v path = []"
  by (auto simp: some_or_def split: option.split)

lemma sat_object_node:
  "sat (Suc n) cv defs (JObj s) v \<longleftrightarrow>
     sat_ref (sat n cv defs) defs (JObj s) v \<and> sat_value cv (JObj s) v \<and>
     (\<forall>ps. obj_props v = Some ps \<longrightarrow> sat_object cv (sat n cv defs) (JObj s) ps) \<and>
     (\<forall>xs. v = JArr xs \<longrightarrow> sat_array cv (sat n cv defs) (JObj s) xs) \<and>
     sat_branching (sat n cv defs) (JObj s) v"
  unfolding sat.simps(2) by simp

lemma check_js:
  assumes "conv_ok cv" "portable n defs s" "canon v"
  shows "rs_check n defs s v path = [] \<longleftrightarrow> sat n cv (js_map defs) (js_of s) (js_of v)"
  using assms(2,3)
proof (induction n arbitrary: s v path)
  case 0
  then show ?case by simp
next
  case (Suc n)
  show ?case
  proof (cases s)
    case (R_obj o')
    have k: "portable_keys o'" and subs: "list_all (portable n defs) (sub_schemas defs o')"
      using Suc.prems(1) R_obj by simp_all
    have a: "same_verdict (sub_schemas defs o') (rs_check n defs) (sat n cv (js_map defs))"
      using Suc.IH subs by (auto simp: same_verdict_def list_all_iff)
    have f: "sat n cv (js_map defs) (JBool False) = (\<lambda>_. False)"
      by (cases n) auto
    show ?thesis
      unfolding R_obj js_of.simps(6) rs_check_clean sat_object_node ref_js [OF a k Suc.prems(2)]
        leaf_js [OF assms(1) k Suc.prems(2)] object_js [where chk = "rs_check n defs", OF a assms(1) k f Suc.prems(2)]
        array_js [where chk = "rs_check n defs", OF a assms(1) k Suc.prems(2)] branching_js [OF a Suc.prems(2)] ..
  next
    case (R_bool b)
    then show ?thesis by (cases b) simp_all
  qed (use Suc.prems(1) in simp_all)
qed


text \<open>On such a schema the JavaScript checker never throws.\<close>

lemma seqE_returns: "(\<And>x. x \<in> set xs \<Longrightarrow> \<exists>a. x = Inr a) \<Longrightarrow> \<exists>a. seqE xs = Inr a"
proof (induction xs)
  case (Cons x xs)
  obtain a where "x = Inr a"
    using Cons.prems by auto
  moreover obtain b where "seqE xs = Inr b"
    using Cons by auto
  ultimately show ?case by simp
qed simp

lemma someE_returns: "(\<And>x. x \<in> set xs \<Longrightarrow> \<exists>a. x = Inr a) \<Longrightarrow> \<exists>a. someE xs = Inr a"
proof (induction xs)
  case Nil
  show ?case
    by (rule exI [of _ False]) simp
next
  case (Cons x xs)
  obtain a where "x = Inr a"
    using Cons.prems by auto
  then show ?case
    using Cons by (cases a) auto
qed

lemma countE_returns: "(\<And>x. x \<in> set xs \<Longrightarrow> \<exists>a. x = Inr a) \<Longrightarrow> \<exists>a. countE xs = Inr a"
proof (induction xs)
  case (Cons x xs)
  obtain a where "x = Inr a"
    using Cons.prems by auto
  moreover obtain b where "countE xs = Inr b"
    using Cons by auto
  ultimately show ?case by simp
qed simp

definition returns :: "rs_val list \<Rightarrow> checker \<Rightarrow> bool" where
  "returns subs chk \<longleftrightarrow> (\<forall>s \<in> set subs. \<forall>v path. \<exists>a. chk (js_of s) v path = Inr a)"

lemma returnsD: "returns subs chk \<Longrightarrow> s \<in> set subs \<Longrightarrow> \<exists>a. chk (js_of s) v path = Inr a"
  by (simp add: returns_def)

lemma ref_returns:
  assumes "returns (sub_schemas defs s) chk" "portable_keys s"
  shows "\<exists>a. check_ref chk (js_map defs) (JObj (js_map s)) v path = Inr a"
proof (cases "\<exists>r. map_of s ''$ref'' = Some (R_str r)")
  case True
  then obtain r where r: "map_of s ''$ref'' = Some (R_str r)"
    by blast
  have run: "check_ref chk (js_map defs) (JObj (js_map s)) v path =
      (case resolve defs r of None \<Rightarrow> Inr [(path, Unresolvable (JStr r))] | Some t \<Rightarrow> chk (js_of t) v path)"
    using r by (simp add: check_ref_def Let_def def_get_js [OF assms(2) r] resolve_def split: option.split)
  have "\<exists>a. chk (js_of t) v path = Inr a" if "resolve defs r = Some t" for t
    using that r by (intro returnsD [OF assms(1)]) (simp add: sub_schemas_def list_of_def)
  then show ?thesis
    unfolding run by (simp split: option.split)
next
  case False
  then show ?thesis
    by (auto simp: check_ref_def split: option.split jsval.split)
qed

lemma object_returns:
  assumes r: "returns (sub_schemas defs s) chk" and k: "conv_ok cv" "portable_keys s"
  shows "\<exists>a. check_object cv chk (JObj (js_map s)) v path = Inr a"
proof (cases "obj_props v")
  case (Some ps)
  obtain names where names: "rows_of (fld (JObj (js_map s)) ''required'') = Inr (map JStr names)"
    using required_js [OF k] by blast
  have subs: "\<exists>a. chk sub c p = Inr a" if "(name, sub) \<in> set (named_props (JObj (js_map s)))" for name sub c p
  proof -
    have "(name, sub) \<in> (\<lambda>p. (fst p, js_of (snd p))) ` set (concat (list_of (rs_object s ''properties'')))"
      using that unfolding named_js by simp
    then obtain q where "q \<in> set (concat (list_of (rs_object s ''properties'')))" "sub = js_of (snd q)"
      by blast
    then show ?thesis
      using returnsD [OF r, of "snd q"] by (simp add: sub_schemas_def)
  qed
  have add: "\<exists>a. x = Inr a" if "x \<in> set (check_additional chk (JObj (js_map s)) ps path)" for x
  proof (cases "map_of s ''additionalProperties''")
    case None
    then show ?thesis
      using that by (simp add: check_additional_def Let_def)
  next
    case add: (Some sub)
    then have "\<exists>a. chk (js_of sub) c p = Inr a" for c p
      by (intro returnsD [OF r]) (simp add: sub_schemas_def list_of_def)
    then show ?thesis
      using that add by (auto simp: check_additional_def Let_def split: if_splits)
  qed
  have run: "check_object cv chk (JObj (js_map s)) v path = seqE (
      Inr (concat (map (\<lambda>name. if has_own ps (cv_String cv name) then [] else [(path, Missing_property name)]) (map JStr names))) #
      map (\<lambda>(name, sub). if has_own ps name then chk sub (js_get ps name) (prop_path path name) else Inr [])
        (named_props (JObj (js_map s))) @ check_additional chk (JObj (js_map s)) ps path)"
    unfolding check_object_def Some option.case names sum.case named_props_def by (simp split: option.split)
  show ?thesis
    unfolding run
  proof (rule seqE_returns)
    fix x
    assume "x \<in> set (Inr (concat (map (\<lambda>name. if has_own ps (cv_String cv name) then [] else [(path, Missing_property name)]) (map JStr names))) #
      map (\<lambda>(name, sub). if has_own ps name then chk sub (js_get ps name) (prop_path path name) else Inr [])
        (named_props (JObj (js_map s))) @ check_additional chk (JObj (js_map s)) ps path)"
    then show "\<exists>a. x = Inr a"
      unfolding list.set set_append set_map using subs add by (fastforce split: if_splits)
  qed
qed (simp add: check_object_def)

lemma array_returns:
  assumes "returns (sub_schemas defs s) chk"
  shows "\<exists>a. check_array cv chk (JObj (js_map s)) v path = Inr a"
proof (cases "map_of s ''items''")
  case None
  then show ?thesis
    by (auto simp: check_array_def split: jsval.split simp del: broken_Nil)
next
  case (Some sub)
  then have "\<exists>a. chk (js_of sub) x p = Inr a" for x p
    by (intro returnsD [OF assms]) (simp add: sub_schemas_def list_of_def)
  then show ?thesis
    using Some unfolding check_array_def by (cases v) (auto intro!: seqE_returns)
qed


lemma map_res_returns: "\<exists>a. r = Inr a \<Longrightarrow> \<exists>b. map_res f r = Inr b"
  by (auto simp: map_res_def)

lemma branching_returns:
  assumes "returns (sub_schemas defs s) chk"
  shows "\<exists>a. check_branching chk (JObj (js_map s)) v path = Inr a"
proof -
  define passes where "passes = (\<lambda>sub. map_res (\<lambda>probe. probe = []) (chk sub v path))"
  have b: "\<exists>a. chk x v path = Inr a"
    if "fld (JObj (js_map s)) k = JArr xs" "x \<in> set xs" "k \<in> {''anyOf'', ''oneOf'', ''allOf''}" for k xs x
  proof -
    have "\<exists>bs. map_of s k = Some (R_arr bs) \<and> xs = map js_of bs"
      using that(1) by (cases "map_of s k") (simp_all add: js_of_arr)
    then obtain bs where "map_of s k = Some (R_arr bs)" "xs = map js_of bs"
      by blast
    then show ?thesis
      using that(2,3) by (auto intro!: returnsD [OF assms] simp: sub_schemas_def list_of_def rs_array_def)
  qed
  have p: "\<exists>a. y = Inr a"
    if "fld (JObj (js_map s)) k = JArr xs" "k \<in> {''anyOf'', ''oneOf'', ''allOf''}" "y \<in> set (map passes xs)" for k xs y
    using b [OF that(1) _ that(2)] that(3) by (auto simp: passes_def intro!: map_res_returns)
  have any: "\<exists>a. someE (map passes xs) = Inr a" if "fld (JObj (js_map s)) ''anyOf'' = JArr xs" for xs
    by (rule someE_returns) (use p [OF that] in blast)
  have one: "\<exists>a. countE (map passes xs) = Inr a" if "fld (JObj (js_map s)) ''oneOf'' = JArr xs" for xs
    by (rule countE_returns) (use p [OF that] in blast)
  have n: "\<exists>a. passes (fld (JObj (js_map s)) ''not'') = Inr a" if nt: "fld (JObj (js_map s)) ''not'' \<noteq> JUndef"
  proof -
    obtain x where "map_of s ''not'' = Some x"
      using nt by (cases "map_of s ''not''") simp_all
    moreover from this have "\<exists>a. chk (js_of x) v path = Inr a"
      by (intro returnsD [OF assms]) (simp add: sub_schemas_def list_of_def)
    ultimately show ?thesis
      by (auto simp: passes_def intro!: map_res_returns)
  qed
  show ?thesis
    unfolding check_branching_def Let_def passes_def [symmetric]
  proof (rule seqE_returns, unfold set_append Un_iff, elim disjE)
    fix x
    assume "x \<in> set (case arr_of (fld (JObj (js_map s)) ''anyOf'') of
        Some bs \<Rightarrow> [map_res (\<lambda>ok. if ok then [] else [(path, No_anyOf_branch)]) (someE (map passes bs))] | None \<Rightarrow> [])"
    then show "\<exists>a. x = Inr a"
      using any by (cases "fld (JObj (js_map s)) ''anyOf''") (auto simp: arr_of_def intro!: map_res_returns)
  next
    fix x
    assume "x \<in> set (case arr_of (fld (JObj (js_map s)) ''oneOf'') of
        Some bs \<Rightarrow> [map_res (\<lambda>n. if n = 1 then [] else [(path, OneOf_branches n)]) (countE (map passes bs))] | None \<Rightarrow> [])"
    then show "\<exists>a. x = Inr a"
      using one by (cases "fld (JObj (js_map s)) ''oneOf''") (auto simp: arr_of_def intro!: map_res_returns)
  next
    fix x
    assume "x \<in> set (case arr_of (fld (JObj (js_map s)) ''allOf'') of Some bs \<Rightarrow> map (\<lambda>b. chk b v path) bs | None \<Rightarrow> [])"
    then show "\<exists>a. x = Inr a"
      using b [of "''allOf''"] by (cases "fld (JObj (js_map s)) ''allOf''") (auto simp: arr_of_def)
  next
    fix x
    assume "x \<in> set (if fld (JObj (js_map s)) ''not'' \<noteq> JUndef
        then [map_res (\<lambda>ok. if ok then [(path, Matches_not)] else []) (passes (fld (JObj (js_map s)) ''not''))] else [])"
    then show "\<exists>a. x = Inr a"
      using n by (auto intro!: map_res_returns split: if_splits)
  qed
qed

lemma check_returns:
  assumes "conv_ok cv" "portable n defs s"
  shows "\<exists>a. check n cv (js_map defs) (js_of s) v path = Inr a"
  using assms(2)
proof (induction n arbitrary: s v path)
  case 0
  then show ?case by simp
next
  case (Suc n)
  show ?case
  proof (cases s)
    case (R_obj o')
    have k: "portable_keys o'" and subs: "list_all (portable n defs) (sub_schemas defs o')"
      using Suc.prems R_obj by simp_all
    have r: "returns (sub_schemas defs o') (check n cv (js_map defs))"
      using Suc.IH subs by (auto simp: returns_def list_all_iff)
    show ?thesis
      unfolding R_obj js_of.simps(6) check.simps(2) Let_def
      using ref_returns [OF r k] object_returns [OF r assms(1) k] array_returns [OF r] branching_returns [OF r]
      by (auto intro!: seqE_returns simp del: seqE.simps)
  next
    case (R_bool b)
    then show ?thesis by (cases b) simp_all
  qed (use Suc.prems in simp_all)
qed

end
