(* ===== verification/Rust_Canonical.thy ===== *)
theory Rust_Canonical
  imports Rust_Agreement Envelopes
begin

text \<open>
  The two runtimes on whole documents: a document loads in both or in neither, and a value both
  write alike is accepted by both or by neither. The canonical schema is one of the documents
  this covers. Where values are not written alike the runtimes differ.
\<close>

section \<open>Whole documents\<close>

lemma validate_js:
  assumes "conv_ok cv" "rs_defs document = Some defs" "map_of defs name = Some s"
    and "portable (SCHEMA_MAX_DEPTH + 1) defs s" "canon v"
  shows "rs_validate document name v = Inr () \<longleftrightarrow> validate cv (js_map defs) name (js_of v) = Inr []"
proof -
  obtain vs where vs: "check (SCHEMA_MAX_DEPTH + 1) cv (js_map defs) (js_of s) (js_of v) ''$'' = Inr vs"
    using check_returns [OF assms(1,4)] by blast
  have "def_get (js_map defs) name = js_of s"
    using assms(3) by (simp add: def_get_def has_own_js)
  then have "validate cv (js_map defs) name (js_of v) = Inr [] \<longleftrightarrow>
      sat (SCHEMA_MAX_DEPTH + 1) cv (js_map defs) (js_of s) (js_of v)"
    using modelsD [OF check_models vs] vs by (simp add: validate_def)
  moreover have "rs_validate document name v = Inr () \<longleftrightarrow> rs_check (SCHEMA_MAX_DEPTH + 1) defs s v ''$'' = []"
    using assms(2,3) by (simp add: rs_validate_def Let_def)
  ultimately show ?thesis
    using check_js [OF assms(1,4,5)] by simp
qed

lemma load_js:
  assumes "rs_defs document = Some defs"
  shows "from_json (Inr document) = Inr document \<longleftrightarrow> makeValidator (js_of document) = Inr (js_map defs)"
proof -
  obtain ps where ps: "document = R_obj ps" "map_of ps ''$defs'' = Some (R_obj defs)"
    using assms by (auto simp: rs_defs_def rs_object_def split: rs_val.splits option.splits)
  have "from_json (Inr document) = Inr document \<longleftrightarrow> rs_check_supported document ''#'' = Inr ()"
    using ps by (auto simp: from_json_def split: sum.splits)
  also have "\<dots> \<longleftrightarrow> checkSupported (js_of document) ''#'' = Inr ()"
    by (rule loads_alike)
  also have "\<dots> \<longleftrightarrow> makeValidator (js_of document) = Inr (js_map defs)"
    using ps by (auto simp: makeValidator_def isPlainValue_def split: sum.splits)
  finally show ?thesis .
qed

section \<open>The canonical schema\<close>

text \<open>What serde_json reads for the text of a value; the entries keep the order of the text.\<close>

fun rs_of :: "jsval \<Rightarrow> rs_val" where
  "rs_of (JBool b) = R_bool b"
| "rs_of (JNum (Fin r)) = R_num (if of_int \<lfloor>r\<rfloor> = r then Rs_int \<lfloor>r\<rfloor> else Rs_float r)"
| "rs_of (JStr s) = R_str s"
| "rs_of (JArr xs) = R_arr (map rs_of xs)"
| "rs_of (JObj ps) = R_obj (map (\<lambda>p. (fst p, rs_of (snd p))) ps)"
| "rs_of _ = R_null"

lemma rs_of_num [simp]: "rs_of (JNum (num i)) = R_num (Rs_int i)"
  by (simp add: num_def)

lemma portable_leaf: "portable_keys s \<Longrightarrow> sub_schemas defs s = [] \<Longrightarrow> portable n defs (R_obj s)"
  by (cases n) simp_all

lemma portable_node: "portable_keys s \<Longrightarrow> list_all (portable n defs) (sub_schemas defs s) \<Longrightarrow> portable (Suc n) defs (R_obj s)"
  by simp

lemma portable_change: "portable (Suc (Suc n)) defs (rs_of SyncChangeEvent)"
  by (simp add: SyncChangeEvent_def portable_keys_def some_or_def sub_schemas_def list_of_def rs_object_def rs_array_def)


lemma portable_envelopes:
  "portable (Suc (Suc n)) defs (rs_of SyncQueuedWrite)"
  "portable (Suc (Suc n)) defs (rs_of SyncWriteAcknowledgement)"
  "portable (Suc (Suc n)) defs (rs_of SyncWritePolicy)"
  "portable (Suc (Suc n)) defs (rs_of SyncReplicaMetadata)"
  "portable (Suc (Suc n)) defs (rs_of SyncTelemetryEvent)"
  by (simp_all add: SyncQueuedWrite_def SyncWriteAcknowledgement_def SyncWritePolicy_def SyncReplicaMetadata_def
      SyncTelemetryEvent_def portable_keys_def some_or_def sub_schemas_def list_of_def rs_object_def rs_array_def)

lemma portable_page:
  assumes "map_of defs ''SyncChangeEvent'' = Some (rs_of SyncChangeEvent)"
  shows "portable (Suc (Suc (Suc (Suc (Suc n))))) defs (rs_of SyncPullPage)"
proof -
  have "portable (Suc (Suc (Suc n))) defs (R_obj [(''$ref'', R_str ''#/$defs/SyncChangeEvent'')])"
    by (rule portable_node)
      (simp_all add: portable_keys_def some_or_def INHERITED_def sub_schemas_def list_of_def rs_object_def
        rs_array_def resolve_def assms portable_change del: portable.simps)
  then have "portable (Suc (Suc (Suc (Suc n)))) defs (R_obj [(''type'', R_str ''array''),
      (''items'', R_obj [(''$ref'', R_str ''#/$defs/SyncChangeEvent'')]), (''description'', d)])" for d
    by (intro portable_node)
      (simp_all add: portable_keys_def some_or_def sub_schemas_def list_of_def rs_object_def rs_array_def del: portable.simps)
  then show ?thesis
    by (simp add: SyncPullPage_def portable_keys_def some_or_def sub_schemas_def list_of_def rs_object_def rs_array_def
        portable_leaf)
qed

definition RS_SCHEMA :: rs_val where "RS_SCHEMA = rs_of SYNC_SCHEMA"

definition RS_DEFS :: rs_map where
  "RS_DEFS = map (\<lambda>p. (fst p, rs_of (snd p))) SYNC_DEFS"

fun text_value :: "jsval \<Rightarrow> bool" where
  "text_value JNull = True"
| "text_value (JBool b) = True"
| "text_value (JNum (Fin r)) = (of_int \<lfloor>r\<rfloor> = r \<longrightarrow> \<bar>r\<bar> \<le> 2 ^ 53)"
| "text_value (JStr s) = True"
| "text_value (JArr xs) = list_all text_value xs"
| "text_value (JObj ps) = list_all (\<lambda>p. text_value (snd p)) ps"
| "text_value _ = False"

lemma abs_floor: "of_int \<lfloor>r :: rat\<rfloor> = r \<Longrightarrow> \<bar>r\<bar> \<le> 2 ^ 53 \<Longrightarrow> \<bar>\<lfloor>r\<rfloor>\<bar> \<le> 2 ^ 53"
proof -
  assume "of_int \<lfloor>r\<rfloor> = r" "\<bar>r\<bar> \<le> 2 ^ 53"
  then have "of_int \<bar>\<lfloor>r\<rfloor>\<bar> \<le> (of_int (2 ^ 53) :: rat)"
    by (metis of_int_abs of_int_numeral of_int_power)
  then show ?thesis
    by (simp only: of_int_le_iff)
qed

lemma js_rs: "text_value v \<Longrightarrow> js_of (rs_of v) = v"
proof (induction v rule: rs_of.induct)
  case (2 r)
  then show ?case
    using abs_floor [of r] f64_exact [of "\<lfloor>r\<rfloor>"] by auto
next
  case (4 xs)
  then show ?case
    by (auto simp: list_all_iff intro: map_idI)
next
  case (5 ps)
  then show ?case
    by (auto simp: list_all_iff intro: map_idI)
qed simp_all

lemma text_num: "\<bar>i\<bar> \<le> 2 ^ 53 \<Longrightarrow> text_value (JNum (num i))"
proof -
  assume "\<bar>i\<bar> \<le> 2 ^ 53"
  then have "of_int \<bar>i\<bar> \<le> (of_int (2 ^ 53) :: rat)"
    by (simp only: of_int_le_iff)
  then show ?thesis
    by (simp add: num_def)
qed

lemma text_schema: "text_value SYNC_SCHEMA"
  by (simp add: SYNC_SCHEMA_def SYNC_DEFS_def SyncChangeEvent_def SyncQueuedWrite_def SyncWriteAcknowledgement_def
      SyncPullPage_def SyncWritePolicy_def SyncReplicaMetadata_def SyncTelemetryEvent_def text_num del: text_value.simps(3))


text \<open>\<^verbatim>\<open>validate_sync_envelope\<close>: loads the embedded document at each call.\<close>

definition validate_sync_envelope :: "string \<Rightarrow> rs_val \<Rightarrow> rs_violation list + unit" where
  "validate_sync_envelope definition_name value =
     (case from_json (Inr RS_SCHEMA) of
        Inl e \<Rightarrow> Inl [(''$'', Not_loaded (''invalid schema: '' @ e))]
      | Inr document \<Rightarrow> rs_validate document definition_name value)"

lemma js_schema: "js_of RS_SCHEMA = SYNC_SCHEMA"
  unfolding RS_SCHEMA_def by (rule js_rs [OF text_schema])

lemma rs_schema_defs: "rs_defs RS_SCHEMA = Some RS_DEFS"
  by (simp add: RS_SCHEMA_def SYNC_SCHEMA_def RS_DEFS_def rs_defs_def rs_object_def)

lemma js_defs: "js_map RS_DEFS = SYNC_DEFS"
proof -
  have "js_of (R_obj RS_DEFS) = fld (js_of RS_SCHEMA) ''$defs''"
    by (simp add: RS_SCHEMA_def SYNC_SCHEMA_def RS_DEFS_def)
  then show ?thesis
    by (simp add: js_schema SYNC_SCHEMA_def)
qed

lemma portable_canonical:
  assumes "map_of RS_DEFS name = Some s"
  shows "portable (SCHEMA_MAX_DEPTH + 1) RS_DEFS s"
proof -
  have d: "SCHEMA_MAX_DEPTH + 1 = Suc (Suc (Suc (Suc (Suc 60))))"
    by (simp add: SCHEMA_MAX_DEPTH_def)
  have e: "map_of RS_DEFS ''SyncChangeEvent'' = Some (rs_of SyncChangeEvent)"
    by (simp add: RS_DEFS_def SYNC_DEFS_def)
  have "s \<in> rs_of ` {SyncChangeEvent, SyncQueuedWrite, SyncWriteAcknowledgement, SyncPullPage, SyncWritePolicy,
      SyncReplicaMetadata, SyncTelemetryEvent}"
    using assms by (auto simp: RS_DEFS_def SYNC_DEFS_def split: if_splits)
  then show ?thesis
    unfolding d using portable_change portable_envelopes portable_page [OF e] by blast
qed

section \<open>Agreement\<close>

text \<open>
  C37. The Rust validator is the JavaScript one on every document whose keywords both read alike
  and every value both write alike: the one loads the document exactly if the other does, and
  accepts the value under a definition exactly if the other does.
\<close>

theorem runtimes_agree:
  assumes "conv_ok cv" "rs_defs document = Some defs" "map_of defs name = Some s"
    and "portable (SCHEMA_MAX_DEPTH + 1) defs s" "canon v"
  shows "(from_json (Inr document) = Inr document \<longleftrightarrow> makeValidator (js_of document) = Inr (js_map defs)) \<and>
    (rs_validate document name v = Inr () \<longleftrightarrow> validate cv (js_map defs) name (js_of v) = Inr [])"
  using load_js [OF assms(2)] validate_js [OF assms] ..

definition rs_page :: rs_val where
  "rs_page = R_obj [
     (''changes'', R_arr [R_obj [(''at_ms'', R_num (Rs_int 5)), (''id'', R_str ''n1''), (''op'', R_str ''upsert''),
        (''row'', R_obj []), (''table'', R_str ''notes''), (''version'', R_num (Rs_int 3))]]),
     (''has_more'', R_bool False), (''next_cursor'', R_num (Rs_int 7))]"

lemma canon_page: "canon rs_page"
  by (simp add: rs_page_def)

lemma js_page_valid: "conv_ok cv \<Longrightarrow> validate cv SYNC_DEFS ''SyncPullPage'' (js_of rs_page) = Inr []"
proof -
  assume c: "conv_ok cv"
  define event where "event = [(''at_ms'', JNum (num 5)), (''id'', JStr ''n1''), (''op'', JStr ''upsert''),
    (''row'', JObj []), (''table'', JStr ''notes''), (''version'', JNum (num 3))]"
  have f: "event_fields event"
    by (simp add: event_fields_def event_def one_of_def non_empty_def isPlainValue_def has_own_def)
  have v: "js_of rs_page = JObj [(''changes'', JArr (map JObj [event])), (''has_more'', JBool False), (''next_cursor'', JNum (num 7))]"
    using f64_exact [of 3] f64_exact [of 5] f64_exact [of 7] by (simp add: rs_page_def event_def num_def)
  have "validate cv SYNC_DEFS ''SyncPullPage'' (js_of rs_page) = validateSyncEnvelope cv ''SyncPullPage'' (js_of rs_page)"
    by (simp add: validateSyncEnvelope_def sync_schema_loads)
  also have "\<dots> = Inr []"
    unfolding v envelope_checks(4) [OF envelopes_present(4)]
    by (subst check_pull_page [OF c, where rows = "[event]"]) (use f in auto)
  finally show ?thesis .
qed

theorem runtimes_agree_witness:
  "from_json (Inr RS_SCHEMA) = Inr RS_SCHEMA \<and> rs_validate RS_SCHEMA ''SyncPullPage'' rs_page = Inr ()"
proof -
  have "map_of RS_DEFS ''SyncPullPage'' = Some (rs_of SyncPullPage)"
    by (simp add: RS_DEFS_def SYNC_DEFS_def)
  from runtimes_agree [OF sample_conv_ok rs_schema_defs this portable_canonical [OF this] canon_page]
  show ?thesis
    unfolding js_schema js_defs using sync_schema_loads js_page_valid [OF sample_conv_ok] by blast
qed


text \<open>The canonical envelopes, whatever the value.\<close>

lemma rust_envelopes_agree:
  assumes "conv_ok cv" "map_of RS_DEFS name = Some s" "canon v"
  shows "validate_sync_envelope name v = Inr () \<longleftrightarrow> validateSyncEnvelope cv name (js_of v) = Inr []"
proof -
  have "from_json (Inr RS_SCHEMA) = Inr RS_SCHEMA"
    using load_js [OF rs_schema_defs] by (simp add: js_schema js_defs sync_schema_loads)
  then show ?thesis
    using validate_js [OF assms(1) rs_schema_defs assms(2) portable_canonical [OF assms(2)] assms(3)]
    by (simp add: validate_sync_envelope_def validateSyncEnvelope_def sync_schema_loads js_defs)
qed

section \<open>Where the runtimes differ\<close>

text \<open>
  serde_json keeps \<open>1\<close> and \<open>1.0\<close> apart and reads a length bound only from an integer;
  \<^verbatim>\<open>JSON.parse\<close> gives the same number for both.
\<close>

definition single :: "rs_map \<Rightarrow> rs_val" where
  "single s = R_obj [(''$defs'', R_obj [(''N'', R_obj s)])]"

lemma one_point_zero: "js_of (R_num (Rs_float 1)) = js_of (R_num (Rs_int 1))"
  using f64_exact [of 1] by simp

lemma single_defs: "rs_defs (single s) = Some [(''N'', R_obj s)]"
  by (simp add: single_def rs_defs_def rs_object_def)

lemma single_validate:
  "rs_validate (single s) ''N'' v =
     (case rs_check (SCHEMA_MAX_DEPTH + 1) [(''N'', R_obj s)] (R_obj s) v ''$'' of [] \<Rightarrow> Inr () | vs \<Rightarrow> Inl vs)"
  by (simp add: rs_validate_def single_defs Let_def split: list.split)

lemma check_const:
  "rs_check (Suc n) defs (R_obj [(''const'', c)]) v path = (if c \<noteq> v then [(path, Same Not_const)] else [])"
  by (cases v) (simp_all add: rs_check_ref_def rs_check_enum_def rs_check_string_def rs_check_number_def rs_check_object_def
      rs_check_array_def rs_check_composition_def rs_array_def rs_object_def rs_length_def rs_number_def rs_over_def)

lemma check_min_length:
  "rs_check (Suc n) defs (R_obj [(''minLength'', m)]) (R_str t) path =
     rs_over (as_u64 m) (\<lambda>m. length t < m) path (\<lambda>m. Too_short (JNum (num (int m))))"
  by (simp add: rs_check_ref_def rs_check_enum_def rs_check_string_def rs_check_number_def rs_check_object_def
      rs_check_array_def rs_check_composition_def rs_array_def rs_object_def rs_length_def rs_over_def)

lemma runtimes_differ_const:
  assumes "conv_ok cv"
  shows "rs_validate (single [(''const'', R_num (Rs_int 1))]) ''N'' (R_num (Rs_float 1)) = Inl [(''$'', Same Not_const)]"
    "validate cv (js_map [(''N'', R_obj [(''const'', R_num (Rs_int 1))])]) ''N'' (js_of (R_num (Rs_float 1))) = Inr []"
proof -
  let ?s = "[(''const'', R_num (Rs_int 1))]"
  have v: "rs_validate (single ?s) ''N'' v = (if v = R_num (Rs_int 1) then Inr () else Inl [(''$'', Same Not_const)])" for v
    unfolding single_validate Suc_eq_plus1 [symmetric] check_const by simp
  show "rs_validate (single ?s) ''N'' (R_num (Rs_float 1)) = Inl [(''$'', Same Not_const)]"
    by (simp add: v)
  have "portable (SCHEMA_MAX_DEPTH + 1) [(''N'', R_obj ?s)] (R_obj ?s)"
    by (rule portable_leaf) (simp_all add: portable_keys_def some_or_def sub_schemas_def list_of_def rs_object_def rs_array_def)
  from validate_js [OF assms single_defs _ this, of "''N''" "R_num (Rs_int 1)"]
  show "validate cv (js_map [(''N'', R_obj ?s)]) ''N'' (js_of (R_num (Rs_float 1))) = Inr []"
    unfolding one_point_zero by (simp add: v del: js_of.simps)
qed

lemma runtimes_differ_length:
  "rs_validate (single [(''minLength'', R_num (Rs_float 1))]) ''N'' (R_str []) = Inr ()"
  "rs_validate (single [(''minLength'', R_num (Rs_int 1))]) ''N'' (R_str []) = Inl [(''$'', Same (Too_short (JNum (num 1))))]"
  "js_of (single [(''minLength'', R_num (Rs_float 1))]) = js_of (single [(''minLength'', R_num (Rs_int 1))])"
  unfolding single_validate Suc_eq_plus1 [symmetric] check_min_length
  by (simp_all add: rs_over_def single_def one_point_zero del: js_of.simps(3))

end
