(* ===== verification/Otel.thy ===== *)
theory Otel
  imports Telemetry
begin

text \<open>
  The OpenTelemetry adapter as a whole (telemetry.mjs): the counter it creates, the spans it
  wraps and the exporters it feeds. Tracer, meter and logger are the application's: of each
  method the model knows whether it is there and what a call of it throws.
\<close>

section \<open>The provider\<close>

text \<open>A method: absent, or what a call of it throws, if anything.\<close>

type_synonym hook = "js_error option option"

record otel_span =
  h_addEvent :: hook
  h_setAttribute :: hook
  h_setStatus :: hook
  h_end :: hook

text \<open>
  \<open>startSpan\<close> and \<open>createCounter\<close> also return: a span or counter, or nothing the adapter can
  use. A counter is its \<open>add\<close>.
\<close>

record provider =
  pv_startSpan :: "otel_span option res option"
  pv_createCounter :: "hook option res option"
  pv_emit :: hook

datatype otel_call =
    Create_counter string string string
  | Start_span string attrs
  | Add_event string attrs
  | Set_attribute string string
  | Set_status nat
  | End_span
  | Counter_add nat attrs
  | Log_emit otel_log

text \<open>\<^verbatim>\<open>o?.m?.(...)\<close>: nothing happens without the method, else the call and perhaps its throw.\<close>

definition invoke :: "hook \<Rightarrow> otel_call \<Rightarrow> (otel_call list, unit) op" where
  "invoke h c calls =
     (case h of
        None \<Rightarrow> (Inr (), calls)
      | Some None \<Rightarrow> (Inr (), calls @ [c])
      | Some (Some e) \<Rightarrow> (Inl e, calls @ [c]))"

definition invoke_for :: "'a option res option \<Rightarrow> otel_call \<Rightarrow> (otel_call list, 'a option) op" where
  "invoke_for h c calls =
     (case h of None \<Rightarrow> (Inr None, calls) | Some r \<Rightarrow> (r, calls @ [c]))"

text \<open>\<^verbatim>\<open>try { ... } catch { }\<close> around a call.\<close>

definition attempt :: "('s, 'a) op \<Rightarrow> 'a \<Rightarrow> ('s, 'a) op" where
  "attempt f d s = (case f s of (Inl _, s') \<Rightarrow> (Inr d, s') | (Inr v, s') \<Rightarrow> (Inr v, s'))"

section \<open>The adapter\<close>

definition ERROR_STATUS :: nat where "ERROR_STATUS = 2"

text \<open>\<open>makeOpenTelemetryTelemetry\<close> up to its methods: the counter of events, if there is one.\<close>

definition makeOpenTelemetryTelemetry :: "provider \<Rightarrow> (otel_call list, hook option) op" where
  "makeOpenTelemetryTelemetry pv =
     attempt (invoke_for (pv_createCounter pv) (Create_counter ''fiducia.sync.write.events''
        ''Count of bounded Fiducia sync write lifecycle events'' ''{event}'')) None"

definition startWrite :: "provider \<Rightarrow> tel_context \<Rightarrow> (otel_call list, otel_span option) op" where
  "startWrite pv context = invoke_for (pv_startSpan pv) (Start_span ''fiducia.sync.write'' (attributes context))"

definition span_event :: "otel_span \<Rightarrow> phase \<Rightarrow> attrs \<Rightarrow> (otel_call list, unit) op" where
  "span_event sp ph eventAttrs = invoke (h_addEvent sp) (Add_event (''fiducia.sync.'' @ phase_name ph) eventAttrs)"

definition otel_span_error :: "otel_span \<Rightarrow> string \<Rightarrow> (otel_call list, unit) op" where
  "otel_span_error sp ty =
     bindE (invoke (h_setAttribute sp) (Set_attribute ''error.type'' ty)) (\<lambda>_.
       invoke (h_setStatus sp) (Set_status ERROR_STATUS))"

definition otel_span_end :: "otel_span \<Rightarrow> (otel_call list, unit) op" where
  "otel_span_end sp = invoke (h_end sp) End_span"

definition emit_event :: "hook option \<Rightarrow> provider \<Rightarrow> tel_event \<Rightarrow> tel_context \<Rightarrow> (otel_call list, unit) op" where
  "emit_event eventCounter pv event context =
     bindE (attempt (invoke (case eventCounter of Some h \<Rightarrow> h | None \<Rightarrow> None)
        (Counter_add 1 (fst (otel_emit event context)))) ()) (\<lambda>_.
     attempt (invoke (pv_emit pv) (Log_emit (snd (otel_emit event context)))) ())"

section \<open>What the client sees\<close>

lemma attempt_Inr [simp]: "fst (attempt f d s) \<noteq> Inl e"
  by (auto simp: attempt_def split: prod.splits sum.splits)

text \<open>
  Emitting returns whatever the exporters do, and a broken counter does not keep the log
  record back: the calls made are those of the methods that are there, in order.
\<close>
lemma emit_isolated:
  "emit_event eventCounter pv event context calls =
     (Inr (), calls @
        (case eventCounter of Some (Some _) \<Rightarrow> [Counter_add 1 (fst (otel_emit event context))] | _ \<Rightarrow> []) @
        (case pv_emit pv of Some _ \<Rightarrow> [Log_emit (snd (otel_emit event context))] | None \<Rightarrow> []))"
  by (auto simp: emit_event_def attempt_def invoke_def bindE_def split: option.splits)

text \<open>Construction always returns, with a counter only where the meter made one.\<close>
lemma construction_returns:
  "\<exists>c calls'. makeOpenTelemetryTelemetry pv calls = (Inr c, calls') \<and>
     (c \<noteq> None \<longrightarrow> pv_createCounter pv = Some (Inr c))"
  by (auto simp: makeOpenTelemetryTelemetry_def attempt_def invoke_for_def split: option.splits prod.splits sum.splits)

definition thrown :: "(otel_call list, 'a) op \<Rightarrow> js_error option" where
  "thrown f = (case fst (f []) of Inl e \<Rightarrow> Some e | Inr _ \<Rightarrow> None)"

text \<open>The adapter as the sink the client is modelled over.\<close>

definition otel_sink :: "provider \<Rightarrow> sink" where
  "otel_sink pv =
     \<lparr>sk_start = (\<lambda>context. case fst (startWrite pv context []) of
          Inr (Some sp) \<Rightarrow> Some \<lparr>sp_error = (\<lambda>ty. thrown (otel_span_error sp ty)), sp_end = thrown (otel_span_end sp)\<rparr>
        | _ \<Rightarrow> None),
      sk_emit = (\<lambda>_. True)\<rparr>"

text \<open>
  The sink is quiet, which is what keeps telemetry from rejecting writes, exactly when the
  spans of the provider throw neither from \<open>setAttribute\<close> and \<open>setStatus\<close> nor from \<open>end\<close>: the
  adapter guards its exporters, not its spans.
\<close>
lemma otel_sink_quiet:
  "quiet_sink (otel_sink pv) \<longleftrightarrow>
     (\<forall>sp. pv_startSpan pv = Some (Inr (Some sp)) \<longrightarrow>
        (\<forall>h \<in> {h_setAttribute sp, h_setStatus sp, h_end sp}. \<forall>e. h \<noteq> Some (Some e)))"
proof -
  have err: "thrown (otel_span_error sp ty) = None \<longleftrightarrow>
      (\<forall>h \<in> {h_setAttribute sp, h_setStatus sp}. \<forall>e. h \<noteq> Some (Some e))" for sp ty
    by (auto simp: thrown_def otel_span_error_def invoke_def bindE_def split: option.splits)
  have fin: "thrown (otel_span_end sp) = None \<longleftrightarrow> (\<forall>e. h_end sp \<noteq> Some (Some e))" for sp
    by (auto simp: thrown_def otel_span_end_def invoke_def split: option.splits)
  have start: "fst (startWrite pv ctx []) = Inr (Some sp) \<longleftrightarrow> pv_startSpan pv = Some (Inr (Some sp))" for ctx sp
    by (auto simp: startWrite_def invoke_for_def split: option.splits)
  have "quiet_sink (otel_sink pv) \<longleftrightarrow>
      (\<forall>sp. pv_startSpan pv = Some (Inr (Some sp)) \<longrightarrow>
        thrown (otel_span_end sp) = None \<and> (\<forall>ty. thrown (otel_span_error sp ty) = None))"
    by (auto simp: quiet_sink_def quiet_span_def otel_sink_def start split: sum.splits option.splits)
  then show ?thesis
    unfolding err fin by auto
qed

end
