(* ===== verification/Write_Path.thy ===== *)
theory Write_Path
  imports Decode
begin

text \<open>
  The write path of the backend transport as one operation (backend.mjs, \<open>backendSend\<close>): the
  URL a write is posted to, the request and the checked answer. \<^verbatim>\<open>new URL\<close> and \<^verbatim>\<open>fetch\<close> are
  parameters.
\<close>

section \<open>The URL\<close>

text \<open>\<^verbatim>\<open>s.replace(/\/+$/, "")\<close>.\<close>

definition trimSlash :: "string \<Rightarrow> string" where
  "trimSlash s = rev (dropWhile (\<lambda>c. c = CHR ''/'') (rev s))"

definition hex_digit :: "nat \<Rightarrow> char" where
  "hex_digit d = (if d < 10 then char_of (48 + d) else char_of (55 + d))"

definition percent :: "nat \<Rightarrow> string" where
  "percent b = [CHR ''%'', hex_digit (b div 16), hex_digit (b mod 16)]"

definition unreserved :: "char \<Rightarrow> bool" where
  "unreserved c \<longleftrightarrow> (let n = of_char c :: nat in
     48 \<le> n \<and> n \<le> 57 \<or> 65 \<le> n \<and> n \<le> 90 \<or> 97 \<le> n \<and> n \<le> 122) \<or> c \<in> set ''-_.!~*'' \<or> c = CHR 0x27 \<or> c \<in> set ''()''"

text \<open>\<^verbatim>\<open>encodeURIComponent\<close>: the bytes of the UTF-8 encoding, escaped unless unreserved.\<close>

definition encode_char :: "char \<Rightarrow> string" where
  "encode_char c =
     (let n = of_char c :: nat in
      if unreserved c then [c]
      else if n < 128 then percent n
      else percent (192 + n div 64) @ percent (128 + n mod 64))"

definition encodeURIComponent :: "string \<Rightarrow> string" where
  "encodeURIComponent s = concat (map encode_char s)"

definition write_path :: "string \<Rightarrow> queued_write \<Rightarrow> string" where
  "write_path pathPrefix w = trimSlash pathPrefix @ ''/'' @ encodeURIComponent (qw_table w)"

section \<open>Sending\<close>

text \<open>An answer: its status, and what reading its body gives.\<close>

record answer =
  an_ok :: bool
  an_status :: nat
  an_json :: "jsval res"

definition key_mismatch :: "queued_write \<Rightarrow> send_opts \<Rightarrow> bool" where
  "key_mismatch w opts \<longleftrightarrow> \<not> is_nullish (so_key opts) \<and> qw_key w \<noteq> None \<and> so_key opts \<noteq> write_key_val w"

definition backendSend ::
    "(string \<Rightarrow> string res) \<Rightarrow> string \<Rightarrow> (string \<Rightarrow> request \<Rightarrow> answer res) \<Rightarrow> send_opts \<Rightarrow> queued_write \<Rightarrow> jsval res" where
  "backendSend new_url pathPrefix fetchImpl opts w =
     (if key_mismatch w opts
      then Inl (Err ''explicit Idempotency-Key does not match the queued write key'')
      else case new_url (write_path pathPrefix w) of
        Inl e \<Rightarrow> Inl e
      | Inr url \<Rightarrow>
         (case build_request w opts of
            Inl e \<Rightarrow> Inl e
          | Inr rq \<Rightarrow>
             (case fetchImpl url rq of
                Inl e \<Rightarrow> Inl e
              | Inr res \<Rightarrow>
                  if \<not> an_ok res then check_response w False (an_status res) JUndef
                  else (case an_json res of
                     Inl e \<Rightarrow> Inl e
                   | Inr ack \<Rightarrow> check_response w True (an_status res) ack))))"

section \<open>The path of a table\<close>

fun hex_value :: "char \<Rightarrow> nat" where
  "hex_value c = (let n = of_char c in if n < 58 then n - 48 else n - 55)"

text \<open>Reading an encoded segment back.\<close>

fun decode_segment :: "string \<Rightarrow> string" where
  "decode_segment (p # a # b # s) =
     (if p = CHR ''%'' then
        (let n = 16 * hex_value a + hex_value b in
         if n < 128 then char_of n # decode_segment s
         else case s of
           _ # c # d # t \<Rightarrow> char_of ((n mod 64) * 64 + (16 * hex_value c + hex_value d) mod 64) # decode_segment t
         | _ \<Rightarrow> [])
      else p # decode_segment (a # b # s))"
| "decode_segment (p # s) = p # decode_segment s"
| "decode_segment [] = []"

lemma char_code: "(of_char c :: nat) < 256"
  using of_char_mod_256 [of c, where 'a = nat] by simp

lemma hex_value_digit: "d < 16 \<Longrightarrow> hex_value (hex_digit d) = d"
  by (auto simp: hex_digit_def)

lemma hex_roundtrip: "b < 256 \<Longrightarrow> 16 * hex_value (hex_digit (b div 16)) + hex_value (hex_digit (b mod 16)) = b"
  by (subst (1 2) hex_value_digit) auto

lemma decode_other: "p \<noteq> CHR ''%'' \<Longrightarrow> decode_segment (p # s) = p # decode_segment s"
  by (cases s rule: decode_segment.cases) auto

lemma decode_percent:
  "b < 128 \<Longrightarrow> decode_segment (percent b @ s) = char_of b # decode_segment s"
  using hex_roundtrip [of b] by (simp add: percent_def Let_def del: hex_value.simps)

lemma decode_percent2:
  "128 \<le> b \<Longrightarrow> b < 256 \<Longrightarrow> b' < 256 \<Longrightarrow>
     decode_segment (percent b @ percent b' @ s) = char_of ((b mod 64) * 64 + b' mod 64) # decode_segment s"
  using hex_roundtrip [of b] hex_roundtrip [of b'] by (simp add: percent_def Let_def del: hex_value.simps)

lemma unreserved_percent: "\<not> unreserved (CHR ''%'')"
  by code_simp

lemma decode_encode_char: "decode_segment (encode_char c @ s) = c # decode_segment s"
proof -
  let ?n = "of_char c :: nat"
  have n: "?n < 256"
    by (rule char_code)
  consider "unreserved c" | "\<not> unreserved c" "?n < 128" | "\<not> unreserved c" "128 \<le> ?n"
    by linarith
  then show ?thesis
  proof cases
    case 1
    then have "c \<noteq> CHR ''%''"
      using unreserved_percent by blast
    then show ?thesis
      using 1 by (simp add: encode_char_def Let_def decode_other)
  next
    case 2
    then show ?thesis
      by (simp add: encode_char_def Let_def decode_percent)
  next
    case 3
    have "?n div 64 < 4"
      using n by (simp add: div_less_iff_less_mult)
    then have "(192 + ?n div 64) mod 64 = ?n div 64" "(128 + ?n mod 64) mod 64 = ?n mod 64"
      by (simp_all add: mod_add_eq [symmetric])
    then have same: "(192 + ?n div 64) mod 64 * 64 + (128 + ?n mod 64) mod 64 = ?n"
      by simp
    have small: "128 \<le> 192 + ?n div 64" "192 + ?n div 64 < 256" "128 + ?n mod 64 < 256"
      using \<open>?n div 64 < 4\<close> by simp_all
    show ?thesis
      using 3 decode_percent2 [OF small, of s] unfolding same by (simp add: encode_char_def Let_def)
  qed
qed

lemma decode_encode: "decode_segment (encodeURIComponent s) = s"
proof (induction s)
  case Nil
  then show ?case by (simp add: encodeURIComponent_def)
next
  case (Cons c s)
  then show ?case
    using decode_encode_char [of c "encodeURIComponent s"] by (simp add: encodeURIComponent_def)
qed

lemma hex_code: "d < 16 \<Longrightarrow> (of_char (hex_digit d) :: nat) = (if d < 10 then 48 + d else 55 + d)"
  by (simp add: hex_digit_def)

definition separator :: "char \<Rightarrow> bool" where
  "separator c \<longleftrightarrow> c \<in> set ''/?#''"

lemma separator_code: "separator c \<Longrightarrow> (of_char c :: nat) \<in> {47, 63, 35}"
  by (auto simp: separator_def)

lemma hex_no_separator: "d < 16 \<Longrightarrow> \<not> separator (hex_digit d)"
  using hex_code [of d] by (auto dest!: separator_code split: if_splits)

lemma percent_no_separator: "b < 256 \<Longrightarrow> c \<in> set (percent b) \<Longrightarrow> \<not> separator c"
proof -
  assume b: "b < 256" and "c \<in> set (percent b)"
  then consider "c = CHR ''%''" | "c = hex_digit (b div 16)" | "c = hex_digit (b mod 16)"
    by (auto simp: percent_def)
  then show ?thesis
    by cases (use b hex_no_separator [of "b div 16"] hex_no_separator [of "b mod 16"] in \<open>auto simp: separator_def\<close>)
qed

lemma unreserved_no_separator: "unreserved c \<Longrightarrow> \<not> separator c"
  by (auto simp: unreserved_def Let_def separator_def)

lemma encode_no_separator: "c \<in> set (encodeURIComponent s) \<Longrightarrow> \<not> separator c"
proof -
  assume "c \<in> set (encodeURIComponent s)"
  then obtain x where x: "c \<in> set (encode_char x)"
    by (auto simp: encodeURIComponent_def)
  have "192 + of_char x div 64 < (256 :: nat)" "128 + of_char x mod 64 < (256 :: nat)"
    using char_code [of x] by (simp_all add: div_less_iff_less_mult less_eq_Suc_le)
  note two = percent_no_separator [OF this(1)] percent_no_separator [OF this(2)]
  consider "unreserved x" | "\<not> unreserved x" "(of_char x :: nat) < 128" | "\<not> unreserved x" "128 \<le> (of_char x :: nat)"
    by linarith
  then show ?thesis
  proof cases
    case 1
    then show ?thesis
      using x unreserved_no_separator by (simp add: encode_char_def Let_def)
  next
    case 2
    then show ?thesis
      using x percent_no_separator [of "of_char x" c] by (simp add: encode_char_def Let_def)
  next
    case 3
    then show ?thesis
      using x two by (auto simp: encode_char_def Let_def)
  qed
qed

lemma trimSlash_end: "trimSlash s \<noteq> [] \<Longrightarrow> last (trimSlash s) \<noteq> CHR ''/''"
  unfolding trimSlash_def using hd_dropWhile [of "\<lambda>c. c = CHR ''/''" "rev s"] by (simp add: last_rev)

text \<open>Different tables are posted to different paths, whatever their names are.\<close>

lemma write_path_injective: "write_path p w = write_path p w' \<Longrightarrow> qw_table w = qw_table w'"
  by (rule box_equals [OF _ decode_encode decode_encode]) (simp add: write_path_def)

lemma request_headers:
  assumes "build_request w opts = Inr rq"
  shows "(''idempotency-key'', rq_key rq) \<in> set (rq_headers rq)" "rq_body rq = wireWrite w (rq_key rq)"
    "\<not> blank (rq_key rq)"
  using assms by (auto simp: build_request_def Let_def split: if_splits option.splits sum.splits)

lemma backendSend_Inr:
  assumes "backendSend new_url pathPrefix fetchImpl opts w = Inr ack"
  shows "\<exists>url rq status. new_url (write_path pathPrefix w) = Inr url \<and> build_request w opts = Inr rq \<and>
    fetchImpl url rq = Inr \<lparr>an_ok = True, an_status = status, an_json = Inr ack\<rparr> \<and> check_response w True status ack = Inr ack"
proof -
  from assms obtain url rq res where run: "new_url (write_path pathPrefix w) = Inr url" "build_request w opts = Inr rq"
      "fetchImpl url rq = Inr res"
    and ok: "an_ok res" and checked: "\<exists>a. an_json res = Inr a \<and> check_response w True (an_status res) a = Inr ack"
    by (auto simp: backendSend_def check_response_def split: if_splits sum.splits)
  then obtain a where a: "an_json res = Inr a" "check_response w True (an_status res) a = Inr ack"
    by blast
  then have "a = ack"
    by (auto simp: check_response_def split: if_splits option.splits)
  moreover have "res = \<lparr>an_ok = True, an_status = an_status res, an_json = Inr a\<rparr>"
    using ok a(1) by simp
  ultimately show ?thesis
    using run a(2) by metis
qed

text \<open>
  C35. A write that the transport reports as committed was posted under its own
  idempotency key in header and body, to a path whose last segment holds no separator and
  decodes to its table, and the answer acknowledges its row with a version that is a
  non-negative safe integer.
\<close>
theorem backend_send_sound:
  assumes "backendSend new_url pathPrefix fetchImpl opts w = Inr ack" "qw_key w = Some k"
  shows "\<exists>url rq status segment.
    new_url (trimSlash pathPrefix @ ''/'' @ segment) = Inr url \<and>
    (\<forall>c \<in> set segment. c \<notin> set ''/?#'') \<and> decode_segment segment = qw_table w \<and>
    fetchImpl url rq = Inr \<lparr>an_ok = True, an_status = status, an_json = Inr ack\<rparr> \<and>
    (''idempotency-key'', k) \<in> set (rq_headers rq) \<and> rq_body rq = wireWrite w k \<and>
    (\<exists>v. validateAck (sync_write.truncate w) ack = Inr \<lparr>ack_id = qw_id w, ack_version = v\<rparr> \<and> 0 \<le> v \<and> i64_ok v)"
proof -
  obtain url rq status where run: "new_url (write_path pathPrefix w) = Inr url" "build_request w opts = Inr rq"
      "fetchImpl url rq = Inr \<lparr>an_ok = True, an_status = status, an_json = Inr ack\<rparr>"
    and ack: "check_response w True status ack = Inr ack"
    using backendSend_Inr [OF assms(1)] by blast
  have "(''idempotency-key'', k) \<in> set (rq_headers rq)" "rq_body rq = wireWrite w k"
    using request_headers [OF run(2)] request_key [OF run(2) assms(2)] by simp_all
  moreover have "\<forall>c \<in> set (encodeURIComponent (qw_table w)). c \<notin> set ''/?#''"
    using encode_no_separator by (auto simp: separator_def)
  moreover have "\<exists>v. validateAck (sync_write.truncate w) ack = Inr \<lparr>ack_id = qw_id w, ack_version = v\<rparr> \<and> 0 \<le> v \<and> i64_ok v"
    using accepted_response_acknowledges [OF ack] by blast
  ultimately show ?thesis
    using run decode_encode [of "qw_table w"] unfolding write_path_def by blast
qed

definition sample_fetch :: "string \<Rightarrow> request \<Rightarrow> answer res" where
  "sample_fetch url rq = Inr \<lparr>an_ok = True, an_status = 200,
     an_json = Inr (JObj [(''id'', js_field (rq_body rq) ''id''), (''committed_version'', JNum (num 4))])\<rparr>"

theorem backend_send_sound_witness:
  "\<exists>rq :: request. (''idempotency-key'', ''k1'') \<in> set (rq_headers rq) \<and> rq_body rq = wireWrite sample_write ''k1''"
proof -
  have "case backendSend Inr ''/api/customer/sync/'' sample_fetch sample_opts sample_write of Inr _ \<Rightarrow> True | _ \<Rightarrow> False"
    by code_simp
  then obtain ack where ack: "backendSend Inr ''/api/customer/sync/'' sample_fetch sample_opts sample_write = Inr ack"
    by (auto split: sum.splits)
  have "qw_key sample_write = Some ''k1''"
    by (simp add: sample_write_def)
  from backend_send_sound [OF ack this] show ?thesis
    by blast
qed

end
