(* ===== verification/Stream.thy ===== *)
theory Stream
  imports Decode
begin

text \<open>
  The read side of the backend transport (backend.mjs, \<open>connectBackend\<close>): the choice of
  authentication, the URLs, and the state machine of socket, event source, reconnect timer
  and pending token. The browser's part is the sequence of events; what it promises about
  their order is the enabling condition of each. Status callbacks return. Backoff times are
  exact rationals.
\<close>

section \<open>Configuration\<close>

datatype stream_auth = Cookie | Query_token

text \<open>\<^verbatim>\<open>streamAuth ?? (getToken ? null : "cookie")\<close> and the three refusals.\<close>

definition stream_auth_mode :: "jsval \<Rightarrow> bool \<Rightarrow> stream_auth res" where
  "stream_auth_mode streamAuth has_token =
     (let authMode = coalesce streamAuth (if has_token then JNull else JStr ''cookie'') in
      if authMode = JNull
      then Inl (Err ''getToken cannot be placed in a browser WS/SSE header'')
      else if authMode \<noteq> JStr ''cookie'' \<and> authMode \<noteq> JStr ''query-token''
      then Inl (JsErrorAt ''Error'' ''unsupported backend streamAuth mode: '' authMode)
      else if authMode = JStr ''query-token'' \<and> \<not> has_token
      then Inl (Err ''streamAuth query-token requires getToken'')
      else Inr (if authMode = JStr ''cookie'' then Cookie else Query_token))"

text \<open>A parsed URL, as far as the transport reads and writes it.\<close>

record url =
  u_protocol :: string
  u_username :: string
  u_password :: string
  u_rest :: string
  u_params :: "(string \<times> string) list"

text \<open>\<^verbatim>\<open>searchParams.set\<close>: the first entry of the name is replaced and the others go.\<close>

fun set_param :: "string \<Rightarrow> string \<Rightarrow> (string \<times> string) list \<Rightarrow> (string \<times> string) list" where
  "set_param k v [] = [(k, v)]"
| "set_param k v ((k', v') # ps) =
     (if k' = k then (k, v) # filter (\<lambda>p. fst p \<noteq> k) ps else (k', v') # set_param k v ps)"

definition has_param :: "string \<Rightarrow> url \<Rightarrow> bool" where
  "has_param k u \<longleftrightarrow> k \<in> fst ` set (u_params u)"

definition withToken :: "url \<Rightarrow> string option \<Rightarrow> url" where
  "withToken u token =
     (case token of None \<Rightarrow> u
      | Some t \<Rightarrow> if t = [] then u else u\<lparr>u_params := set_param ''access_token'' t (u_params u)\<rparr>)"

text \<open>
  \<open>sc_parse\<close> is \<^verbatim>\<open>new URL(path, baseUrl)\<close>. \<open>sc_ws\<close> is absent where there is no \<^verbatim>\<open>WebSocket\<close>; its
  constructor may throw. An \<^verbatim>\<open>EventSource\<close> for a URL that parsed is constructed.
\<close>

record stream_config =
  sc_parse :: "string \<Rightarrow> url res"
  sc_ws_path :: string
  sc_sse_path :: string
  sc_auth :: stream_auth
  sc_reconnect :: bool
  sc_base_backoff :: rat
  sc_max_backoff :: rat
  sc_ws :: "(url \<Rightarrow> js_error option) option"
  sc_es :: bool
  sc_json :: "string \<Rightarrow> jsval option"

section \<open>State and outputs\<close>

datatype conn_status = St_open | St_reconnecting | St_sse | St_closed | St_auth_error | St_transport_error

datatype stream_out =
    Status conn_status "js_error option"
  | Socket_opened url
  | Source_opened url bool
  | Delivered "change_event list"
  | Timer_set rat
  | Timer_cleared
  | Close_called
  | Token_requested

datatype waiting = Wait_ws url | Wait_sse

text \<open>
  \<open>st_timer\<close> holds while the timer is pending, \<open>st_waiting\<close> lists the token requests whose
  answer is outstanding.
\<close>

record stream =
  st_socket :: bool
  st_source :: bool
  st_timer :: bool
  st_waiting :: "waiting list"
  st_attempts :: nat
  st_stopped :: bool
  st_out :: "stream_out list"

definition emit_out :: "stream_out \<Rightarrow> stream \<Rightarrow> stream" where
  "emit_out x st = st\<lparr>st_out := st_out st @ [x]\<rparr>"

definition report :: "conn_status \<Rightarrow> js_error option \<Rightarrow> stream \<Rightarrow> stream" where
  "report s e = emit_out (Status s e)"

definition deliver_frame :: "stream_config \<Rightarrow> jsval \<Rightarrow> stream \<Rightarrow> stream" where
  "deliver_frame sc data st =
     (let changes = decodeBackendMessage (sc_json sc) data
      in if changes = [] then st else emit_out (Delivered changes) st)"

definition streamUrl :: "stream_config \<Rightarrow> string \<Rightarrow> url res" where
  "streamUrl sc path =
     (case sc_parse sc path of
        Inl e \<Rightarrow> Inl e
      | Inr u \<Rightarrow>
          if u_username u \<noteq> [] \<or> u_password u \<noteq> []
          then Inl (Err ''backend stream URL must not contain credentials'')
          else if has_param ''access_token'' u \<and> sc_auth sc \<noteq> Query_token
          then Inl (Err ''backend stream URL contains access_token without streamAuth query-token'')
          else Inr u)"

section \<open>Opening connections\<close>

text \<open>\<^verbatim>\<open>withStreamAuth(fn)\<close>: at once without a token, or after the answer of the provider.\<close>

definition withStreamAuth :: "stream_config \<Rightarrow> waiting \<Rightarrow> (string option \<Rightarrow> stream \<Rightarrow> stream) \<Rightarrow> stream \<Rightarrow> stream" where
  "withStreamAuth sc w fn st =
     (if sc_auth sc = Query_token
      then emit_out Token_requested (st\<lparr>st_waiting := st_waiting st @ [w]\<rparr>)
      else fn None st)"

definition open_sse :: "stream_config \<Rightarrow> string option \<Rightarrow> stream \<Rightarrow> stream" where
  "open_sse sc token st =
     (if st_source st \<or> st_stopped st then st
      else case streamUrl sc (sc_sse_path sc) of
        Inl e \<Rightarrow> report St_auth_error (Some e) st
      | Inr u \<Rightarrow> report St_sse None
          (emit_out (Source_opened (withToken u token) (sc_auth sc = Cookie)) (st\<lparr>st_source := True\<rparr>)))"

definition startSse :: "stream_config \<Rightarrow> stream \<Rightarrow> stream" where
  "startSse sc st =
     (if st_source st \<or> st_stopped st then st
      else if \<not> sc_es sc
      then report St_closed None
        (report St_transport_error (Some (Err ''neither WebSocket nor EventSource is available'')) st)
      else withStreamAuth sc Wait_sse (open_sse sc) st)"

definition scheduleReconnect :: "stream_config \<Rightarrow> rat \<Rightarrow> stream \<Rightarrow> stream" where
  "scheduleReconnect sc random st =
     (if st_stopped st \<or> \<not> sc_reconnect sc then report St_closed None st
      else
        let st1 = report St_reconnecting None st;
            backoff = min (sc_max_backoff sc) (sc_base_backoff sc * 2 ^ st_attempts st);
            jitter = backoff * (1 / 5) * random
        in emit_out (Timer_set (backoff + jitter)) (st1\<lparr>st_attempts := st_attempts st + 1, st_timer := True\<rparr>))"

definition ws_url :: "stream_config \<Rightarrow> url res" where
  "ws_url sc =
     (case streamUrl sc (sc_ws_path sc) of
        Inl e \<Rightarrow> Inl e
      | Inr u \<Rightarrow>
          if u_protocol u = ''https:'' then Inr (u\<lparr>u_protocol := ''wss:''\<rparr>)
          else if u_protocol u = ''http:'' then Inr (u\<lparr>u_protocol := ''ws:''\<rparr>)
          else if u_protocol u \<noteq> ''ws:'' \<and> u_protocol u \<noteq> ''wss:''
          then Inl (JsErrorAt ''Error'' ''unsupported backend WebSocket protocol: '' (JStr (u_protocol u)))
          else Inr u)"

definition open_ws :: "stream_config \<Rightarrow> url \<Rightarrow> string option \<Rightarrow> stream \<Rightarrow> stream" where
  "open_ws sc u token st =
     (if st_stopped st then st
      else case sc_ws sc of
        None \<Rightarrow> st
      | Some build \<Rightarrow>
          (case build (withToken u token) of
             Some e \<Rightarrow> startSse sc (report St_transport_error (Some e) st)
           | None \<Rightarrow> emit_out (Socket_opened (withToken u token)) (st\<lparr>st_socket := True\<rparr>)))"

definition connectWs :: "stream_config \<Rightarrow> stream \<Rightarrow> stream" where
  "connectWs sc st =
     (if st_stopped st then st
      else if sc_ws sc = None then startSse sc st
      else case ws_url sc of
        Inl e \<Rightarrow> report St_auth_error (Some e) st
      | Inr u \<Rightarrow> withStreamAuth sc (Wait_ws u) (open_ws sc u) st)"

section \<open>Events\<close>

datatype stream_event =
    Timer_fires
  | Token_answer "jsval res"
  | Ws_open
  | Ws_message jsval
  | Ws_error "js_error option"
  | Ws_closed rat
  | Sse_message jsval
  | Sse_error "js_error option"
  | Stop

text \<open>\<open>tokenForUrl\<close>: the token, or the error it reports.\<close>

definition tokenForUrl :: "jsval res \<Rightarrow> string res" where
  "tokenForUrl answer =
     (case answer of
        Inl e \<Rightarrow> Inl e
      | Inr (JStr t) \<Rightarrow> if blank t then Inl (Err ''stream token provider returned no token'') else Inr t
      | Inr _ \<Rightarrow> Inl (Err ''stream token provider returned no token''))"

definition resume :: "stream_config \<Rightarrow> waiting \<Rightarrow> string \<Rightarrow> stream \<Rightarrow> stream" where
  "resume sc w token =
     (case w of Wait_ws u \<Rightarrow> open_ws sc u (Some token) | Wait_sse \<Rightarrow> open_sse sc (Some token))"

definition stop :: "stream \<Rightarrow> stream" where
  "stop st =
     (let st1 = st\<lparr>st_stopped := True, st_timer := False\<rparr>;
          st2 = (if st_timer st then emit_out Timer_cleared st1 else st1);
          st3 = (if st_socket st then emit_out Close_called st2 else st2);
          st4 = (if st_source st then emit_out Close_called st3 else st3)
      in report St_closed None st4)"

fun stream_step :: "stream_config \<Rightarrow> stream_event \<Rightarrow> stream \<Rightarrow> stream" where
  "stream_step sc Timer_fires st = connectWs sc (st\<lparr>st_timer := False\<rparr>)"
| "stream_step sc (Token_answer answer) st =
     (case st_waiting st of
        [] \<Rightarrow> st
      | w # ws \<Rightarrow>
          (case tokenForUrl answer of
             Inl e \<Rightarrow> report St_auth_error (Some e) (st\<lparr>st_waiting := ws\<rparr>)
           | Inr t \<Rightarrow> resume sc w t (st\<lparr>st_waiting := ws\<rparr>)))"
| "stream_step sc Ws_open st = report St_open None (st\<lparr>st_attempts := 0\<rparr>)"
| "stream_step sc (Ws_message d) st = deliver_frame sc d st"
| "stream_step sc (Ws_error e) st =
     report St_transport_error (Some (case e of Some x \<Rightarrow> x | None \<Rightarrow> Err ''backend WebSocket failed'')) st"
| "stream_step sc (Ws_closed random) st = scheduleReconnect sc random (st\<lparr>st_socket := False\<rparr>)"
| "stream_step sc (Sse_message d) st = deliver_frame sc d st"
| "stream_step sc (Sse_error e) st =
     report St_transport_error (Some (case e of Some x \<Rightarrow> x | None \<Rightarrow> Err ''backend SSE stream failed'')) st"
| "stream_step sc Stop st = stop st"

text \<open>
  When the browser can raise an event: a pending timer fires, an outstanding request is
  answered, a socket or source that is not closed opens, delivers or fails, a socket closes,
  after \<^verbatim>\<open>close()\<close> too. \<^verbatim>\<open>Math.random()\<close> lies between 0 and 1.
\<close>

fun stream_enabled :: "stream_event \<Rightarrow> stream \<Rightarrow> bool" where
  "stream_enabled Timer_fires st = st_timer st"
| "stream_enabled (Token_answer _) st = (st_waiting st \<noteq> [])"
| "stream_enabled Ws_open st = (st_socket st \<and> \<not> st_stopped st)"
| "stream_enabled (Ws_message _) st = (st_socket st \<and> \<not> st_stopped st)"
| "stream_enabled (Ws_error _) st = st_socket st"
| "stream_enabled (Ws_closed random) st = (st_socket st \<and> 0 \<le> random \<and> random < 1)"
| "stream_enabled (Sse_message _) st = (st_source st \<and> \<not> st_stopped st)"
| "stream_enabled (Sse_error _) st = (st_source st \<and> \<not> st_stopped st)"
| "stream_enabled Stop st = True"

definition stream_init :: stream where
  "stream_init = \<lparr>st_socket = False, st_source = False, st_timer = False, st_waiting = [], st_attempts = 0,
     st_stopped = False, st_out = []\<rparr>"

inductive stream_reach :: "stream_config \<Rightarrow> stream \<Rightarrow> bool" for sc where
  connect: "stream_reach sc (connectWs sc stream_init)"
| step: "stream_reach sc st \<Longrightarrow> stream_enabled ev st \<Longrightarrow> stream_reach sc (stream_step sc ev st)"


inductive stream_run :: "stream_config \<Rightarrow> stream \<Rightarrow> stream \<Rightarrow> bool" for sc st where
  here: "stream_run sc st st"
| onward: "stream_run sc st st1 \<Longrightarrow> stream_enabled ev st1 \<Longrightarrow> stream_run sc st (stream_step sc ev st1)"

section \<open>One connection at a time\<close>

text \<open>The activities that can still bring about a connection or a delivery.\<close>

definition activities :: "stream \<Rightarrow> nat" where
  "activities st = (if st_socket st then 1 else 0) + (if st_source st then 1 else 0) +
     (if st_timer st then 1 else 0) + length (st_waiting st)"

text \<open>What an idle stream has last told the application.\<close>

definition gave_up :: "stream \<Rightarrow> bool" where
  "gave_up st \<longleftrightarrow> (\<exists>s e. st_out st \<noteq> [] \<and> last (st_out st) = Status s e \<and> s \<in> {St_auth_error, St_closed})"

definition stream_ok :: "stream \<Rightarrow> bool" where
  "stream_ok st \<longleftrightarrow> activities st \<le> 1 \<and> (st_stopped st \<longrightarrow> \<not> st_timer st) \<and>
     (activities st = 0 \<and> \<not> st_stopped st \<longrightarrow> gave_up st)"

lemma emit_out_sel [simp]:
  "st_socket (emit_out x st) = st_socket st" "st_source (emit_out x st) = st_source st"
  "st_timer (emit_out x st) = st_timer st" "st_waiting (emit_out x st) = st_waiting st"
  "st_attempts (emit_out x st) = st_attempts st" "st_stopped (emit_out x st) = st_stopped st"
  "st_out (emit_out x st) = st_out st @ [x]"
  by (simp_all add: emit_out_def)

lemma report_sel [simp]:
  "st_socket (report x e st) = st_socket st" "st_source (report x e st) = st_source st"
  "st_timer (report x e st) = st_timer st" "st_waiting (report x e st) = st_waiting st"
  "st_attempts (report x e st) = st_attempts st" "st_stopped (report x e st) = st_stopped st"
  "st_out (report x e st) = st_out st @ [Status x e]"
  by (simp_all add: report_def)

lemma activities_emit [simp]: "activities (emit_out x st) = activities st" "activities (report s e st) = activities st"
  by (simp_all add: activities_def)

lemmas stream_ok_defs = stream_ok_def activities_def gave_up_def

text \<open>An idle stream that opens something ends with one activity, or gives up aloud.\<close>

definition idle :: "stream \<Rightarrow> bool" where
  "idle st \<longleftrightarrow> activities st = 0"

lemma idle_sel: "idle st \<longleftrightarrow> \<not> st_socket st \<and> \<not> st_source st \<and> \<not> st_timer st \<and> st_waiting st = []"
  by (auto simp: idle_def activities_def)

lemma idle_emit [simp]: "idle (emit_out x st) = idle st" "idle (report s e st) = idle st"
  by (simp_all add: idle_def)

lemma idle_ok:
  "idle st \<Longrightarrow> st_stopped st \<Longrightarrow> stream_ok st"
  "idle st \<Longrightarrow> s \<in> {St_auth_error, St_closed} \<Longrightarrow> stream_ok (report s e st)"
  "idle st \<Longrightarrow> stream_ok (emit_out x (st\<lparr>st_socket := True\<rparr>))"
  "idle st \<Longrightarrow> stream_ok (report s e (emit_out x (st\<lparr>st_source := True\<rparr>)))"
  "idle st \<Longrightarrow> stream_ok (emit_out x (st\<lparr>st_waiting := [w]\<rparr>))"
  "idle st \<Longrightarrow> \<not> st_stopped st \<Longrightarrow> stream_ok (emit_out x (st\<lparr>st_attempts := n, st_timer := True\<rparr>))"
  by (auto simp: stream_ok_defs idle_sel)

lemma idle_waiting: "idle st \<Longrightarrow> st_waiting st = []" "idle st \<Longrightarrow> \<not> st_source st"
  by (simp_all add: idle_sel)

lemma open_sse_ok: "idle st \<Longrightarrow> stream_ok (open_sse sc token st)"
  by (auto simp: open_sse_def idle_ok idle_waiting split: sum.split)

lemma startSse_ok: "idle st \<Longrightarrow> stream_ok (startSse sc st)"
  by (auto simp: startSse_def withStreamAuth_def idle_ok open_sse_ok idle_waiting)

lemma open_ws_ok: "idle st \<Longrightarrow> sc_ws sc \<noteq> None \<Longrightarrow> stream_ok (open_ws sc u token st)"
  by (auto simp: open_ws_def idle_ok startSse_ok split: option.split)

lemma connectWs_ok: "idle st \<Longrightarrow> stream_ok (connectWs sc st)"
  by (auto simp: connectWs_def withStreamAuth_def idle_ok startSse_ok open_ws_ok idle_waiting split: sum.split)


text \<open>
  What is waited for: a token in query mode only, and a socket only where there are sockets,
  at the stream's URL.
\<close>

definition waiting_ok :: "stream_config \<Rightarrow> stream \<Rightarrow> bool" where
  "waiting_ok sc st \<longleftrightarrow> (\<forall>u. Wait_ws u \<in> set (st_waiting st) \<longrightarrow> sc_ws sc \<noteq> None \<and> ws_url sc = Inr u) \<and>
     (sc_auth sc = Cookie \<longrightarrow> st_waiting st = [])"

lemma waiting_ok_emit [simp]:
  "waiting_ok sc (emit_out x st) = waiting_ok sc st" "waiting_ok sc (report s e st) = waiting_ok sc st"
  by (simp_all add: waiting_ok_def)

lemma waiting_ok_update [simp]:
  "waiting_ok sc (st\<lparr>st_socket := a\<rparr>) = waiting_ok sc st" "waiting_ok sc (st\<lparr>st_source := a\<rparr>) = waiting_ok sc st"
  "waiting_ok sc (st\<lparr>st_timer := a\<rparr>) = waiting_ok sc st" "waiting_ok sc (st\<lparr>st_attempts := n\<rparr>) = waiting_ok sc st"
  "waiting_ok sc (st\<lparr>st_stopped := a\<rparr>) = waiting_ok sc st"
  "waiting_ok sc (st\<lparr>st_waiting := st_waiting st @ [Wait_sse]\<rparr>) \<longleftrightarrow> waiting_ok sc st \<and> sc_auth sc = Query_token"
  by (cases "sc_auth sc"; force simp: waiting_ok_def)+

lemma waiting_ok_deliver_frame [simp]: "waiting_ok sc (deliver_frame sc' d st) = waiting_ok sc st"
  by (simp add: deliver_frame_def Let_def)

lemma startSse_waiting: "waiting_ok sc st \<Longrightarrow> waiting_ok sc (startSse sc st)"
  by (auto simp: startSse_def withStreamAuth_def open_sse_def split: sum.split)

lemma open_ws_waiting: "waiting_ok sc st \<Longrightarrow> waiting_ok sc (open_ws sc u token st)"
  by (auto simp: open_ws_def startSse_waiting split: option.split)

lemma connectWs_waiting: "waiting_ok sc st \<Longrightarrow> waiting_ok sc (connectWs sc st)"
  by (auto simp: connectWs_def withStreamAuth_def open_ws_waiting startSse_waiting split: sum.split)
    (auto simp: waiting_ok_def)

lemma step_waiting:
  assumes "waiting_ok sc st" shows "waiting_ok sc (stream_step sc ev st)"
proof (cases ev)
  case (Token_answer answer)
  have "waiting_ok sc (st\<lparr>st_waiting := tl (st_waiting st)\<rparr>)"
    using assms by (cases "st_waiting st") (auto simp: waiting_ok_def)
  then show ?thesis
    using Token_answer assms
    by (auto simp: resume_def open_ws_waiting open_sse_def split: list.split sum.split waiting.split)
qed (use assms in \<open>auto simp: connectWs_waiting scheduleReconnect_def stop_def Let_def\<close>)

lemma deliver_frame_ok [simp]: "stream_ok (deliver_frame sc d st) \<longleftrightarrow> stream_ok st" if "\<not> idle st" for st
  using that by (auto simp: deliver_frame_def Let_def stream_ok_def idle_def)

lemma report_busy [simp]: "\<not> idle st \<Longrightarrow> stream_ok (report s e st) \<longleftrightarrow> stream_ok st"
  by (auto simp: stream_ok_def idle_def)

lemma stop_ok: "stream_ok st \<Longrightarrow> stream_ok (stop st)"
  by (auto simp: stop_def Let_def stream_ok_defs)

lemma resume_ok:
  "idle st \<Longrightarrow> sc_ws sc \<noteq> None \<or> w = Wait_sse \<Longrightarrow> stream_ok (resume sc w t st)"
  by (cases w) (auto simp: resume_def open_ws_ok open_sse_ok)

lemma reconnect_ok: "idle st \<Longrightarrow> stream_ok (scheduleReconnect sc random st)"
  by (auto simp: scheduleReconnect_def Let_def idle_ok)

lemma freed_idle:
  assumes "stream_ok st"
  shows "st_timer st \<Longrightarrow> idle (st\<lparr>st_timer := False\<rparr>)" "st_socket st \<Longrightarrow> idle (st\<lparr>st_socket := False\<rparr>)"
    "st_waiting st = w # ws \<Longrightarrow> idle (st\<lparr>st_waiting := ws\<rparr>)"
proof -
  have "activities st \<le> 1"
    using assms by (simp add: stream_ok_def)
  then show "st_timer st \<Longrightarrow> idle (st\<lparr>st_timer := False\<rparr>)" "st_socket st \<Longrightarrow> idle (st\<lparr>st_socket := False\<rparr>)"
    "st_waiting st = w # ws \<Longrightarrow> idle (st\<lparr>st_waiting := ws\<rparr>)"
    by (simp_all add: idle_sel activities_def split: if_splits)
qed

lemma step_ok:
  assumes "stream_ok st" "waiting_ok sc st" "stream_enabled ev st"
  shows "stream_ok (stream_step sc ev st)"
proof (cases ev)
  case Timer_fires
  then have "idle (st\<lparr>st_timer := False\<rparr>)"
    using assms(1,3) freed_idle(1) by simp
  then show ?thesis
    using Timer_fires by (simp add: connectWs_ok)
next
  case (Token_answer answer)
  then obtain w ws where w: "st_waiting st = w # ws"
    using assms(3) by (cases "st_waiting st") auto
  then have "idle (st\<lparr>st_waiting := ws\<rparr>)"
    using assms(1) freed_idle(3) by blast
  moreover have "sc_ws sc \<noteq> None \<or> w = Wait_sse"
    using assms(2) w by (cases w) (auto simp: waiting_ok_def)
  ultimately show ?thesis
    using Token_answer w by (auto simp: idle_ok resume_ok split: sum.split)
next
  case (Ws_closed random)
  then have "idle (st\<lparr>st_socket := False\<rparr>)"
    using assms(1,3) freed_idle(2) by simp
  then show ?thesis
    using Ws_closed by (simp add: reconnect_ok)
next
  case Ws_open
  then have "stream_ok (st\<lparr>st_attempts := 0\<rparr>)" "\<not> idle (st\<lparr>st_attempts := 0\<rparr>)"
    using assms(1,3) by (simp_all add: stream_ok_defs idle_sel)
  then show ?thesis
    using Ws_open by simp
qed (use assms(1,3) in \<open>auto simp: stop_ok idle_sel\<close>)

lemma reach_ok: "stream_reach sc st \<Longrightarrow> stream_ok st \<and> waiting_ok sc st"
proof (induction rule: stream_reach.induct)
  case connect
  have "idle stream_init"
    by (simp add: stream_init_def idle_sel)
  moreover have "waiting_ok sc stream_init"
    by (simp add: stream_init_def waiting_ok_def)
  ultimately show ?case
    by (simp add: connectWs_ok connectWs_waiting)
next
  case (step st ev)
  then show ?case
    by (simp add: step_ok step_waiting)
qed


section \<open>What a step emits\<close>

definition emits :: "(stream_out \<Rightarrow> bool) \<Rightarrow> stream \<Rightarrow> stream \<Rightarrow> bool" where
  "emits P st st' \<longleftrightarrow> (\<exists>xs. st_out st' = st_out st @ xs \<and> list_all P xs)"

lemma emits_refl [simp]: "emits P st st"
  by (simp add: emits_def)

lemma emits_trans: "emits P st st1 \<Longrightarrow> emits P st1 st2 \<Longrightarrow> emits P st st2"
  by (auto simp: emits_def)

lemma emits_emit: "emits P st st' \<Longrightarrow> P x \<Longrightarrow> emits P st (emit_out x st')"
  by (auto simp: emits_def)

lemma emits_report: "emits P st st' \<Longrightarrow> P (Status s e) \<Longrightarrow> emits P st (report s e st')"
  by (auto simp: emits_def)

lemma emits_update [simp]:
  "emits P st (st'\<lparr>st_socket := a\<rparr>) = emits P st st'" "emits P st (st'\<lparr>st_source := a\<rparr>) = emits P st st'"
  "emits P st (st'\<lparr>st_timer := a\<rparr>) = emits P st st'" "emits P st (st'\<lparr>st_waiting := ws\<rparr>) = emits P st st'"
  "emits P st (st'\<lparr>st_attempts := n\<rparr>) = emits P st st'" "emits P st (st'\<lparr>st_stopped := a\<rparr>) = emits P st st'"
  by (simp_all add: emits_def)

lemmas emits_intros = emits_emit emits_report

text \<open>After \<open>stop\<close> only statuses and close calls are emitted.\<close>

fun silent :: "stream_out \<Rightarrow> bool" where
  "silent (Status _ _) = True"
| "silent Close_called = True"
| "silent Timer_cleared = True"
| "silent _ = False"

lemma stopped_step:
  assumes "st_stopped st" "\<not> st_timer st" "stream_enabled ev st"
  shows "st_stopped (stream_step sc ev st) \<and> \<not> st_timer (stream_step sc ev st) \<and> emits silent st (stream_step sc ev st)"
  using assms
  by (cases ev)
    (auto simp: scheduleReconnect_def stop_def Let_def resume_def open_ws_def open_sse_def
      intro!: emits_intros split: list.split sum.split waiting.split)

text \<open>What may be opened and how long may be waited.\<close>

definition opened_ok :: "stream_config \<Rightarrow> url \<Rightarrow> bool" where
  "opened_ok sc u \<longleftrightarrow> u_username u = [] \<and> u_password u = [] \<and>
     (case sc_auth sc of
        Cookie \<Rightarrow> \<not> has_param ''access_token'' u
      | Query_token \<Rightarrow>
          (case filter (\<lambda>p. fst p = ''access_token'') (u_params u) of [p] \<Rightarrow> \<not> blank (snd p) | _ \<Rightarrow> False))"

definition backoff_ok :: "stream_config \<Rightarrow> rat \<Rightarrow> bool" where
  "backoff_ok sc d \<longleftrightarrow> min (sc_max_backoff sc) (sc_base_backoff sc) \<le> d \<and> d < sc_max_backoff sc * (6 / 5)"

fun out_ok :: "stream_config \<Rightarrow> stream_out \<Rightarrow> bool" where
  "out_ok sc (Socket_opened u) = (opened_ok sc u \<and> u_protocol u \<in> {''ws:'', ''wss:''})"
| "out_ok sc (Source_opened u cookies) = (opened_ok sc u \<and> cookies = (sc_auth sc = Cookie))"
| "out_ok sc (Timer_set d) = backoff_ok sc d"
| "out_ok sc (Delivered changes) = (changes \<noteq> [] \<and> (\<forall>c \<in> set changes. \<exists>v. isChangeEvent v \<and> c = event_of v))"
| "out_ok sc _ = True"

lemma filter_set_param: "filter (\<lambda>p. fst p = k) (set_param k v ps) = [(k, v)]"
proof (induction ps)
  case Nil
  then show ?case by simp
next
  case (Cons p ps)
  then show ?case
    by (cases p) (simp add: filter_empty_conv)
qed

lemma blank_Nil [simp]: "blank []"
  by (simp add: blank_def)

lemma streamUrl_ok:
  assumes "streamUrl sc path = Inr u"
  shows "u_username u = [] \<and> u_password u = [] \<and> (sc_auth sc = Cookie \<longrightarrow> \<not> has_param ''access_token'' u)"
  using assms by (auto simp: streamUrl_def split: sum.splits if_splits)

text \<open>The token goes with the query mode, and only with it.\<close>

definition token_ok :: "stream_config \<Rightarrow> string option \<Rightarrow> bool" where
  "token_ok sc token \<longleftrightarrow> (case sc_auth sc of Cookie \<Rightarrow> token = None | Query_token \<Rightarrow> (\<exists>t. token = Some t \<and> \<not> blank t))"

lemma withToken_ok:
  assumes "u_username u = [] \<and> u_password u = [] \<and> (sc_auth sc = Cookie \<longrightarrow> \<not> has_param ''access_token'' u)"
    and "token_ok sc token"
  shows "opened_ok sc (withToken u token) \<and> u_protocol (withToken u token) = u_protocol u"
  using assms filter_set_param
  by (cases "sc_auth sc") (auto simp: opened_ok_def token_ok_def withToken_def)

lemma ws_url_ok:
  assumes "ws_url sc = Inr u"
  shows "u_username u = [] \<and> u_password u = [] \<and> (sc_auth sc = Cookie \<longrightarrow> \<not> has_param ''access_token'' u) \<and>
    u_protocol u \<in> {''ws:'', ''wss:''}"
  using assms streamUrl_ok
  by (fastforce simp: ws_url_def has_param_def split: sum.splits if_splits)

lemma open_sse_emits: "token_ok sc token \<Longrightarrow> emits (out_ok sc) st (open_sse sc token st)"
  using withToken_ok streamUrl_ok
  by (auto simp: open_sse_def intro!: emits_intros split: sum.split)

lemma cookie_token: "sc_auth sc \<noteq> Query_token \<Longrightarrow> token_ok sc None"
  by (cases "sc_auth sc") (simp_all add: token_ok_def)

lemma startSse_emits: "emits (out_ok sc) st (startSse sc st)"
  by (auto simp: startSse_def withStreamAuth_def open_sse_emits cookie_token intro!: emits_intros)

lemma open_ws_emits:
  assumes "token_ok sc token" "ws_url sc = Inr u"
  shows "emits (out_ok sc) st (open_ws sc u token st)"
proof -
  have "emits (out_ok sc) st (startSse sc (report St_transport_error e st))" for e
    by (rule emits_trans [OF _ startSse_emits]) (auto intro!: emits_intros)
  then show ?thesis
    using withToken_ok [of u sc token] ws_url_ok [OF assms(2)] assms(1)
    by (auto simp: open_ws_def intro!: emits_intros split: option.split)
qed

lemma connectWs_emits: "emits (out_ok sc) st (connectWs sc st)"
  by (auto simp: connectWs_def withStreamAuth_def startSse_emits open_ws_emits cookie_token
      intro!: emits_intros split: sum.split)

lemma deliver_frame_emits: "emits (out_ok sc) st (deliver_frame sc d st)"
  using decodeBackend_versions
  by (auto simp: deliver_frame_def Let_def intro!: emits_intros)

lemma backoff_bounds:
  fixes b m r :: rat and n :: nat
  assumes "0 < b" "0 < m" "0 \<le> r" "r < 1"
  defines "w \<equiv> min m (b * 2 ^ n)"
  shows "min m b \<le> w + w * (1 / 5) * r \<and> w + w * (1 / 5) * r < m * (6 / 5)"
proof -
  have "b \<le> b * 2 ^ n"
    using assms(1) by simp
  then have "min m b \<le> w"
    unfolding w_def by (rule min.mono [OF order_refl])
  then have w: "min m b \<le> w" "w \<le> m" "0 < w"
    using assms(1,2) by (simp_all add: w_def)
  have "0 \<le> w * (1 / 5) * r" "w * (1 / 5) * r < w * (1 / 5)"
    using w assms(3,4) by simp_all
  with w show ?thesis by linarith
qed

lemma step_emits:
  assumes "waiting_ok sc st" "stream_enabled ev st" "0 < sc_base_backoff sc" "0 < sc_max_backoff sc"
  shows "emits (out_ok sc) st (stream_step sc ev st)"
proof (cases ev)
  case Timer_fires
  then show ?thesis
    by (simp add: emits_trans [OF _ connectWs_emits])
next
  case (Token_answer answer)
  show ?thesis
  proof (cases "st_waiting st")
    case Nil
    then show ?thesis using Token_answer by simp
  next
    case (Cons w ws)
    have q: "sc_auth sc = Query_token"
      using assms(1) Cons by (cases "sc_auth sc") (auto simp: waiting_ok_def)
    show ?thesis
    proof (cases "tokenForUrl answer")
      case (Inl e)
      then show ?thesis
        using Token_answer Cons by (auto intro!: emits_intros)
    next
      case (Inr t)
      then have t: "token_ok sc (Some t)"
        using q by (auto simp: token_ok_def tokenForUrl_def split: sum.splits jsval.splits if_splits)
      have "emits (out_ok sc) (st\<lparr>st_waiting := ws\<rparr>) (resume sc w t (st\<lparr>st_waiting := ws\<rparr>))"
        using open_ws_emits [OF t] open_sse_emits [OF t] assms(1) Cons
        by (cases w) (auto simp: resume_def waiting_ok_def)
      then show ?thesis
        using emits_trans [of "out_ok sc" st "st\<lparr>st_waiting := ws\<rparr>"] Token_answer Cons Inr by simp
    qed
  qed
next
  case (Ws_closed random)
  then show ?thesis
    using backoff_bounds [of "sc_base_backoff sc" "sc_max_backoff sc" random "st_attempts st"] assms
    by (auto simp: scheduleReconnect_def Let_def backoff_ok_def intro!: emits_intros)
qed (auto simp: deliver_frame_emits stop_def Let_def intro!: emits_intros)


section \<open>The stream\<close>

definition sample_stream :: stream_config where
  "sample_stream = \<lparr>sc_parse = (\<lambda>p. Inr \<lparr>u_protocol = ''https:'', u_username = [], u_password = [], u_rest = p, u_params = []\<rparr>),
     sc_ws_path = ''/app/ws'', sc_sse_path = ''/app/events'', sc_auth = Query_token, sc_reconnect = True,
     sc_base_backoff = 500, sc_max_backoff = 30000, sc_ws = Some (\<lambda>_. None), sc_es = True, sc_json = (\<lambda>_. None)\<rparr>"

text \<open>Connected once, lost, and waiting for the timer.\<close>

definition lost_stream :: stream where
  "lost_stream = stream_step sample_stream (Ws_closed (1 / 2))
     (stream_step sample_stream (Token_answer (Inr (JStr ''t''))) (connectWs sample_stream stream_init))"

lemma lost_reach: "stream_reach sample_stream lost_stream"
  unfolding lost_stream_def
  by (intro stream_reach.step stream_reach.connect) (code_simp, code_simp)

text \<open>
  C17. A stream never runs two connections side by side: at every moment at most one of an
  open socket, an event source, a pending reconnect timer and an outstanding token request
  exists. And it never dies silently: when none is left and the application has not stopped
  it, the last thing it reported is an authentication error or that it is closed.
\<close>
theorem stream_one_connection:
  assumes "stream_reach sc st"
  shows "activities st \<le> 1 \<and> (activities st = 0 \<and> \<not> st_stopped st \<longrightarrow>
    (\<exists>s e. st_out st \<noteq> [] \<and> last (st_out st) = Status s e \<and> s \<in> {St_auth_error, St_closed}))"
  using reach_ok [OF assms] by (simp add: stream_ok_def gave_up_def)

theorem stream_one_connection_witness:
  "activities lost_stream = 1 \<and> activities (stream_step sample_stream Timer_fires lost_stream) \<le> 1"
proof -
  have "stream_enabled Timer_fires lost_stream"
    by code_simp
  with lost_reach have "stream_reach sample_stream (stream_step sample_stream Timer_fires lost_stream)"
    by (rule stream_reach.step)
  moreover have "activities lost_stream = 1"
    by code_simp
  ultimately show ?thesis
    using stream_one_connection by blast
qed



text \<open>
  C18. With positive backoff times everything a stream does is within bounds: a URL it opens
  has no credentials, carries exactly one, non-blank token in query mode and none in cookie
  mode; a wait before reconnecting is at least the base (or the maximum, where that is
  smaller) and below 1.2 times the maximum; what it delivers is not empty and passed the
  guard.
\<close>
theorem stream_outputs:
  assumes "stream_reach sc st" "0 < sc_base_backoff sc" "0 < sc_max_backoff sc"
  shows "list_all (out_ok sc) (st_out st)"
  using assms(1)
proof (induction rule: stream_reach.induct)
  case connect
  have "emits (out_ok sc) stream_init (connectWs sc stream_init)"
    by (rule connectWs_emits)
  then show ?case
    by (auto simp: emits_def stream_init_def)
next
  case (step st ev)
  then have "emits (out_ok sc) st (stream_step sc ev st)"
    using step_emits reach_ok assms(2,3) by blast
  then show ?case
    using step.IH by (auto simp: emits_def)
qed

theorem stream_outputs_witness:
  "list_all (out_ok sample_stream) (st_out lost_stream) \<and> Timer_set 550 \<in> set (st_out lost_stream)"
proof -
  have "0 < sc_base_backoff sample_stream" "0 < sc_max_backoff sample_stream"
    by (simp_all add: sample_stream_def)
  moreover have "Timer_set 550 \<in> set (st_out lost_stream)"
    by code_simp
  ultimately show ?thesis
    using stream_outputs [OF lost_reach] by blast
qed

end
