(* ===== verification/Open_Store.thy ===== *)
theory Open_Store
  imports Idb_Store Local_Storage
begin

text \<open>
  Opening a store: the IndexedDB schema upgrade of \<open>openStore\<close> with its races against other
  tabs (store.mjs), the check of the localStorage adapter, and the choice between the two
  (local-storage.mjs, \<open>openBrowserStore\<close>).
\<close>

section \<open>The database of the origin\<close>

text \<open>
  Version 0 is a database that does not exist. \<open>si_connections\<close> counts the connections this
  page holds, \<open>si_opens\<close> the open requests it has made, \<open>si_reported\<close> the errors handed to
  \<open>onFallback\<close>.
\<close>

datatype key_path = Key_seq | Key_key | Key_id

record site =
  si_version :: nat
  si_stores :: "(string \<times> key_path) list"
  si_connections :: nat
  si_opens :: nat
  si_reported :: "js_error list"

record connection =
  cn_version :: nat
  cn_stores :: "string list"

text \<open>
  What happens around an open request: the upgrades other tabs finish before it, each by the
  tables it adds, and how an upgrade this request starts ends. A request that needs no
  upgrade is not blocked.
\<close>

datatype open_answer = Granted | Blocked | Failed js_error

record open_env =
  oe_meanwhile :: "string list list"
  oe_answer :: open_answer

definition store_options :: "string \<Rightarrow> key_path" where
  "store_options table = (if table = QUEUE_STORE then Key_seq else if table = META_STORE then Key_key else Key_id)"

text \<open>\<^verbatim>\<open>[...new Set(xs)]\<close>: the first occurrence of each element stays.\<close>

definition unique :: "'a list \<Rightarrow> 'a list" where
  "unique xs = rev (remdups (rev xs))"

definition ensure_store :: "string \<Rightarrow> (string \<times> key_path) list \<Rightarrow> (string \<times> key_path) list" where
  "ensure_store table stores =
     (if table \<in> fst ` set stores then stores else stores @ [(table, store_options table)])"

definition ensureStores :: "string list \<Rightarrow> (string \<times> key_path) list \<Rightarrow> (string \<times> key_path) list" where
  "ensureStores tables stores = fold ensure_store (unique (tables @ [QUEUE_STORE, META_STORE])) stores"

text \<open>An upgrade of another tab.\<close>

definition other_upgrade :: "string list \<Rightarrow> site \<Rightarrow> site" where
  "other_upgrade tables s = s\<lparr>si_version := si_version s + 1, si_stores := ensureStores tables (si_stores s)\<rparr>"

section \<open>Opening the database\<close>

definition version_error :: js_error where
  "version_error = JsError ''VersionError'' ''The requested version is less than the existing version.''"

definition blocked_error :: js_error where
  "blocked_error = Err ''IndexedDB upgrade is blocked by another open page''"

text \<open>
  \<open>openDatabase\<close>: without a version the request is for the current one, or for version 1 of
  a database that does not exist. An older version is refused, a newer one upgrades. A
  blocked request rejects at once, and closes its connection should it be granted later.
\<close>

definition openDatabase :: "(nat \<Rightarrow> open_env) \<Rightarrow> nat option \<Rightarrow> string list \<Rightarrow> (site, connection) op" where
  "openDatabase env version tables s0 =
     (let e = env (si_opens s0);
          s = (fold other_upgrade (oe_meanwhile e) s0)\<lparr>si_opens := si_opens s0 + 1\<rparr>;
          target = (case version of Some v \<Rightarrow> v | None \<Rightarrow> max 1 (si_version s));
          stores = (if si_version s < target then ensureStores tables (si_stores s) else si_stores s)
      in if target < si_version s then (Inl version_error, s)
         else case oe_answer e of
           Failed err \<Rightarrow> (Inl err, s)
         | answer \<Rightarrow>
             if answer = Blocked \<and> si_version s < target then (Inl blocked_error, s)
             else (Inr \<lparr>cn_version = target, cn_stores = map fst stores\<rparr>,
                   s\<lparr>si_version := target, si_stores := stores, si_connections := si_connections s + 1\<rparr>))"

definition close_db :: "(site, unit) op" where
  "close_db s = (Inr (), s\<lparr>si_connections := si_connections s - 1\<rparr>)"

definition requiredStores :: "string list \<Rightarrow> string list" where
  "requiredStores tables = unique (tables @ [QUEUE_STORE, META_STORE])"

definition missing_stores :: "string list \<Rightarrow> connection \<Rightarrow> string list" where
  "missing_stores tables c = filter (\<lambda>name. name \<notin> set (cn_stores c)) (requiredStores tables)"

fun error_name :: "js_error \<Rightarrow> string" where
  "error_name (JsError n _) = n"
| "error_name (JsErrorAt n _ _) = n"
| "error_name (JsThrown v) = (case v of JObj ps \<Rightarrow> (case js_get ps ''name'' of JStr n \<Rightarrow> n | _ \<Rightarrow> []) | _ \<Rightarrow> [])"

text \<open>The loop over the attempts.\<close>

fun upgrade_loop :: "nat \<Rightarrow> (nat \<Rightarrow> open_env) \<Rightarrow> string list \<Rightarrow> connection \<Rightarrow> (site, connection) op" where
  "upgrade_loop 0 env tables db = ret db"
| "upgrade_loop (Suc n) env tables db =
     (if missing_stores tables db = [] then ret db
      else bindE close_db (\<lambda>_.
           bindE (catchE (openDatabase env (Some (cn_version db + 1)) tables)
                   (\<lambda>error. if error_name error \<noteq> ''VersionError'' then raise error
                            else openDatabase env None tables))
             (upgrade_loop n env tables)))"

definition openStore :: "(nat \<Rightarrow> open_env) \<Rightarrow> string list \<Rightarrow> (site, connection) op" where
  "openStore env tables =
     bindE (openDatabase env None tables) (\<lambda>db0.
     bindE (upgrade_loop 8 env tables db0) (\<lambda>db.
       if missing_stores tables db \<noteq> []
       then bindE close_db (\<lambda>_. raise (JsErrorAt ''Error'' ''IndexedDB schema is missing stores: ''
              (JArr (map JStr (missing_stores tables db)))))
       else ret db))"

section \<open>Choosing a store\<close>

text \<open>
  What the injected \<open>storage\<close> is: absent for a falsy value, else whether its \<^verbatim>\<open>getItem\<close> and
  \<^verbatim>\<open>setItem\<close> are functions.
\<close>

definition openLocalStorageStore :: "(bool \<times> bool) option \<Rightarrow> 's \<Rightarrow> unit res \<times> 's" where
  "openLocalStorageStore storage s =
     (case storage of
        Some (True, True) \<Rightarrow> (Inr (), s)
      | _ \<Rightarrow> (Inl (Err ''localStorage persistence is unavailable''), s))"

datatype opened = Opened_indexeddb connection | Opened_local_storage

text \<open>\<open>onFallback\<close> is a callback of the application: the error it throws, if any.\<close>

definition report_fallback :: "(js_error \<Rightarrow> js_error option) \<Rightarrow> js_error \<Rightarrow> (site, unit) op" where
  "report_fallback onFallback error s =
     ((case onFallback error of None \<Rightarrow> Inr () | Some e \<Rightarrow> Inl e), s\<lparr>si_reported := si_reported s @ [error]\<rparr>)"

definition openBrowserStore ::
    "(nat \<Rightarrow> open_env) \<Rightarrow> string list \<Rightarrow> jsval \<Rightarrow> (bool \<times> bool) option \<Rightarrow> (js_error \<Rightarrow> js_error option) \<Rightarrow>
     (site, opened) op" where
  "openBrowserStore env tables persistence storage onFallback =
     (let mode = (if persistence = JUndef then JStr ''indexeddb'' else persistence);
          indexeddb = bindE (openStore env tables) (\<lambda>db. ret (Opened_indexeddb db));
          local = bindE (openLocalStorageStore storage) (\<lambda>_. ret Opened_local_storage)
      in if mode = JStr ''indexeddb'' then indexeddb
         else if mode = JStr ''local_storage'' then local
         else if mode \<noteq> JStr ''indexeddb_with_local_storage_fallback''
         then raise (TypeErrAt ''unsupported browser persistence mode: '' mode)
         else catchE indexeddb (\<lambda>error. bindE (report_fallback onFallback error) (\<lambda>_. local)))"


section \<open>What opening does\<close>

lemma set_unique [simp]: "set (unique xs) = set xs"
  by (simp add: unique_def)

lemma ensure_store_grows: "\<exists>xs. ensure_store t stores = stores @ xs"
  by (simp add: ensure_store_def)

lemma fold_ensure_grows: "\<exists>xs. fold ensure_store ts stores = stores @ xs"
proof (induction ts arbitrary: stores)
  case Nil
  then show ?case by simp
next
  case (Cons t ts)
  obtain xs where "ensure_store t stores = stores @ xs"
    using ensure_store_grows by blast
  with Cons.IH [of "stores @ xs"] show ?case
    by auto
qed

lemma ensure_store_names: "fst ` set (ensure_store t stores) = insert t (fst ` set stores)"
  by (auto simp: ensure_store_def)

lemma fold_ensure_names: "fst ` set (fold ensure_store ts stores) = fst ` set stores \<union> set ts"
proof (induction ts arbitrary: stores)
  case Nil
  then show ?case by simp
next
  case (Cons t ts)
  show ?case
    by (simp add: Cons.IH ensure_store_names)
qed

lemma ensureStores_names: "fst ` set (ensureStores tables stores) = fst ` set stores \<union> set (requiredStores tables)"
  by (simp add: ensureStores_def fold_ensure_names requiredStores_def)

lemma ensureStores_grows: "\<exists>xs. ensureStores tables stores = stores @ xs"
  by (simp add: ensureStores_def fold_ensure_grows)

lemma ensureStores_id: "set (requiredStores tables) \<subseteq> fst ` set stores \<Longrightarrow> ensureStores tables stores = stores"
proof -
  have "set ts \<subseteq> fst ` set stores \<Longrightarrow> fold ensure_store ts stores = stores" for ts
    by (induction ts) (simp_all add: ensure_store_def)
  then show "set (requiredStores tables) \<subseteq> fst ` set stores \<Longrightarrow> ensureStores tables stores = stores"
    by (simp only: ensureStores_def requiredStores_def)
qed

text \<open>
  How the site may change: stores are only added, the version does not fall, callbacks are
  not called. \<open>d\<close> is the change of the number of connections.
\<close>

definition site_step :: "int \<Rightarrow> site \<Rightarrow> site \<Rightarrow> bool" where
  "site_step d s s' \<longleftrightarrow> (\<exists>xs. si_stores s' = si_stores s @ xs) \<and> si_version s \<le> si_version s' \<and>
     si_reported s' = si_reported s \<and> int (si_connections s') = int (si_connections s) + d"

lemma site_step_refl [simp]: "site_step 0 s s"
  by (simp add: site_step_def)

lemma site_step_trans: "site_step a s s1 \<Longrightarrow> site_step b s1 s2 \<Longrightarrow> site_step (a + b) s s2"
  by (auto simp: site_step_def)

lemma other_upgrades: "site_step 0 s (fold other_upgrade us s) \<and> si_opens (fold other_upgrade us s) = si_opens s"
proof (induction us arbitrary: s)
  case Nil
  then show ?case by simp
next
  case (Cons u us)
  have "site_step 0 s (other_upgrade u s)"
    using ensureStores_grows [of u "si_stores s"] by (auto simp: site_step_def other_upgrade_def)
  from site_step_trans [OF this, of 0] Cons.IH [of "other_upgrade u s"] show ?case
    by (simp add: other_upgrade_def)
qed

text \<open>A connection as the database is.\<close>

definition connected :: "connection \<Rightarrow> site \<Rightarrow> bool" where
  "connected c s \<longleftrightarrow> cn_version c = si_version s \<and> cn_stores c = map fst (si_stores s)"

lemma openDatabase_step:
  assumes "openDatabase env version tables s = (r, s')"
  shows "si_opens s' = si_opens s + 1 \<and> site_step (case r of Inl _ \<Rightarrow> 0 | Inr _ \<Rightarrow> 1) s s' \<and>
    (\<forall>c. r = Inr c \<longrightarrow> connected c s')"
proof -
  let ?m = "fold other_upgrade (oe_meanwhile (env (si_opens s))) s"
  obtain xs where "si_stores ?m = si_stores s @ xs" "si_version s \<le> si_version ?m"
    "si_reported ?m = si_reported s" "si_connections ?m = si_connections s"
    using other_upgrades [of s] by (auto simp: site_step_def)
  moreover obtain ys where "ensureStores tables (si_stores ?m) = si_stores ?m @ ys"
    using ensureStores_grows by blast
  ultimately show ?thesis
    using assms
    by (auto simp: openDatabase_def Let_def connected_def site_step_def split: open_answer.splits if_splits)
qed

lemma close_step: "si_connections s > 0 \<Longrightarrow> site_step (- 1) s (snd (close_db s))"
  by (simp add: close_db_def site_step_def)

lemma retry_step:
  assumes "catchE (openDatabase env (Some v) tables)
      (\<lambda>error. if error_name error \<noteq> ''VersionError'' then raise error else openDatabase env None tables) s = (r, s')"
  shows "si_opens s' \<le> si_opens s + 2 \<and> site_step (case r of Inl _ \<Rightarrow> 0 | Inr _ \<Rightarrow> 1) s s' \<and>
    (\<forall>c. r = Inr c \<longrightarrow> connected c s')"
proof -
  obtain r1 s1 where one: "openDatabase env (Some v) tables s = (r1, s1)"
    by force
  note s1 = openDatabase_step [OF one]
  show ?thesis
  proof (cases r1)
    case (Inr c)
    then show ?thesis
      using assms one s1 by (auto simp: catchE_def)
  next
    case (Inl e)
    show ?thesis
    proof (cases "error_name e = ''VersionError''")
      case True
      then have two: "openDatabase env None tables s1 = (r, s')"
        using assms one Inl by (simp add: catchE_def)
      have "site_step (0 + (case r of Inl _ \<Rightarrow> 0 | Inr _ \<Rightarrow> 1)) s s'"
        using s1 openDatabase_step [OF two] Inl by (intro site_step_trans [of 0 s s1]) simp_all
      then show ?thesis
        using s1 openDatabase_step [OF two] by simp
    next
      case False
      then show ?thesis
        using assms one s1 Inl by (auto simp: catchE_def)
    qed
  qed
qed

lemma upgrade_loop_step:
  assumes "upgrade_loop n env tables c s = (r, s')" "connected c s" "si_connections s > 0"
  shows "si_opens s' \<le> si_opens s + 2 * n \<and> site_step (case r of Inl _ \<Rightarrow> - 1 | Inr _ \<Rightarrow> 0) s s' \<and>
    (\<forall>c'. r = Inr c' \<longrightarrow> connected c' s')"
  using assms
proof (induction n arbitrary: c s)
  case 0
  then show ?case by auto
next
  case (Suc n)
  show ?case
  proof (cases "missing_stores tables c = []")
    case True
    then show ?thesis
      using Suc.prems by auto
  next
    case False
    let ?s = "s\<lparr>si_connections := si_connections s - 1\<rparr>"
    have closed: "site_step (- 1) s ?s"
      using close_step [OF Suc.prems(3)] by (simp add: close_db_def)
    obtain r1 s1 where one: "catchE (openDatabase env (Some (cn_version c + 1)) tables)
        (\<lambda>error. if error_name error \<noteq> ''VersionError'' then raise error else openDatabase env None tables) ?s = (r1, s1)"
      by force
    note s1 = retry_step [OF one]
    show ?thesis
    proof (cases r1)
      case (Inl e)
      then have "r = Inl e" "s' = s1"
        using Suc.prems(1) False one by (auto simp: bindE_def close_db_def)
      then show ?thesis
        using site_step_trans [OF closed, of 0 s1] s1 Inl by auto
    next
      case (Inr c1)
      then have loop: "upgrade_loop n env tables c1 s1 = (r, s')"
        using Suc.prems(1) False one by (auto simp: bindE_def close_db_def)
      have s1': "connected c1 s1" "si_connections s1 > 0" "site_step 0 s s1" "si_opens s1 \<le> si_opens s + 2"
        using s1 Inr site_step_trans [OF closed, of 1 s1] by (auto simp: site_step_def)
      note rest = Suc.IH [OF loop s1'(1,2)]
      have "site_step (0 + (case r of Inl _ \<Rightarrow> - 1 | Inr _ \<Rightarrow> 0)) s s'"
        using rest s1'(3) by (intro site_step_trans [of 0 s s1]) auto
      then show ?thesis
        using rest s1'(4) by simp
    qed
  qed
qed


lemma upgrade_loop_done: "missing_stores tables c = [] \<Longrightarrow> upgrade_loop n env tables c = ret c"
  by (cases n) simp_all

text \<open>The store object works on the connection it was opened with.\<close>

definition attach :: "connection \<Rightarrow> idb \<Rightarrow> idb" where
  "attach c db = db\<lparr>db_open := True, db_names := cn_stores c\<rparr>"

lemma missing_Nil: "missing_stores tables c = [] \<longleftrightarrow> set (requiredStores tables) \<subseteq> set (cn_stores c)"
  by (auto simp: missing_stores_def filter_empty_conv)

text \<open>
  C20. However other tabs race and however the requests end, opening returns only a connection
  on which every configured table and both internal stores exist, so every operation of the
  store finds its object stores; a refused opening leaves no connection behind; no object
  store is lost, the version never falls, and at most 17 requests are made.
\<close>
theorem open_store_ready:
  assumes "openStore env tables s = (r, s')"
  shows "(\<exists>xs. si_stores s' = si_stores s @ xs) \<and> si_version s \<le> si_version s' \<and> si_opens s' \<le> si_opens s + 17 \<and>
    (case r of
       Inl _ \<Rightarrow> si_connections s' = si_connections s
     | Inr c \<Rightarrow> si_connections s' = si_connections s + 1 \<and> cn_stores c = map fst (si_stores s') \<and>
         (\<forall>db. db_faults db = [] \<longrightarrow> idb_ready tables (attach c db)))"
proof -
  obtain r0 s0 where one: "openDatabase env None tables s = (r0, s0)"
    by force
  note s0 = openDatabase_step [OF one]
  show ?thesis
  proof (cases r0)
    case (Inl e)
    then show ?thesis
      using assms one s0 by (auto simp: openStore_def bindE_def site_step_def)
  next
    case (Inr c0)
    then have c0: "connected c0 s0" "si_connections s0 > 0" "site_step 1 s s0"
      using s0 by (auto simp: site_step_def)
    obtain r1 s1 where two: "upgrade_loop 8 env tables c0 s0 = (r1, s1)"
      by force
    note s1 = upgrade_loop_step [OF two c0(1,2)]
    have all: "site_step (1 + (case r1 of Inl _ \<Rightarrow> - 1 | Inr _ \<Rightarrow> 0)) s s1"
      using s1 c0(3) by (intro site_step_trans [of 1 s s0]) auto
    show ?thesis
    proof (cases r1)
      case (Inl e)
      then show ?thesis
        using assms one two s0 s1 all Inr
        by (auto simp: openStore_def bindE_def site_step_def)
    next
      case (Inr c)
      note r1 = this
      show ?thesis
      proof (cases "missing_stores tables c = []")
        case True
        then have "r = Inr c" "s' = s1"
          using assms one two r1 \<open>r0 = Inr c0\<close> by (auto simp: openStore_def bindE_def)
        moreover have "idb_ready tables (attach c db)" if "db_faults db = []" for db
          using True that by (simp add: missing_Nil idb_ready_def attach_def requiredStores_def)
        ultimately show ?thesis
          using all s0 s1 r1 by (auto simp: site_step_def connected_def)
      next
        case False
        then obtain e where "r = Inl e" "s' = s1\<lparr>si_connections := si_connections s1 - 1\<rparr>"
          using assms one two r1 \<open>r0 = Inr c0\<close> by (auto simp: openStore_def bindE_def close_db_def raise_def)
        then show ?thesis
          using all s0 s1 r1 by (auto simp: site_step_def)
      qed
    qed
  qed
qed

definition quiet_env :: "nat \<Rightarrow> open_env" where
  "quiet_env n = \<lparr>oe_meanwhile = [], oe_answer = Granted\<rparr>"

text \<open>Other tabs add two tables of their own just before our upgrade request.\<close>

definition race_env :: "nat \<Rightarrow> open_env" where
  "race_env n = \<lparr>oe_meanwhile = (if n = 1 then [[''tags''], [''files'']] else []), oe_answer = Granted\<rparr>"

definition old_site :: site where
  "old_site = \<lparr>si_version = 1, si_stores = [(''notes'', Key_id), (QUEUE_STORE, Key_seq), (META_STORE, Key_key)],
     si_connections = 0, si_opens = 0, si_reported = []\<rparr>"

definition closed_db :: idb where
  "closed_db = \<lparr>db_open = False, db_names = [], db_rows = (\<lambda>_. []), db_queue = [], db_seq = 1, db_meta = [], db_faults = []\<rparr>"

theorem open_store_ready_witness:
  "\<exists>c s'. openStore race_env [''notes'', ''tasks''] old_site = (Inr c, s') \<and>
     si_connections s' = 1 \<and> si_opens s' = 4 \<and> cn_version c = 4 \<and>
     idb_ready [''notes'', ''tasks''] (attach c closed_db)"
proof -
  have "case openStore race_env [''notes'', ''tasks''] old_site of
      (Inr c, s') \<Rightarrow> si_connections s' = 1 \<and> si_opens s' = 4 \<and> cn_version c = 4 | _ \<Rightarrow> False"
    by code_simp
  then obtain c s' where run: "openStore race_env [''notes'', ''tasks''] old_site = (Inr c, s')"
    and facts: "si_connections s' = 1" "si_opens s' = 4" "cn_version c = 4"
    by (auto split: prod.splits sum.splits)
  have "db_faults closed_db = []"
    by (simp add: closed_db_def)
  then show ?thesis
    using open_store_ready [OF run] run facts by auto
qed

text \<open>
  C21. A page that is alone always gets its store, with at most two requests: the database
  keeps its object stores and gains exactly the missing ones, each with its key path.
\<close>
theorem open_store_alone:
  assumes "si_version s = 0 \<longrightarrow> si_stores s = []"
  shows "\<exists>c s'. openStore quiet_env tables s = (Inr c, s') \<and> si_stores s' = ensureStores tables (si_stores s) \<and>
    si_opens s' \<le> si_opens s + 2 \<and>
    si_version s' =
      (if si_version s = 0 then 1 else if set (requiredStores tables) \<subseteq> fst ` set (si_stores s)
       then si_version s else si_version s + 1)"
proof -
  let ?have = "set (requiredStores tables) \<subseteq> fst ` set (si_stores s)"
  have grant: "openDatabase quiet_env v tables x =
      (let target = (case v of Some w \<Rightarrow> w | None \<Rightarrow> max 1 (si_version x));
           stores = (if si_version x < target then ensureStores tables (si_stores x) else si_stores x)
       in if target < si_version x then (Inl version_error, x\<lparr>si_opens := si_opens x + 1\<rparr>)
          else (Inr \<lparr>cn_version = target, cn_stores = map fst stores\<rparr>,
             x\<lparr>si_opens := si_opens x + 1, si_version := target, si_stores := stores, si_connections := si_connections x + 1\<rparr>))"
    for v x
    by (auto simp: openDatabase_def quiet_env_def Let_def split: option.split)
  have present: "missing_stores tables \<lparr>cn_version = v, cn_stores = map fst stores\<rparr> = [] \<longleftrightarrow>
      set (requiredStores tables) \<subseteq> fst ` set stores" for v stores
    by (simp add: missing_Nil)
  have full: "set (requiredStores tables) \<subseteq> fst ` set (ensureStores tables stores)" for stores
    by (simp add: ensureStores_names)
  show ?thesis
  proof (cases "si_version s = 0 \<or> ?have")
    case True
    then have "missing_stores tables \<lparr>cn_version = max 1 (si_version s),
        cn_stores = map fst (if si_version s < max 1 (si_version s) then ensureStores tables (si_stores s) else si_stores s)\<rparr> = []"
      using full by (auto simp: present)
    then show ?thesis
      using True ensureStores_id [of tables "si_stores s"] full
      by (auto simp: openStore_def bindE_def grant Let_def upgrade_loop_done ret_def max_def)
  next
    case False
    let ?v = "si_version s" and ?new = "ensureStores tables (si_stores s)"
    let ?c1 = "\<lparr>cn_version = ?v, cn_stores = map fst (si_stores s)\<rparr>"
    let ?c2 = "\<lparr>cn_version = ?v + 1, cn_stores = map fst ?new\<rparr>"
    let ?s1 = "s\<lparr>si_opens := si_opens s + 1, si_connections := si_connections s + 1\<rparr>"
    let ?s2 = "s\<lparr>si_opens := si_opens s + 1\<rparr>"
    let ?s3 = "s\<lparr>si_opens := si_opens s + 2, si_version := ?v + 1, si_stores := ?new, si_connections := si_connections s + 1\<rparr>"
    have "openDatabase quiet_env None tables s = (Inr ?c1, ?s1)"
      using False by (simp add: grant max_def)
    moreover have "close_db ?s1 = (Inr (), ?s2)"
      by (simp add: close_db_def)
    moreover have two: "openDatabase quiet_env (Some (?v + 1)) tables ?s2 = (Inr ?c2, ?s3)"
      by (simp add: grant Let_def)
    moreover have "missing_stores tables ?c1 \<noteq> []" and full2: "missing_stores tables ?c2 = []"
      using False full by (simp_all only: present) simp_all
    ultimately have "upgrade_loop (Suc 7) quiet_env tables ?c1 ?s1 = (Inr ?c2, ?s3)"
      unfolding upgrade_loop.simps(2) by (simp add: bindE_def catchE_def upgrade_loop_done ret_def)
    then have "openStore quiet_env tables s = (Inr ?c2, ?s3)"
      using \<open>openDatabase quiet_env None tables s = (Inr ?c1, ?s1)\<close> full2
      by (simp add: openStore_def bindE_def ret_def del: upgrade_loop.simps)
    then show ?thesis
      using False by simp
  qed
qed


theorem open_store_alone_witness:
  "\<exists>c s'. openStore quiet_env [''notes'', ''tasks''] old_site = (Inr c, s') \<and>
     si_stores s' = si_stores old_site @ [(''tasks'', Key_id)] \<and> si_version s' = 2"
proof -
  have "ensureStores [''notes'', ''tasks''] (si_stores old_site) = si_stores old_site @ [(''tasks'', Key_id)]"
    by code_simp
  moreover have "\<not> set (requiredStores [''notes'', ''tasks'']) \<subseteq> fst ` set (si_stores old_site)"
    by code_simp
  moreover have "si_version old_site = 1"
    by (simp add: old_site_def)
  ultimately show ?thesis
    using open_store_alone [of old_site "[''notes'', ''tasks'']"] by auto
qed

text \<open>
  C22. The localStorage snapshot is never used unasked: it is opened only in the mode that names
  it, or in the fallback mode after IndexedDB has refused and the application's callback was
  told why and returned; otherwise the store is the IndexedDB one.
\<close>
theorem browser_store_choice:
  assumes "openBrowserStore env tables persistence storage onFallback s = (Inr store, s')"
  shows "case store of
      Opened_indexeddb c \<Rightarrow>
        persistence \<in> {JUndef, JStr ''indexeddb'', JStr ''indexeddb_with_local_storage_fallback''} \<and>
        openStore env tables s = (Inr c, s')
    | Opened_local_storage \<Rightarrow>
        storage = Some (True, True) \<and>
        (persistence = JStr ''local_storage'' \<and> s' = s \<or>
         persistence = JStr ''indexeddb_with_local_storage_fallback'' \<and>
         (\<exists>e s1. openStore env tables s = (Inl e, s1) \<and> onFallback e = None \<and>
            s' = s1\<lparr>si_reported := si_reported s1 @ [e]\<rparr>))"
proof -
  have idb: "openStore env tables s = (Inr c, s')" if "bindE (openStore env tables) (\<lambda>db. ret (Opened_indexeddb db)) s = (Inr store, s')"
    and "store = Opened_indexeddb c" for c
    using that by (auto simp: bindE_eq_Inr)
  have local: "storage = Some (True, True) \<and> x = x' \<and> store = Opened_local_storage"
    if "bindE (openLocalStorageStore storage) (\<lambda>_. ret Opened_local_storage) x = (Inr store, x')" for x x' :: site
    using that by (auto simp: bindE_eq_Inr openLocalStorageStore_def split: option.splits prod.splits bool.splits)
  have fallback: "(\<exists>c. store = Opened_indexeddb c \<and> openStore env tables s = (Inr c, s')) \<or>
      (\<exists>e s1. openStore env tables s = (Inl e, s1) \<and> onFallback e = None \<and>
        bindE (openLocalStorageStore storage) (\<lambda>_. ret Opened_local_storage) (s1\<lparr>si_reported := si_reported s1 @ [e]\<rparr>) =
          (Inr store, s'))"
    if "catchE (bindE (openStore env tables) (\<lambda>db. ret (Opened_indexeddb db)))
        (\<lambda>error. bindE (report_fallback onFallback error)
          (\<lambda>_. bindE (openLocalStorageStore storage) (\<lambda>_. ret Opened_local_storage))) s = (Inr store, s')"
    using that
    by (cases "openStore env tables s")
      (auto simp: catchE_def bindE_def report_fallback_def ret_def split: sum.splits option.splits)
  show ?thesis
  proof (cases "persistence = JStr ''local_storage''")
    case True
    then have "bindE (openLocalStorageStore storage) (\<lambda>_. ret Opened_local_storage) s = (Inr store, s')"
      using assms by (simp add: openBrowserStore_def Let_def)
    from local [OF this] True show ?thesis by simp
  next
    case no_local: False
    show ?thesis
    proof (cases "persistence = JStr ''indexeddb_with_local_storage_fallback''")
      case True
      then have run: "catchE (bindE (openStore env tables) (\<lambda>db. ret (Opened_indexeddb db)))
          (\<lambda>error. bindE (report_fallback onFallback error)
            (\<lambda>_. bindE (openLocalStorageStore storage) (\<lambda>_. ret Opened_local_storage))) s = (Inr store, s')"
        using assms by (simp add: openBrowserStore_def Let_def)
      from fallback [OF run] show ?thesis
        using True local by fastforce
    next
      case False
      then have mode: "persistence \<in> {JUndef, JStr ''indexeddb''}"
        and run: "bindE (openStore env tables) (\<lambda>db. ret (Opened_indexeddb db)) s = (Inr store, s')"
        using assms no_local by (auto simp: openBrowserStore_def Let_def split: if_splits)
      then obtain c where "store = Opened_indexeddb c"
        by (auto simp: bindE_eq_Inr)
      then show ?thesis
        using idb [OF run] mode by auto
    qed
  qed
qed


definition blocked_env :: "nat \<Rightarrow> open_env" where
  "blocked_env n = \<lparr>oe_meanwhile = [], oe_answer = Blocked\<rparr>"

theorem browser_store_choice_witness:
  "\<exists>e s1. openStore blocked_env [''tasks''] old_site = (Inl e, s1)"
proof -
  let ?mode = "JStr ''indexeddb_with_local_storage_fallback''"
  have "case openBrowserStore blocked_env [''tasks''] ?mode (Some (True, True)) (\<lambda>_. None) old_site of
      (Inr Opened_local_storage, _) \<Rightarrow> True | _ \<Rightarrow> False"
    by code_simp
  then obtain s' where "openBrowserStore blocked_env [''tasks''] ?mode (Some (True, True)) (\<lambda>_. None) old_site =
      (Inr Opened_local_storage, s')"
    by (auto split: prod.splits sum.splits opened.splits)
  from browser_store_choice [OF this] show ?thesis
    by auto
qed

end
