(* ===== verification/Wiring.thy ===== *)
theory Wiring
  imports Adapters Stream Open_Store
begin

text \<open>
  The session \<open>startSync\<close> runs (start.mjs): what each signal of the two transports sets going,
  the tasks themselves with their error reports, starting and stopping. A task is one
  asynchronous call into the client. Tasks overlap only while one of them waits for a
  request; since a request may let any client steps happen (its \<open>op_runs\<close> assumption), running
  the tasks one after the other loses no interleaving of steps.
\<close>

section \<open>What a session is made of\<close>

record 's wiring =
  wi_fuel :: nat
  wi_cfg :: config
  wi_api :: "'s store_api"
  wi_conv :: conv
  wi_tables :: "string list"
  wi_hydrate_fetch :: "(string \<Rightarrow> ('s client, jsval) op) option"
  wi_pull_fetch :: "'s fetcher option"
  wi_page_size :: jsval
  wi_scope :: string
  wi_prune :: bool
  wi_send :: "(queued_write \<Rightarrow> ('s client, jsval) op) option"
  wi_date :: "jsval \<Rightarrow> jsnum"
  wi_close :: "'s \<Rightarrow> 's"

datatype session_task = Task_apply change_event | Task_hydrate | Task_flush

definition add_report :: "string \<Rightarrow> js_error \<Rightarrow> 's session \<Rightarrow> 's session" where
  "add_report s e se = se\<lparr>se_reports := se_reports se @ [(s, e)]\<rparr>"

text \<open>\<open>applyIncoming\<close>, \<open>hydrateAll\<close> and \<open>flushQueued\<close>.\<close>

fun run_task :: "'s wiring \<Rightarrow> int \<Rightarrow> session_task \<Rightarrow> 's session \<Rightarrow> 's session" where
  "run_task w now (Task_apply change) se =
     (case applyChange (wi_fuel w) (wi_cfg w) (wi_api w) change now (se_client se) of
        (Inl e, c) \<Rightarrow> add_report ''apply-error'' e (se\<lparr>se_client := c\<rparr>)
      | (Inr _, c) \<Rightarrow> se\<lparr>se_client := c\<rparr>)"
| "run_task w now Task_hydrate se =
     hydrateAll (wi_fuel w) (wi_cfg w) (wi_api w) (wi_conv w) (wi_tables w) (wi_hydrate_fetch w) (wi_pull_fetch w)
       (wi_page_size w) (wi_scope w) (wi_prune w) now se"
| "run_task w now Task_flush se =
     (case wi_send w of
        None \<Rightarrow> se
      | Some send \<Rightarrow>
          (case flushQueue (wi_api w) send (\<lambda>_. None) now (se_client se) of
             (Inl e, c) \<Rightarrow> add_report ''flush-error'' e (se\<lparr>se_client := c\<rparr>)
           | (Inr _, c) \<Rightarrow> se\<lparr>se_client := c\<rparr>))"

section \<open>The transports\<close>

text \<open>
  What reaches the session: an output of the backend stream, a payload of the Supabase
  listener of a table, a status of the Supabase channel.
\<close>

datatype signal =
    Backend stream_out
  | Supabase_payload string jsval
  | Supabase_status string "js_error option"

text \<open>\<open>filterFor\<close> and the options of the listener of one table (supabase.mjs).\<close>

definition filterFor :: "jsval \<Rightarrow> string \<Rightarrow> jsval" where
  "filterFor filter' table = (if typeof filter' = ''string'' then filter' else js_field filter' table)"

definition listenerOptions :: "jsval \<Rightarrow> string \<Rightarrow> jsval" where
  "listenerOptions filter' table =
     (let f = filterFor filter' table in
      JObj ([(''event'', JStr ''*''), (''schema'', JStr ''public''), (''table'', JStr table)] @
        (if truthy f then [(''filter'', f)] else [])))"

text \<open>The calls \<open>subscribeSupabase\<close> makes on the client and its channel, and those of its \<open>stop\<close>.\<close>

datatype channel_call =
    Channel string
  | Listen jsval
  | Subscribe
  | Remove_channel

definition subscribeSupabase :: "string \<Rightarrow> jsval \<Rightarrow> string list \<Rightarrow> channel_call list" where
  "subscribeSupabase channelName filter' tables =
     Channel channelName # map (\<lambda>table. Listen (listenerOptions filter' table)) tables @ [Subscribe]"

definition supabase_stop :: "bool \<Rightarrow> channel_call list" where
  "supabase_stop can_remove = (if can_remove then [Remove_channel] else [])"

text \<open>
  Every listener is in place before the channel is subscribed, one for each table, and each
  one the filter names is narrowed by it.
\<close>
lemma supabase_listeners:
  "subscribeSupabase channelName filter' tables = calls @ [Subscribe] \<Longrightarrow>
     length calls = Suc (length tables) \<and>
     (\<forall>i < length tables. \<exists>opts. calls ! Suc i = Listen opts \<and> js_field opts ''table'' = JStr (tables ! i) \<and>
        (truthy (filterFor filter' (tables ! i)) \<longrightarrow> js_field opts ''filter'' = filterFor filter' (tables ! i)))"
  by (auto simp: subscribeSupabase_def listenerOptions_def Let_def)

definition session_tasks :: "'s wiring \<Rightarrow> signal \<Rightarrow> session_task list" where
  "session_tasks w sig =
     (case sig of
        Backend (Delivered changes) \<Rightarrow> map Task_apply changes
      | Backend (Status s _) \<Rightarrow> if s = St_open then [Task_hydrate, Task_flush] else []
      | Backend _ \<Rightarrow> []
      | Supabase_payload table payload \<Rightarrow>
          (case decodeSupabaseChange (wi_conv w) (wi_date w) table payload of
             Some change \<Rightarrow> [Task_apply change] | None \<Rightarrow> [])
      | Supabase_status s _ \<Rightarrow> if s = ''SUBSCRIBED'' then [Task_hydrate] else [])"

text \<open>A status is reported before its tasks start; a report without an error leaves no trace here.\<close>

definition status_name :: "conn_status \<Rightarrow> string" where
  "status_name s = (case s of St_open \<Rightarrow> ''open'' | St_reconnecting \<Rightarrow> ''reconnecting'' | St_sse \<Rightarrow> ''sse''
     | St_closed \<Rightarrow> ''closed'' | St_auth_error \<Rightarrow> ''auth-error'' | St_transport_error \<Rightarrow> ''transport-error'')"

definition note_status :: "signal \<Rightarrow> 's session \<Rightarrow> 's session" where
  "note_status sig se =
     (case sig of
        Backend (Status s (Some e)) \<Rightarrow> add_report (''backend:'' @ status_name s) e se
      | Supabase_status s (Some e) \<Rightarrow> add_report (''supabase:'' @ s) e se
      | _ \<Rightarrow> se)"

definition session_step :: "'s wiring \<Rightarrow> int \<Rightarrow> signal \<Rightarrow> 's session \<Rightarrow> 's session" where
  "session_step w now sig se = fold (run_task w now) (session_tasks w sig) (note_status sig se)"

section \<open>Starting and stopping\<close>

definition new_session :: "'s \<Rightarrow> 's session" where
  "new_session s = \<lparr>se_client = \<lparr>cl_store = s, cl_log = []\<rparr>, se_hydrating = False, se_reports = []\<rparr>"

text \<open>
  A backend configuration that \<open>connectBackend\<close> refuses closes the store again; otherwise the
  session starts with a hydration.
\<close>

definition startSync :: "'s wiring \<Rightarrow> stream_auth res option \<Rightarrow> int \<Rightarrow> 's \<Rightarrow> 's session res \<times> 's" where
  "startSync w backend now s =
     (case backend of
        Some (Inl e) \<Rightarrow> (Inl e, wi_close w s)
      | _ \<Rightarrow> let se = run_task w now Task_hydrate (new_session s) in (Inr se, cl_store (se_client se)))"

text \<open>\<open>stop\<close>: every transport is stopped, an error of one is reported, then the store closes.\<close>

definition stop_session :: "'s wiring \<Rightarrow> js_error option list \<Rightarrow> 's session \<Rightarrow> 's session" where
  "stop_session w stops se =
     (let se' = fold (\<lambda>r x. case r of Some e \<Rightarrow> add_report ''stop-error'' e x | None \<Rightarrow> x) stops se
      in se'\<lparr>se_client := (se_client se')\<lparr>cl_store := wi_close w (cl_store (se_client se'))\<rparr>\<rparr>)"

inductive session_reach :: "'s wiring \<Rightarrow> 's \<Rightarrow> 's session \<Rightarrow> bool" for w s where
  started: "startSync w backend now s = (Inr se, s') \<Longrightarrow> session_reach w s se"
| signalled: "session_reach w s se \<Longrightarrow> session_reach w s (session_step w now sig se)"
| stopped: "session_reach w s se \<Longrightarrow> session_reach w s (stop_session w stops se)"

section \<open>A session is a run of the client\<close>

text \<open>What the session relies on: requests change the store through the client only.\<close>

definition wiring_runs :: "'s wiring \<Rightarrow> bool" where
  "wiring_runs w \<longleftrightarrow>
     (\<forall>f t. wi_hydrate_fetch w = Some f \<longrightarrow> op_runs (wi_cfg w) (wi_api w) (f t)) \<and>
     (\<forall>f cu l. wi_pull_fetch w = Some f \<longrightarrow> op_runs (wi_cfg w) (wi_api w) (f cu l)) \<and>
     (\<forall>f q. wi_send w = Some f \<longrightarrow> op_runs (wi_cfg w) (wi_api w) (f q))"

definition session_runs :: "'s wiring \<Rightarrow> 's session \<Rightarrow> 's session \<Rightarrow> bool" where
  "session_runs w se se' \<longleftrightarrow>
     runs (wi_cfg w) (wi_api w) (cl_store (se_client se)) (cl_store (se_client se')) \<and>
     (\<not> se_hydrating se \<longrightarrow> \<not> se_hydrating se')"

lemma session_runs_refl [simp]: "session_runs w se se"
  by (simp add: session_runs_def runs_refl)

lemma session_runs_trans: "session_runs w se se1 \<Longrightarrow> session_runs w se1 se2 \<Longrightarrow> session_runs w se se2"
  by (auto simp: session_runs_def intro: runs_trans)

lemma add_report_sel [simp]: "se_client (add_report x e se) = se_client se" "se_hydrating (add_report x e se) = se_hydrating se"
  by (simp_all add: add_report_def)

lemma applyChange_runs: "op_runs cfg api (applyChange fuel cfg api change now)"
  by (rule op_runs_gate) (rule gate_body.simps(1))

lemma hydrate_table_runs:
  assumes "op_runs (wi_cfg w) (wi_api w) (fetch t)"
  shows "session_runs w se (hydrate_table fuel (wi_cfg w) (wi_api w) cv fetch prune now t se)"
proof -
  have "op_runs (wi_cfg w) (wi_api w) (bindE (fetch t) (\<lambda>rows. hydrate fuel (wi_cfg w) (wi_api w) cv t rows prune now))"
    using assms hydrate_runs by blast
  then show ?thesis
    by (auto simp: hydrate_table_def session_runs_def split: prod.split sum.split dest: op_runsD)
qed

lemma hydrate_tables_runs:
  fixes w :: "'s wiring"
  assumes "\<And>t. op_runs (wi_cfg w) (wi_api w) (fetch t)"
  shows "runs (wi_cfg w) (wi_api w) (cl_store (se_client se))
    (cl_store (se_client (foldl (\<lambda>s t. hydrate_table fuel (wi_cfg w) (wi_api w) cv fetch prune now t s) se tables)))"
proof (induction tables arbitrary: se)
  case Nil
  then show ?case by (simp add: runs_refl)
next
  case (Cons t tables)
  have "session_runs w se (hydrate_table fuel (wi_cfg w) (wi_api w) cv fetch prune now t se)"
    using assms by (rule hydrate_table_runs)
  then show ?case
    using runs_trans [OF Cons.IH] by (simp add: session_runs_def)
qed

lemma task_runs:
  assumes "wiring_runs w"
  shows "session_runs w se (run_task w now task se)"
proof (cases task)
  case (Task_apply change)
  then show ?thesis
    using op_runsD [OF applyChange_runs]
    by (auto simp: session_runs_def split: prod.split sum.split)
next
  case Task_flush
  have "op_runs (wi_cfg w) (wi_api w) (flushQueue (wi_api w) send (\<lambda>_. None) now)" if "wi_send w = Some send" for send
    using assms that by (intro flushQueue_runs) (auto simp: wiring_runs_def)
  then show ?thesis
    using Task_flush by (auto simp: session_runs_def runs_refl split: option.split prod.split sum.split dest: op_runsD)
next
  case Task_hydrate
  have pull: "op_runs (wi_cfg w) (wi_api w)
      (pullAll (wi_fuel w) (wi_cfg w) (wi_api w) (wi_pull_fetch w) (wi_page_size w) (wi_scope w) now)"
    by (rule pullAll_runs) (use assms in \<open>auto simp: wiring_runs_def\<close>)
  obtain r c where run: "pullAll (wi_fuel w) (wi_cfg w) (wi_api w) (wi_pull_fetch w) (wi_page_size w) (wi_scope w) now
      (se_client se) = (r, c)"
    by force
  note first = op_runsD [OF pull run]
  have rest: "runs (wi_cfg w) (wi_api w) (cl_store c) (cl_store (se_client (foldl
      (\<lambda>s t. hydrate_table (wi_fuel w) (wi_cfg w) (wi_api w) (wi_conv w) fetch (wi_prune w) now t s)
      (se\<lparr>se_client := c, se_hydrating := True\<rparr>) (wi_tables w))))" if "wi_hydrate_fetch w = Some fetch" for fetch
    using hydrate_tables_runs [of w fetch "se\<lparr>se_client := c, se_hydrating := True\<rparr>"] assms that
    by (simp add: wiring_runs_def)
  show ?thesis
    using Task_hydrate first runs_trans [OF rest first]
    by (auto simp: session_runs_def hydrateAll_def run Let_def runs_refl split: sum.split option.split)
qed

lemma step_runs:
  assumes "wiring_runs w"
  shows "session_runs w se (session_step w now sig se)"
proof -
  have "session_runs w se (fold (run_task w now) tasks se)" for tasks se
  proof (induction tasks arbitrary: se)
    case Nil
    then show ?case by simp
  next
    case (Cons t tasks)
    show ?case
      using session_runs_trans [OF task_runs [OF assms] Cons.IH] by simp
  qed
  moreover have "session_runs w se (note_status sig se)"
    by (auto simp: session_runs_def note_status_def runs_refl split: signal.split stream_out.split option.split)
  ultimately show ?thesis
    unfolding session_step_def by (rule session_runs_trans [rotated])
qed

text \<open>Stopping leaves the stores' contents: it only closes.\<close>

lemma stop_session_sel:
  fixes w :: "'s wiring"
  shows
  "cl_store (se_client (stop_session w stops se)) = wi_close w (cl_store (se_client se)) \<and>
   se_hydrating (stop_session w stops se) = se_hydrating se"
proof -
  have "se_client (fold (\<lambda>r x. case r of Some e \<Rightarrow> add_report ''stop-error'' e x | None \<Rightarrow> x) stops se) = se_client se \<and>
    se_hydrating (fold (\<lambda>r x. case r of Some e \<Rightarrow> add_report ''stop-error'' e x | None \<Rightarrow> x) stops se) = se_hydrating se"
    for se :: "'s session"
    by (induction stops arbitrary: se) (auto split: option.split)
  then show ?thesis
    by (simp add: stop_session_def Let_def)
qed

section \<open>A closed database\<close>

definition close_idb :: "idb \<Rightarrow> idb" where
  "close_idb db = db\<lparr>db_open := False\<rparr>"

lemma close_idb_same [simp]:
  "idb_inv (close_idb db) = idb_inv db" "idb_plane (close_idb db) = idb_plane db" "\<not> db_open (close_idb db)"
  by (simp_all add: close_idb_def idb_inv_def idb_plane_def)

text \<open>No operation on a closed connection changes the database.\<close>

definition inert :: "(idb, 'a) op \<Rightarrow> bool" where
  "inert f \<longleftrightarrow> (\<forall>db. \<not> db_open db \<longrightarrow> (\<exists>e. f db = (Inl e, db)))"

lemma inert_tx: "inert (withTransaction names f)"
  by (simp add: inert_def withTransaction_def)

lemma inert_store: "inert (withStore name f)"
  by (simp add: withStore_def inert_tx)

lemma inert_bind: "inert f \<Longrightarrow> inert (bindE f g)"
  by (fastforce simp: inert_def bindE_def)

lemma inert_api:
  "inert (api_meta idb_api t i)" "inert (api_list idb_api)" "inert (api_all idb_api t)" "inert (api_get_cursor idb_api sc)"
  "inert (api_bump_attempts idb_api s)" "inert (api_settle_ack idb_api t i s v now)"
  "inert (api_settle_pessimistic idb_api t i s v now)" "inert (api_set_cursor idb_api c sc)"
  by (simp_all add: idb_api_def idb_meta_def idb_list_def idb_all_def idb_getCursor_def idb_bumpAttempts_def
      idb_settleAck_def idb_settlePessimistic_def inert_tx inert_store)
    (simp add: idb_setCursor_def inert_def raise_def withStore_def withTransaction_def)

lemma inert_gate:
  assumes "\<not> db_open (cl_store c)"
  shows "\<exists>e. gate_body cfg idb_api now g c = (Inl e, c)"
proof -
  have on: "\<exists>e. on_store f c = (Inl e, c)" if "inert f" for f :: "(idb, 'a) op"
    using that assms by (fastforce simp: inert_def on_store_def)
  have bound: "\<exists>e. bindE (on_store f) k c = (Inl e, c)" if "inert f" for f :: "(idb, 'a) op" and k :: "'a \<Rightarrow> (idb client, 'b) op"
    using on [OF that] by (auto simp: bindE_def)
  show ?thesis
  proof (cases g)
    case (Receive fuel ev)
    have "\<exists>e. applyChange fuel cfg idb_api ev now c = (Inl e, c)"
      using bound [OF inert_api(1)] by (cases fuel) (auto simp: raise_def)
    then show ?thesis
      using Receive by (auto simp: bindE_def)
  next
    case (Settle t i ack s strategy)
    have "inert (applyAck idb_api t i ack s strategy now)"
      by (simp add: applyAck_def inert_api)
    then show ?thesis
      using Settle bound by simp
  next
    case (Intend ctx policy i row key)
    have "inert (persist_intent idb_api ctx policy i row key now)"
      unfolding persist_intent_def by (rule inert_bind) (rule inert_api)
    then show ?thesis
      using Intend bound by simp
  next
    case (Prune t i)
    have "inert (prune_one idb_api t i)"
      unfolding prune_one_def by (rule inert_bind) (rule inert_api)
    then show ?thesis
      using Prune bound by simp
  qed (simp_all add: bound inert_api)
qed

lemma closed_runs: "runs cfg idb_api s s' \<Longrightarrow> \<not> db_open s \<Longrightarrow> s' = s"
proof (induction rule: runs.induct)
  case runs_refl
  then show ?case by simp
next
  case (runs_step s s' now g items res c)
  then show ?case
    using inert_gate [of "\<lparr>cl_store = s', cl_log = items\<rparr>" cfg now g] by auto
qed


lemma idb_run_ok:
  assumes "runs cfg idb_api s s'" "idb_inv s" "plane_ok (idb_plane s)"
  shows "idb_inv s' \<and> plane_ok (idb_plane s')"
  using idb.runs_simulate [OF assms(1,2)] idb.runs_plane_ok [OF assms] by blast

section \<open>Sessions\<close>

text \<open>
  C16. A session over IndexedDB is safe whatever the transports deliver: starting from a
  consistent database, after any sequence of backend outputs, Supabase payloads and statuses,
  with storage faults, failing requests and a stop in between, the replica is consistent and
  every dirty row still has its queued write, and no hydration is left marked as running.
\<close>
theorem session_safe:
  assumes "wiring_runs w" "wi_api w = idb_api" "wi_close w = close_idb"
    and "session_reach w s se" "idb_inv s" "plane_ok (idb_plane s)"
  shows "idb_inv (cl_store (se_client se)) \<and> plane_ok (idb_plane (cl_store (se_client se))) \<and> \<not> se_hydrating se"
  using assms(4)
proof (induction rule: session_reach.induct)
  case (started backend now se s')
  then have "se = run_task w now Task_hydrate (new_session s)"
    by (auto simp: startSync_def Let_def split: option.splits sum.splits)
  with task_runs [OF assms(1), of "new_session s" now Task_hydrate] show ?case
    using idb_run_ok [of "wi_cfg w" s] assms(2,5,6) by (auto simp: session_runs_def new_session_def)
next
  case (signalled se now sig)
  then show ?case
    using step_runs [OF assms(1), of se now sig] idb_run_ok [of "wi_cfg w" "cl_store (se_client se)"] assms(2)
    by (auto simp: session_runs_def)
next
  case (stopped se stops)
  then show ?case
    using stop_session_sel [of w stops se] assms(3) by simp
qed



definition sample_wiring :: "idb wiring" where
  "sample_wiring = \<lparr>wi_fuel = 2, wi_cfg = sample_config, wi_api = idb_api, wi_conv = sample_conv, wi_tables = [''notes''],
     wi_hydrate_fetch = Some (\<lambda>_. ret (JArr [JObj [(''id'', JStr ''n2''), (''version'', JNum (num 1))]])),
     wi_pull_fetch = None, wi_page_size = JNum (num 500), wi_scope = ''global'', wi_prune = True,
     wi_send = Some (\<lambda>_. raise (Err ''offline'')), wi_date = (\<lambda>_. NaN), wi_close = close_idb\<rparr>"

lemma sample_wiring_runs: "wiring_runs sample_wiring" "wi_api sample_wiring = idb_api" "wi_close sample_wiring = close_idb"
  by (auto simp: wiring_runs_def sample_wiring_def op_runs_ret op_runs_raise)

definition sample_session :: "idb session" where
  "sample_session = session_step sample_wiring 9 (Backend (Delivered [sample_event]))
     (run_task sample_wiring 8 Task_hydrate (new_session (fresh_idb [''notes''])))"

lemma sample_session_reach: "session_reach sample_wiring (fresh_idb [''notes'']) sample_session"
  unfolding sample_session_def
  by (intro session_reach.signalled session_reach.started [where backend = None and now = 8])
    (simp add: startSync_def Let_def)

theorem session_safe_witness:
  "plane_ok (idb_plane (cl_store (se_client sample_session))) \<and>
   map r_id (db_rows (cl_store (se_client sample_session)) ''notes'') = [''n1'', ''n2'']"
proof -
  have "map r_id (db_rows (cl_store (se_client sample_session)) ''notes'') = [''n1'', ''n2'']"
    by code_simp
  with session_safe [OF sample_wiring_runs sample_session_reach] show ?thesis
    by simp
qed


section \<open>The queue is flushed on an open socket only\<close>

lemma flush_signal: "Task_flush \<in> set (session_tasks w sig) \<longleftrightarrow> (\<exists>e. sig = Backend (Status St_open e))"
  by (auto simp: session_tasks_def split: signal.split stream_out.split option.split)

definition not_open :: "stream_out \<Rightarrow> bool" where
  "not_open x \<longleftrightarrow> (\<forall>e. x \<noteq> Status St_open e)"

lemma sse_step:
  assumes "sc_ws sc = None" "\<not> st_socket st" "stream_enabled ev st"
  shows "\<not> st_socket (stream_step sc ev st) \<and> emits not_open st (stream_step sc ev st)"
  using assms
  by (cases ev)
    (auto simp: scheduleReconnect_def stop_def Let_def resume_def open_ws_def open_sse_def connectWs_def startSse_def
      withStreamAuth_def deliver_frame_def not_open_def
      intro!: emits_intros split: list.split sum.split waiting.split)

text \<open>
  Where there is no \<^verbatim>\<open>WebSocket\<close> the stream falls back to server-sent events, and nothing it
  reports makes the session flush its queue.
\<close>

lemma sse_session_never_flushes:
  assumes "sc_ws sc = None" "stream_reach sc st" "x \<in> set (st_out st)"
  shows "Task_flush \<notin> set (session_tasks w (Backend x))"
proof -
  have "\<not> st_socket st \<and> list_all not_open (st_out st)"
    using assms(2)
  proof (induction rule: stream_reach.induct)
    case connect
    have "\<not> st_socket (connectWs sc x) \<and> emits not_open x (connectWs sc x)" if "\<not> st_socket x" for x
      using assms(1) that
      by (auto simp: connectWs_def startSse_def withStreamAuth_def open_sse_def not_open_def
          intro!: emits_intros split: sum.split)
    from this [of stream_init] show ?case
      by (auto simp: emits_def stream_init_def)
  next
    case (step st ev)
    then show ?case
      using sse_step [OF assms(1)] by (fastforce simp: emits_def)
  qed
  then show ?thesis
    using assms(3) by (auto simp: flush_signal list_all_iff not_open_def)
qed

end
