(* ===== verification/Htmx.thy ===== *)
theory Htmx
  imports Sync_Client
begin

text \<open>
  The htmx extension (htmx.mjs): the write intent of an element with its request values, and
  the filter of the extension's event handler.
\<close>

section \<open>The intent\<close>

text \<open>
  An element: its \<^verbatim>\<open>getAttribute\<close>, where it has one, and its \<^verbatim>\<open>dataset\<close>. A missing attribute
  is \<open>JNull\<close>.
\<close>

record element =
  el_get_attribute :: "(string \<Rightarrow> jsval) option"
  el_dataset :: jsval

text \<open>\<^verbatim>\<open>k.replace(/^data-/, "").replace(/-([a-z])/g, upper)\<close>.\<close>

definition is_lower_char :: "char \<Rightarrow> bool" where
  "is_lower_char c \<longleftrightarrow> 97 \<le> (of_char c :: nat) \<and> (of_char c :: nat) \<le> 122"

definition upper_char :: "char \<Rightarrow> char" where
  "upper_char c = char_of ((of_char c :: nat) - 32)"

fun camel :: "string \<Rightarrow> string" where
  "camel (a # b # cs) = (if a = CHR ''-'' \<and> is_lower_char b then upper_char b # camel cs else a # camel (b # cs))"
| "camel cs = cs"

definition dataset_key :: "string \<Rightarrow> string" where
  "dataset_key k = camel (if take 5 k = ''data-'' then drop 5 k else k)"

definition attr :: "element option \<Rightarrow> string \<Rightarrow> jsval" where
  "attr el k =
     coalesce (coalesce
       (case Option.bind el el_get_attribute of Some get \<Rightarrow> get k | None \<Rightarrow> JNull)
       (case el of Some e \<Rightarrow> js_field (el_dataset e) (dataset_key k) | None \<Rightarrow> JUndef)) JNull"

text \<open>\<^verbatim>\<open>row[k] = v\<close>; assigning \<^verbatim>\<open>__proto__\<close> makes no own property.\<close>

definition assign :: "string \<times> jsval \<Rightarrow> props \<Rightarrow> props" where
  "assign entry row = (if fst entry = ''__proto__'' then row else js_set (fst entry) (snd entry) row)"

record intent =
  in_table :: jsval
  in_id :: jsval
  in_row :: props

definition optimisticIntent :: "element option \<Rightarrow> (string \<times> jsval) list option \<Rightarrow> intent option" where
  "optimisticIntent el values =
     (let table = attr el ''data-fiducia-table''; i = attr el ''data-fiducia-id'' in
      if \<not> truthy table \<or> \<not> truthy i then None
      else Some \<lparr>in_table = table, in_id = i,
             in_row = (case values of None \<Rightarrow> [(''id'', i)] | Some entries \<Rightarrow> fold assign entries [(''id'', i)])\<rparr>)"

section \<open>The extension\<close>

fun lower_char :: "char \<Rightarrow> char" where
  "lower_char c = (if 65 \<le> (of_char c :: nat) \<and> (of_char c :: nat) \<le> 90 then char_of ((of_char c :: nat) + 32) else c)"

text \<open>
  \<open>onEvent\<close>: the intent handed to \<open>optimisticPatch\<close>, if any. \<open>verb\<close> is the request's verb as text,
  empty where the event has none.
\<close>

definition onEvent :: "string \<Rightarrow> string \<Rightarrow> element option \<Rightarrow> (string \<times> jsval) list option \<Rightarrow> intent option" where
  "onEvent name verb el values =
     (if name \<noteq> ''htmx:configRequest'' then None
      else if map lower_char verb \<noteq> ''post'' \<and> map lower_char verb \<noteq> ''put'' then None
      else optimisticIntent el values)"

section \<open>The row of an intent\<close>

lemma assign_get: "js_get (assign e row) k = (if k = fst e \<and> k \<noteq> ''__proto__'' then snd e else js_get row k)"
  by (simp add: assign_def)

lemma fold_assign_get:
  "js_get (fold assign es row) k =
     (if k \<noteq> ''__proto__'' \<and> k \<in> fst ` set es then js_get (rev es) k else js_get row k)"
proof (induction es arbitrary: row)
  case Nil
  then show ?case by simp
next
  case (Cons e es)
  have app: "js_get (rev es @ [e]) k = (if k \<in> fst ` set es then js_get (rev es) k else if k = fst e then snd e else JUndef)" for k
  proof -
    have "k \<in> fst ` set es \<longleftrightarrow> map_of (rev es) k \<noteq> None"
      by (simp add: map_of_eq_None_iff)
    then show ?thesis
      by (cases e) (auto simp: js_get_def map_add_def split: option.split)
  qed
  show ?case
    by (auto simp add: Cons.IH assign_get app)
qed

text \<open>
  The row is the form: each field carries its last value. The row's \<open>id\<close> is the addressed one
  unless the form has a field of that name, which takes its place.
\<close>

lemma intent_row:
  assumes "optimisticIntent el (Some entries) = Some x"
  shows "js_get (in_row x) k =
    (if k \<noteq> ''__proto__'' \<and> k \<in> fst ` set entries then js_get (rev entries) k
     else if k = ''id'' then in_id x else JUndef)"
proof -
  have "in_row x = fold assign entries [(''id'', in_id x)]"
    using assms by (auto simp: optimisticIntent_def Let_def split: if_split_asm)
  then show ?thesis
    by (simp add: fold_assign_get)
qed

end
