(* ===== verification/Lint_Tokens.thy ===== *)
theory Lint_Tokens
  imports Sync_Prelude
begin

text \<open>
  The tokenizer of the require-send lint (.ores-lint/require-send.mjs): positions, token kinds,
  the scanner, and what its tokens say of the source.
\<close>

section \<open>Characters\<close>

definition NEWLINE :: char where "NEWLINE = CHR 0x0A"

abbreviation QUOTE :: char where "QUOTE \<equiv> CHR 0x27"
abbreviation BACKSLASH :: char where "BACKSLASH \<equiv> CHR 0x5C"

text \<open>\<^verbatim>\<open>/\s/\<close> and \<^verbatim>\<open>/[A-Za-z0-9_]/\<close> on characters below 256.\<close>

definition is_space :: "char \<Rightarrow> bool" where
  "is_space c \<longleftrightarrow> c \<in> {CHR '' '', CHR 0x09, CHR 0x0A, CHR 0x0B, CHR 0x0C, CHR 0x0D, CHR 0xA0}"

definition char_between :: "char \<Rightarrow> char \<Rightarrow> char \<Rightarrow> bool" where
  "char_between a b c \<longleftrightarrow> of_char a \<le> (of_char c :: nat) \<and> (of_char c :: nat) \<le> of_char b"

definition ident_start :: "char \<Rightarrow> bool" where
  "ident_start c \<longleftrightarrow> char_between CHR ''A'' CHR ''Z'' c \<or> char_between CHR ''a'' CHR ''z'' c \<or> c = CHR ''_''"

definition ident_char :: "char \<Rightarrow> bool" where
  "ident_char c \<longleftrightarrow> ident_start c \<or> char_between CHR ''0'' CHR ''9'' c"

section \<open>Positions\<close>

record place =
  pl_line :: nat
  pl_col :: nat

definition start_place :: place where "start_place = \<lparr>pl_line = 1, pl_col = 1\<rparr>"

definition bump :: "char \<Rightarrow> place \<Rightarrow> place" where
  "bump ch p = (if ch = NEWLINE then \<lparr>pl_line = pl_line p + 1, pl_col = 1\<rparr> else p\<lparr>pl_col := pl_col p + 1\<rparr>)"

definition bumps :: "string \<Rightarrow> place \<Rightarrow> place" where
  "bumps cs p = fold bump cs p"

section \<open>Tokens\<close>

datatype kind =
    K_string | K_pipe | K_arrow | K_ident | K_dot | K_lparen | K_rparen | K_lbracket | K_rbracket
  | K_lbrace | K_rbrace | K_semi | K_comma | K_eq

record token =
  tk_kind :: kind
  tk_value :: string
  tk_place :: place

definition singles :: "(char \<times> kind) list" where
  "singles = [(CHR ''.'', K_dot), (CHR ''('', K_lparen), (CHR '')'', K_rparen), (CHR ''['', K_lbracket),
     (CHR '']'', K_rbracket), (CHR ''{'', K_lbrace), (CHR ''}'', K_rbrace), (CHR '';'', K_semi),
     (CHR '','', K_comma), (CHR ''='', K_eq)]"

text \<open>How many characters the loops of the scanner consume.\<close>

definition line_comment :: "string \<Rightarrow> nat" where
  "line_comment src = length (takeWhile (\<lambda>c. c \<noteq> NEWLINE) src)"

fun block_comment :: "string \<Rightarrow> nat" where
  "block_comment [] = 0"
| "block_comment (c # cs) = (if c = CHR ''*'' \<and> take 1 cs = ''/'' then 2 else Suc (block_comment cs))"

fun string_rest :: "char \<Rightarrow> string \<Rightarrow> nat" where
  "string_rest q [] = 0"
| "string_rest q [c] = (if c \<noteq> q \<and> c = NEWLINE \<and> q \<noteq> CHR ''`'' then 0 else 1)"
| "string_rest q (c # d # cs) =
     (if c = q then 1
      else if c = BACKSLASH then 2 + string_rest q cs
      else if c = NEWLINE \<and> q \<noteq> CHR ''`'' then 0
      else Suc (string_rest q (d # cs)))"

definition ident_run :: "string \<Rightarrow> string" where
  "ident_run src = takeWhile ident_char src"

text \<open>One turn of the loop: the token that is pushed, if any, and the number of characters consumed.\<close>

definition scan_one :: "string \<Rightarrow> (kind \<times> string) option \<times> nat" where
  "scan_one src =
     (let ch = hd src; ahead = take 1 (tl src) in
      if ch = CHR ''/'' \<and> ahead = ''/'' then (None, line_comment src)
      else if ch = CHR ''/'' \<and> ahead = ''*'' then (None, 2 + block_comment (drop 2 src))
      else if ch = CHR 0x22 \<or> ch = QUOTE \<or> ch = CHR ''`'' then (Some (K_string, ''''), 1 + string_rest ch (tl src))
      else if is_space ch then (None, 1)
      else if ch = CHR ''|'' \<and> ahead = ''>'' then (Some (K_pipe, ''|>''), 2)
      else if ch = CHR ''='' \<and> ahead = ''>'' then (Some (K_arrow, ''=>''), 2)
      else if ident_start ch then (Some (K_ident, ident_run src), length (ident_run src))
      else case map_of singles ch of
        Some k \<Rightarrow> (Some (k, [ch]), 1)
      | None \<Rightarrow> (None, 1))"

lemma scan_one_progress: "src \<noteq> [] \<Longrightarrow> 0 < snd (scan_one src)"
  by (cases src) (auto simp: scan_one_def Let_def line_comment_def NEWLINE_def ident_run_def ident_char_def split: option.split)

function tokens_from :: "place \<Rightarrow> string \<Rightarrow> token list" where
  "tokens_from p src =
     (if src = [] then []
      else
        let (pushed, n) = scan_one src;
            rest = tokens_from (bumps (take n src) p) (drop n src)
        in case pushed of
             Some (k, v) \<Rightarrow> \<lparr>tk_kind = k, tk_value = v, tk_place = p\<rparr> # rest
           | None \<Rightarrow> rest)"
  by pat_completeness auto
termination
proof (relation "measure (length \<circ> snd)")
  fix p src x pushed n
  assume "src \<noteq> []" "x = scan_one src" "(pushed, n) = x"
  then have "0 < n" "src \<noteq> []"
    using scan_one_progress [of src] by (metis snd_conv)+
  then show "((bumps (take n src) p, drop n src), p, src) \<in> measure (length \<circ> snd)"
    by simp
qed simp

declare tokens_from.simps [simp del]

definition tokenize :: "string \<Rightarrow> token list" where
  "tokenize source = tokens_from start_place source"


section \<open>What the tokens say\<close>

lemma tokens_Nil [simp]: "tokens_from p [] = []"
  by (simp add: tokens_from.simps)

lemma tokens_step:
  assumes "src \<noteq> []" "scan_one src = (pushed, n)"
  shows "tokens_from p src =
    (case pushed of Some (k, v) \<Rightarrow> [\<lparr>tk_kind = k, tk_value = v, tk_place = p\<rparr>] | None \<Rightarrow> []) @
    tokens_from (bumps (take n src) p) (drop n src)"
  using assms by (subst tokens_from.simps) (simp add: Let_def split: option.split)

definition place_less :: "place \<Rightarrow> place \<Rightarrow> bool" where
  "place_less p q \<longleftrightarrow> pl_line p < pl_line q \<or> pl_line p = pl_line q \<and> pl_col p < pl_col q"

lemma place_less_trans: "place_less p q \<Longrightarrow> place_less q r \<Longrightarrow> place_less p r"
  by (auto simp: place_less_def)

lemma bump_less: "place_less p (bump c p)"
  by (simp add: place_less_def bump_def)

lemma bumps_append: "bumps (cs @ ds) p = bumps ds (bumps cs p)"
  by (simp add: bumps_def)

lemma bumps_less: "cs \<noteq> [] \<Longrightarrow> place_less p (bumps cs p)"
proof (induction cs arbitrary: p)
  case (Cons c cs)
  then show ?case
    using bump_less [of p c] place_less_trans by (cases cs) (auto simp: bumps_def)
qed simp

lemma scan_one_value: "src \<noteq> [] \<Longrightarrow> scan_one src = (Some (k, v), n) \<Longrightarrow> take (length v) src = v"
  by (cases src)
    (auto simp: scan_one_def Let_def ident_run_def takeWhile_eq_take [symmetric] split: if_splits option.splits)

lemma scan_one_bound: "src \<noteq> [] \<Longrightarrow> scan_one src = (r, n) \<Longrightarrow> 0 < n"
  using scan_one_progress by (metis snd_conv)

lemma tokens_from_stands:
  assumes "t \<in> set (tokens_from p src)"
  shows "\<exists>pre post n. src = pre @ post \<and> post \<noteq> [] \<and> tk_place t = bumps pre p \<and> scan_one post = (Some (tk_kind t, tk_value t), n)"
  using assms
proof (induction p src rule: tokens_from.induct)
  case (1 p src)
  show ?case
  proof (cases "src = []")
    case True
    then show ?thesis
      using 1 by simp
  next
    case False
    obtain pushed n where s: "scan_one src = (pushed, n)"
      by force
    show ?thesis
    proof (cases "t \<in> set (tokens_from (bumps (take n src) p) (drop n src))")
      case True
      then obtain pre post m where "drop n src = pre @ post" "post \<noteq> []" "tk_place t = bumps pre (bumps (take n src) p)"
          "scan_one post = (Some (tk_kind t, tk_value t), m)"
        using 1(1) [OF False s [symmetric] refl] by blast
      moreover from this(1) have "src = (take n src @ pre) @ post"
        by (metis append.assoc append_take_drop_id)
      ultimately show ?thesis
        by (intro exI [of _ "take n src @ pre"] exI [of _ post] exI [of _ m]) (simp add: bumps_append)
    next
      case False
      then have "pushed = Some (tk_kind t, tk_value t) \<and> tk_place t = p"
        using 1(2) tokens_step [OF \<open>src \<noteq> []\<close> s, of p] by (auto split: option.splits)
      then show ?thesis
        using \<open>src \<noteq> []\<close> s by (intro exI [of _ "[]"] exI [of _ src] exI [of _ n]) (simp add: bumps_def)
    qed
  qed
qed

lemma tokens_from_after: "t \<in> set (tokens_from p src) \<Longrightarrow> tk_place t = p \<or> place_less p (tk_place t)"
  using tokens_from_stands [of t p src] bumps_less by (metis bumps_def fold_simps(1))

lemma tokens_from_sorted: "sorted_wrt place_less (map tk_place (tokens_from p src))"
proof (induction p src rule: tokens_from.induct)
  case (1 p src)
  show ?case
  proof (cases "src = []")
    case False
    obtain pushed n where s: "scan_one src = (pushed, n)"
      by force
    have "place_less p (bumps (take n src) p)"
      using scan_one_bound [OF False s] False by (intro bumps_less) simp
    then have "place_less p (tk_place t)" if "t \<in> set (tokens_from (bumps (take n src) p) (drop n src))" for t
      using tokens_from_after [OF that] place_less_trans by metis
    then show ?thesis
      using 1 [OF False s [symmetric] refl] tokens_step [OF False s, of p] by (auto split: option.split)
  qed simp
qed

text \<open>Tokens written with a blank after each are read back.\<close>

fun plain_token :: "kind \<times> string \<Rightarrow> bool" where
  "plain_token (k, v) =
     (if k = K_ident then v \<noteq> [] \<and> ident_start (hd v) \<and> list_all ident_char v
      else if k = K_pipe then v = ''|>''
      else if k = K_arrow then v = ''=>''
      else list_ex (\<lambda>(c, k'). k' = k \<and> v = [c]) singles)"

definition write_tokens :: "(kind \<times> string) list \<Rightarrow> string" where
  "write_tokens ts = concat (map (\<lambda>t. snd t @ '' '') ts)"

lemma ident_start_plain: "ident_start c \<Longrightarrow> c \<notin> {CHR ''/'', CHR 0x22, QUOTE, CHR ''`'', CHR ''|'', CHR ''=''} \<and> \<not> is_space c"
  by (auto simp: ident_start_def char_between_def is_space_def)

lemma scan_ident:
  assumes "v \<noteq> []" "ident_start (hd v)" "list_all ident_char v"
  shows "scan_one (v @ '' '' @ rest) = (Some (K_ident, v), length v)"
proof -
  have "\<not> ident_char CHR '' ''"
    by (simp add: ident_char_def ident_start_def char_between_def)
  then have "ident_run (v @ '' '' @ rest) = v"
    using assms(3) by (simp add: ident_run_def takeWhile_append list_all_iff)
  moreover have "hd (v @ '' '' @ rest) = hd v"
    using assms(1) by simp
  ultimately show ?thesis
    using ident_start_plain [OF assms(2)] assms(2) unfolding scan_one_def Let_def by simp
qed

lemma scan_plain: "plain_token (k, v) \<Longrightarrow> scan_one (v @ '' '' @ rest) = (Some (k, v), length v)"
proof (cases "k = K_ident")
  case False
  assume "plain_token (k, v)"
  with False show ?thesis
    by (auto simp: scan_one_def singles_def is_space_def ident_start_def char_between_def split: if_splits)
qed (use scan_ident in simp)

lemma tokens_written:
  "list_all plain_token ts \<Longrightarrow> map (\<lambda>t. (tk_kind t, tk_value t)) (tokens_from p (write_tokens ts)) = ts"
proof (induction ts arbitrary: p)
  case Nil
  then show ?case
    by (simp add: write_tokens_def)
next
  case (Cons t ts)
  obtain k v where t: "t = (k, v)"
    by force
  let ?rest = "'' '' @ write_tokens ts"
  have w: "write_tokens (t # ts) = v @ ?rest"
    by (simp add: write_tokens_def t)
  have s: "scan_one (v @ ?rest) = (Some (k, v), length v)"
    using scan_plain Cons.prems t by simp
  have b: "tokens_from q ?rest = tokens_from (bumps '' '' q) (write_tokens ts)" for q
    using tokens_step [of ?rest None 1 q] by (simp add: scan_one_def is_space_def)
  have "v @ ?rest \<noteq> []"
    by simp
  from tokens_step [OF this s, of p] show ?case
    unfolding w using Cons.IH Cons.prems t b by simp
qed

end
