(* ===== verification/Lint_Chains.thy ===== *)
theory Lint_Chains
  imports Lint_Tokens
begin

text \<open>
  The walks of the require-send lint over a token list: balanced brackets, dotted names, method
  chains and pipes. Each walk ends and never goes left of where it started.
\<close>

section \<open>Reading tokens\<close>

text \<open>\<^verbatim>\<open>tokens[i]?.type\<close>; an index left of the list is as undefined as one right of it.\<close>

definition kind_at :: "token list \<Rightarrow> nat \<Rightarrow> kind option" where
  "kind_at ts i = (if i < length ts then Some (tk_kind (ts ! i)) else None)"

definition kind_before :: "token list \<Rightarrow> nat \<Rightarrow> nat \<Rightarrow> kind option" where
  "kind_before ts i k = (if k \<le> i then kind_at ts (i - k) else None)"

definition word_at :: "token list \<Rightarrow> nat \<Rightarrow> string" where
  "word_at ts i = tk_value (ts ! i)"

lemma kind_at_bound: "kind_at ts i = Some k \<Longrightarrow> i < length ts"
  by (simp add: kind_at_def split: if_splits)

definition LEVEL :: "string list" where
  "LEVEL = [''trace'', ''debug'', ''info'', ''log'', ''warn'', ''error'', ''fatal'']"

definition TERMINAL :: "string list" where
  "TERMINAL = [''send'', ''send_with_store'']"

definition has_level :: "string list \<Rightarrow> bool" where
  "has_level methods = list_ex (\<lambda>m. m \<in> set LEVEL) methods"

definition has_terminal :: "string list \<Rightarrow> bool" where
  "has_terminal methods = list_ex (\<lambda>m. m \<in> set TERMINAL) methods"

section \<open>Brackets\<close>

fun balance :: "kind \<Rightarrow> kind \<Rightarrow> token list \<Rightarrow> nat \<Rightarrow> int \<Rightarrow> nat option" where
  "balance opening closing [] i depth = None"
| "balance opening closing (t # ts) i depth =
     (if tk_kind t = opening then balance opening closing ts (Suc i) (depth + 1)
      else if tk_kind t = closing then
        (if depth - 1 = 0 then Some i else balance opening closing ts (Suc i) (depth - 1))
      else balance opening closing ts (Suc i) depth)"

definition skipBalanced :: "token list \<Rightarrow> nat \<Rightarrow> kind \<Rightarrow> kind \<Rightarrow> nat" where
  "skipBalanced ts start opening closing =
     (case balance opening closing (drop start ts) start 0 of Some i \<Rightarrow> i | None \<Rightarrow> length ts - 1)"

lemma balance_bounds: "balance a b ts i d = Some j \<Longrightarrow> i \<le> j \<and> j < i + length ts"
  by (induction ts arbitrary: i d) (force split: if_splits)+

lemma skipBalanced_bounds: "start < length ts \<Longrightarrow> start \<le> skipBalanced ts start a b \<and> skipBalanced ts start a b < length ts"
  using balance_bounds [of a b "drop start ts" start 0] by (auto simp: skipBalanced_def split: option.split)

fun count_args :: "token list \<Rightarrow> int \<Rightarrow> nat \<Rightarrow> bool \<Rightarrow> nat" where
  "count_args [] depth args seen = (if seen then args + 1 else 0)"
| "count_args (t # ts) depth args seen =
     (if tk_kind t \<in> {K_lparen, K_lbracket, K_lbrace} then count_args ts (depth + 1) args seen
      else if tk_kind t \<in> {K_rparen, K_rbracket, K_rbrace} then
        (if depth - 1 = 0 then (if seen then args + 1 else 0) else count_args ts (depth - 1) args seen)
      else if depth = 1 \<and> tk_kind t = K_comma then count_args ts depth (args + 1) seen
      else if depth = 1 \<and> tk_kind t \<noteq> K_comma then count_args ts depth args True
      else count_args ts depth args seen)"

definition countTopLevelArgs :: "token list \<Rightarrow> nat \<Rightarrow> nat" where
  "countTopLevelArgs ts lparenIndex =
     (if kind_at ts lparenIndex \<noteq> Some K_lparen then 0 else count_args (drop lparenIndex ts) 0 0 False)"

section \<open>Dotted names\<close>

fun qual_left :: "token list \<Rightarrow> nat \<Rightarrow> string \<Rightarrow> string \<times> nat" where
  "qual_left ts i name =
     (if 2 \<le> i \<and> kind_at ts (i - 1) = Some K_dot \<and> kind_at ts (i - 2) = Some K_ident
      then qual_left ts (i - 2) (word_at ts (i - 2) @ ''.'' @ name) else (name, i))"

declare qual_left.simps [simp del]

definition qualifiedName :: "token list \<Rightarrow> nat \<Rightarrow> string \<times> nat" where
  "qualifiedName ts index =
     (if kind_at ts index \<noteq> Some K_ident then ('''', index) else qual_left ts index (word_at ts index))"

fun root_left :: "token list \<Rightarrow> nat \<Rightarrow> nat" where
  "root_left ts r =
     (if 2 \<le> r \<and> kind_at ts r = Some K_ident \<and> kind_at ts (r - 1) = Some K_dot \<and> kind_at ts (r - 2) = Some K_ident
      then root_left ts (r - 2) else r)"

declare root_left.simps [simp del]

function name_right :: "token list \<Rightarrow> nat \<Rightarrow> nat" where
  "name_right ts i =
     (if i + 1 < length ts \<and> kind_at ts (i + 1) = Some K_dot \<and> kind_at ts (i + 2) = Some K_ident
      then name_right ts (i + 2) else i)"
  by pat_completeness auto
termination
  by (relation "measure (\<lambda>(ts, i). length ts - i)") auto

declare name_right.simps [simp del]

text \<open>\<^verbatim>\<open>split('.').pop()\<close>\<close>

fun last_part :: "string \<Rightarrow> string \<Rightarrow> string" where
  "last_part part [] = part"
| "last_part part (c # cs) = (if c = CHR ''.'' then last_part [] cs else last_part (part @ [c]) cs)"

section \<open>Method chains\<close>

record chain =
  ch_root :: string
  ch_methods :: "string list"
  ch_end :: nat
  ch_line :: nat
  ch_args :: nat

definition another_name :: "token list \<Rightarrow> nat \<Rightarrow> bool" where
  "another_name ts i \<longleftrightarrow> i + 2 < length ts \<and> kind_at ts (i + 1) = Some K_dot \<and> kind_at ts (i + 2) = Some K_ident"

function skip_fields :: "token list \<Rightarrow> nat \<Rightarrow> nat" where
  "skip_fields ts i =
     (if another_name ts i \<and> kind_at ts (i + 3) \<noteq> Some K_lparen
      then if word_at ts (i + 2) \<in> set LEVEL \<or> word_at ts (i + 2) \<in> set TERMINAL then i
           else skip_fields ts (i + 2)
      else i)"
  by pat_completeness auto
termination
  by (relation "measure (\<lambda>(ts, i). length ts - i)") (auto simp: another_name_def)

declare skip_fields.simps [simp del]

function take_methods :: "token list \<Rightarrow> nat \<Rightarrow> string list \<Rightarrow> nat \<Rightarrow> string list \<times> nat \<times> nat" where
  "take_methods ts i methods firstArgCount =
     (if another_name ts i
      then let methods' = methods @ [word_at ts (i + 2)] in
        if kind_at ts (i + 3) = Some K_lparen
        then take_methods ts (skipBalanced ts (i + 3) K_lparen K_rparen) methods'
          (if length methods' = 1 then countTopLevelArgs ts (i + 3) else firstArgCount)
        else take_methods ts (i + 2) methods' firstArgCount
      else (methods, firstArgCount, i))"
  by pat_completeness auto
termination
proof (relation "measure (\<lambda>(ts, i, _). length ts - i)")
  fix ts i and methods ms :: "string list" and a
  assume "another_name ts i" "kind_at ts (i + 3) = Some K_lparen"
  then have "i + 3 \<le> skipBalanced ts (i + 3) K_lparen K_rparen" "i < length ts"
    using skipBalanced_bounds [of "i + 3" ts] kind_at_bound [of ts "i + 3"] by (auto simp: another_name_def)
  then show "((ts, skipBalanced ts (i + 3) K_lparen K_rparen, ms,
      if length ms = 1 then countTopLevelArgs ts (i + 3) else a), ts, i, methods, a) \<in> measure (\<lambda>(ts, i, _). length ts - i)"
    by simp
qed (auto simp: another_name_def)

declare take_methods.simps [simp del]

definition walkMethodChain :: "token list \<Rightarrow> nat \<Rightarrow> chain option" where
  "walkMethodChain ts start =
     (if kind_at ts start \<noteq> Some K_ident then None
      else
        let i = skip_fields ts start;
            root = fst (qualifiedName ts i);
            (methods, firstArgCount, e) = take_methods ts i [] 0
        in Some \<lparr>ch_root = root, ch_methods = methods, ch_end = e, ch_line = pl_line (tk_place (ts ! start)),
             ch_args = firstArgCount\<rparr>)"

section \<open>Pipes\<close>

definition skip_call :: "token list \<Rightarrow> nat \<Rightarrow> nat" where
  "skip_call ts i = (if kind_at ts (i + 1) = Some K_lparen then skipBalanced ts (i + 1) K_lparen K_rparen else i)"

lemma name_right_ge: "i \<le> name_right ts i"
proof (induction ts i rule: name_right.induct)
  case (1 ts i)
  then show ?case
    by (subst name_right.simps) (simp add: le_trans [of i "i + 2"])
qed

lemma skip_call_ge: "i \<le> skip_call ts i"
  using skipBalanced_bounds [of "i + 1" ts K_lparen K_rparen] kind_at_bound [of ts "i + 1"]
  by (force simp: skip_call_def)

function pipe_steps :: "token list \<Rightarrow> nat \<Rightarrow> string list \<Rightarrow> string list \<times> nat" where
  "pipe_steps ts i methods =
     (if kind_at ts (i + 1) = Some K_pipe
      then if kind_at ts (i + 2) \<noteq> Some K_ident then (methods, i + 1)
           else let j = name_right ts (i + 2) in pipe_steps ts (skip_call ts j) (methods @ [word_at ts j])
      else (methods, i))"
  by pat_completeness auto
termination
proof (relation "measure (\<lambda>(ts, i, _). length ts - i)")
  fix ts i and methods :: "string list" and j
  assume "kind_at ts (i + 1) = Some K_pipe" "j = name_right ts (i + 2)"
  then have "i + 2 \<le> skip_call ts j" "i + 1 < length ts"
    using name_right_ge [of "i + 2" ts] skip_call_ge [of j ts] by (simp_all add: kind_at_bound)
  then show "((ts, skip_call ts j, methods @ [word_at ts j]), ts, i, methods) \<in> measure (\<lambda>(ts, i, _). length ts - i)"
    by simp
qed simp

declare pipe_steps.simps [simp del]

definition walkGleamPipe :: "token list \<Rightarrow> nat \<Rightarrow> chain option" where
  "walkGleamPipe ts start =
     (if kind_at ts start \<noteq> Some K_ident then None
      else
        let head_start = snd (qualifiedName ts start);
            line = pl_line (tk_place (ts ! head_start));
            i = name_right ts start;
            callee = fst (qualifiedName ts i);
            calleeBase = last_part [] callee
        in if kind_at ts (i + 1) \<noteq> Some K_lparen
           then (if calleeBase \<in> set TERMINAL \<and> kind_before ts head_start 1 = Some K_pipe
                 then Some \<lparr>ch_root = callee, ch_methods = [calleeBase], ch_end = i, ch_line = line, ch_args = 0\<rparr>
                 else None)
           else let (methods, e) = pipe_steps ts (skipBalanced ts (i + 1) K_lparen K_rparen) [calleeBase]
                in Some \<lparr>ch_root = callee, ch_methods = methods, ch_end = e, ch_line = line, ch_args = 0\<rparr>)"


section \<open>The walks go right\<close>

text \<open>A path of dots and names from one token to another.\<close>

inductive dotted :: "token list \<Rightarrow> nat \<Rightarrow> nat \<Rightarrow> bool" for ts where
  here: "dotted ts i i"
| hop: "kind_at ts (s + 1) = Some K_dot \<Longrightarrow> kind_at ts (s + 2) = Some K_ident \<Longrightarrow> dotted ts (s + 2) i \<Longrightarrow> dotted ts s i"

lemma dotted_le: "dotted ts s i \<Longrightarrow> s \<le> i"
  by (induction rule: dotted.induct) auto

lemma dotted_hop: "2 \<le> i \<Longrightarrow> kind_at ts (i - 1) = Some K_dot \<Longrightarrow> kind_at ts i = Some K_ident \<Longrightarrow> dotted ts i j \<Longrightarrow> dotted ts (i - 2) j"
  by (rule dotted.hop) (simp_all add: numeral_2_eq_2 Suc_diff_Suc)

lemma qual_left_dotted:
  "dotted ts i j \<Longrightarrow> kind_at ts i = Some K_ident \<Longrightarrow>
   dotted ts (snd (qual_left ts i name)) j \<and> kind_at ts (snd (qual_left ts i name)) = Some K_ident"
proof (induction ts i name rule: qual_left.induct)
  case (1 ts i name)
  then show ?case
    using dotted_hop [of i ts j] by (subst (1 2) qual_left.simps) auto
qed

lemma qualifiedName_dotted:
  "kind_at ts i = Some K_ident \<Longrightarrow>
   dotted ts (snd (qualifiedName ts i)) i \<and> kind_at ts (snd (qualifiedName ts i)) = Some K_ident"
  using qual_left_dotted [OF dotted.here] by (simp add: qualifiedName_def)

lemma root_left_dotted: "dotted ts r j \<Longrightarrow> dotted ts (root_left ts r) j"
proof (induction ts r rule: root_left.induct)
  case (1 ts r)
  then show ?case
    using dotted_hop [of r ts j] by (subst root_left.simps) auto
qed

lemma name_right_dotted: "dotted ts s i \<Longrightarrow> i \<le> name_right ts s"
proof (induction rule: dotted.induct)
  case (hop s i)
  then show ?case
    using kind_at_bound [OF hop(1)] by (subst name_right.simps) simp
qed (rule name_right_ge)

lemma skip_fields_dotted: "dotted ts s i \<Longrightarrow> i \<le> skip_fields ts s \<or> dotted ts (skip_fields ts s) i"
proof (induction rule: dotted.induct)
  case (hop s i)
  then show ?case
    using dotted.hop [OF hop(1-3)] by (subst (1 2) skip_fields.simps) simp
next
  case (here i)
  have "i \<le> skip_fields ts i"
  proof (induction ts i rule: skip_fields.induct)
    case (1 ts i)
    then show ?case
      by (subst skip_fields.simps) (auto simp: le_trans [of i "i + 2"])
  qed
  then show ?case ..
qed

lemma take_methods_ge: "i \<le> snd (snd (take_methods ts i methods a))"
proof (induction ts i methods a rule: take_methods.induct)
  case (1 ts i methods a)
  have "i \<le> skipBalanced ts (i + 3) K_lparen K_rparen" if "kind_at ts (i + 3) = Some K_lparen"
    using skipBalanced_bounds [OF kind_at_bound [OF that], of K_lparen K_rparen] by simp
  then show ?case
    using 1 le_trans by (subst take_methods.simps) (force simp: Let_def)
qed

lemma take_methods_dotted: "dotted ts s i \<Longrightarrow> i \<le> snd (snd (take_methods ts s methods a))"
proof (induction arbitrary: methods a rule: dotted.induct)
  case (hop s i)
  have n: "another_name ts s"
    using hop(1,2) kind_at_bound [OF hop(2)] by (simp add: another_name_def)
  show ?case
  proof (cases "kind_at ts (s + 3) = Some K_lparen")
    case True
    from hop(3) have "i = s + 2"
    proof (cases rule: dotted.cases)
      case hop
      then show ?thesis
        using True by (simp add: numeral_3_eq_3)
    qed simp
    moreover have "s + 2 \<le> skipBalanced ts (s + 3) K_lparen K_rparen"
      using skipBalanced_bounds [OF kind_at_bound [OF True], of K_lparen K_rparen] by simp
    moreover obtain ms b where "take_methods ts s methods a = take_methods ts (skipBalanced ts (s + 3) K_lparen K_rparen) ms b"
      using n True by (simp add: take_methods.simps [of ts s] Let_def)
    ultimately show ?thesis
      using take_methods_ge [of "skipBalanced ts (s + 3) K_lparen K_rparen" ts ms b] by simp
  next
    case False
    then show ?thesis
      using n hop.IH by (subst take_methods.simps) (simp add: Let_def)
  qed
qed (rule take_methods_ge)

lemma walkMethodChain_end: "walkMethodChain ts s = Some c \<Longrightarrow> dotted ts s i \<Longrightarrow> i \<le> ch_end c"
  using skip_fields_dotted [of ts s i] take_methods_dotted [of ts "skip_fields ts s" i "[]" 0]
    take_methods_ge [of "skip_fields ts s" ts "[]" 0]
  by (auto simp: walkMethodChain_def Let_def split: if_splits prod.splits)

lemma pipe_steps_ge: "i \<le> snd (pipe_steps ts i methods)"
proof (induction ts i methods rule: pipe_steps.induct)
  case (1 ts i methods)
  have "i \<le> skip_call ts (name_right ts (i + 2))"
    using name_right_ge [of "i + 2" ts] skip_call_ge [of "name_right ts (i + 2)" ts] by simp
  then show ?case
    using 1 le_trans by (subst pipe_steps.simps) (force simp: Let_def)
qed

lemma walkGleamPipe_end:
  assumes "walkGleamPipe ts s = Some c" "dotted ts s i"
  shows "i \<le> ch_end c"
proof -
  let ?r = "name_right ts s"
  have r: "i \<le> ?r"
    using name_right_dotted [OF assms(2)] .
  have "?r \<le> snd (pipe_steps ts (skipBalanced ts (?r + 1) K_lparen K_rparen) ms)" if "kind_at ts (?r + 1) = Some K_lparen" for ms
    using skipBalanced_bounds [OF kind_at_bound [OF that], of K_lparen K_rparen]
      pipe_steps_ge [of "skipBalanced ts (?r + 1) K_lparen K_rparen" ts ms] by linarith
  note steps = this
  show ?thesis
  proof (cases "kind_at ts (?r + 1) = Some K_lparen")
    case True
    obtain ms e where "pipe_steps ts (skipBalanced ts (?r + 1) K_lparen K_rparen) [last_part [] (fst (qualifiedName ts ?r))] = (ms, e)"
      by force
    then show ?thesis
      using assms(1) r steps [OF True, of "[last_part [] (fst (qualifiedName ts ?r))]"] True
      by (auto simp: walkGleamPipe_def Let_def split: if_splits)
  next
    case False
    then show ?thesis
      using assms(1) r by (auto simp: walkGleamPipe_def Let_def split: if_splits)
  qed
qed

end
