(* ===== verification/Lint_Scan.thy ===== *)
theory Lint_Scan
  imports Lint_Chains
begin

text \<open>
  \<^verbatim>\<open>analyzeSource\<close> of the require-send lint: suppressions, the scopes with their pending events,
  one turn of the main loop for each language, and the loop.
\<close>

section \<open>Names of loggers\<close>

definition lower :: "char \<Rightarrow> char" where
  "lower c = (if char_between CHR ''A'' CHR ''Z'' c then char_of (of_char c + 32 :: nat) else c)"

definition ends_with :: "string \<Rightarrow> string \<Rightarrow> bool" where
  "ends_with s t \<longleftrightarrow> length t \<le> length s \<and> drop (length s - length t) s = t"

definition looksLikeLogger :: "string \<Rightarrow> bool" where
  "looksLikeLogger name =
     (if name = [] then False
      else
        let base = map lower (last_part [] name)
        in base \<in> set [''log'', ''logger'', ''ddlog'', ''telemetry'', ''audit'', ''self'', ''this''] \<or>
           ends_with base ''logger'' \<or> base = ''log'' \<or> ends_with base ''_log'')"

section \<open>Suppressions\<close>

record suppressions =
  sp_file :: bool
  sp_lines :: "nat list"
  sp_next :: "nat list"

text \<open>A directive, white space, and its argument.\<close>

definition spaced_after :: "string \<Rightarrow> string \<Rightarrow> bool" where
  "spaced_after b s = (s \<noteq> [] \<and> is_space (hd s) \<and> take (length b) (dropWhile is_space s) = b)"

fun has_directive :: "string \<Rightarrow> string \<Rightarrow> string \<Rightarrow> bool" where
  "has_directive a b [] = False"
| "has_directive a b (c # cs) =
     (take (length a) (c # cs) = a \<and> spaced_after b (drop (length a) (c # cs)) \<or> has_directive a b cs)"

fun split_on :: "char \<Rightarrow> string \<Rightarrow> string list" where
  "split_on sep [] = [[]]"
| "split_on sep (c # cs) =
     (case split_on sep cs of
        part # parts \<Rightarrow> if c = sep then [] # part # parts else (c # part) # parts
      | [] \<Rightarrow> [[c]])"

definition lines_with :: "(string \<Rightarrow> bool) \<Rightarrow> string list \<Rightarrow> nat list" where
  "lines_with P raw = map (\<lambda>(i, line). i + 1) (filter (\<lambda>(i, line). P line) (enumerate 0 raw))"

definition collectSuppressions :: "string \<Rightarrow> suppressions" where
  "collectSuppressions source =
     (let raw = split_on NEWLINE source in
      \<lparr>sp_file = has_directive ''ores-lint-disable-file'' ''require-send'' source,
       sp_lines = lines_with (\<lambda>line. has_directive ''ores-lint-disable-line'' ''require-send'' line \<or>
         has_directive ''eslint-disable-line'' ''ores/require-send'' line) raw,
       sp_next = lines_with (\<lambda>line. has_directive ''ores-lint-disable-next-line'' ''require-send'' line \<or>
         has_directive ''eslint-disable-next-line'' ''ores/require-send'' line) raw\<rparr>)"

definition isDisabled :: "suppressions \<Rightarrow> nat \<Rightarrow> bool" where
  "isDisabled supp line =
     (if sp_file supp then True
      else if line \<in> set (sp_lines supp) \<or> line - 1 \<in> set (sp_lines supp) then True
      else if line - 1 \<in> set (sp_next supp) then True
      else False)"

section \<open>Scopes and findings\<close>

record finding =
  fd_line :: nat
  fd_col :: nat

type_synonym pending = "(string \<times> finding) list"

text \<open>A \<^verbatim>\<open>Map\<close> keeps the place of a key that is set again. The innermost scope comes first.\<close>

fun map_put :: "string \<Rightarrow> 'v \<Rightarrow> (string \<times> 'v) list \<Rightarrow> (string \<times> 'v) list" where
  "map_put k v [] = [(k, v)]"
| "map_put k v ((k', v') # ps) = (if k' = k then (k, v) # ps else (k', v') # map_put k v ps)"

record scan_state =
  sn_scopes :: "pending list"
  sn_found :: "finding list"

definition mark :: "string \<Rightarrow> finding \<Rightarrow> scan_state \<Rightarrow> scan_state" where
  "mark name f st =
     (if name = [] then st
      else case sn_scopes st of
        [] \<Rightarrow> st
      | scope # outer \<Rightarrow> st\<lparr>sn_scopes := map_put name f scope # outer\<rparr>)"

fun clear_scopes :: "string \<Rightarrow> pending list \<Rightarrow> pending list" where
  "clear_scopes name [] = []"
| "clear_scopes name (scope # outer) =
     (if name \<in> fst ` set scope then filter (\<lambda>p. fst p \<noteq> name) scope # outer
      else scope # clear_scopes name outer)"

definition clear :: "string \<Rightarrow> scan_state \<Rightarrow> scan_state" where
  "clear name st = (if name = [] then st else st\<lparr>sn_scopes := clear_scopes name (sn_scopes st)\<rparr>)"

definition report_finding :: "suppressions \<Rightarrow> finding \<Rightarrow> scan_state \<Rightarrow> scan_state" where
  "report_finding supp f st = (if isDisabled supp (fd_line f) then st else st\<lparr>sn_found := sn_found st @ [f]\<rparr>)"

definition flushScope :: "suppressions \<Rightarrow> pending \<Rightarrow> scan_state \<Rightarrow> scan_state" where
  "flushScope supp scope st = fold (report_finding supp) (map snd scope) st"

section \<open>One turn\<close>

definition precedingAssignment :: "token list \<Rightarrow> nat \<Rightarrow> string option" where
  "precedingAssignment ts start =
     (if kind_before ts start 1 \<noteq> Some K_eq then None
      else if kind_before ts start 2 \<noteq> Some K_ident then None
      else Some (word_at ts (start - 2)))"

definition isReturnish :: "token list \<Rightarrow> nat \<Rightarrow> bool" where
  "isReturnish ts start =
     (kind_before ts start 1 = Some K_arrow \<or>
      kind_before ts start 1 = Some K_ident \<and> word_at ts (start - 1) = ''return'')"

definition nextNonChainIsSemi :: "token list \<Rightarrow> nat \<Rightarrow> bool" where
  "nextNonChainIsSemi ts e = (kind_at ts (e + 1) = Some K_semi)"

datatype lang = Rust | Dart | Gleam

text \<open>\<^verbatim>\<open>name.send(...)\<close>, and \<^verbatim>\<open>send(name)\<close> or \<^verbatim>\<open>logging.send(name)\<close>.\<close>

definition terminal_use :: "token list \<Rightarrow> nat \<Rightarrow> scan_state \<Rightarrow> scan_state" where
  "terminal_use ts i st =
     (if word_at ts i \<in> set TERMINAL
      then
        let st1 = (if kind_before ts i 1 = Some K_dot \<and> kind_before ts i 2 = Some K_ident
                   then clear (fst (qualifiedName ts (i - 2))) st else st)
        in if kind_at ts (i + 1) = Some K_lparen \<and> kind_at ts (i + 2) = Some K_ident
           then clear (word_at ts (i + 2)) st1 else st1
      else st)"

text \<open>The next index and the next state.\<close>

definition gleam_turn :: "suppressions \<Rightarrow> token list \<Rightarrow> nat \<Rightarrow> scan_state \<Rightarrow> nat \<times> scan_state" where
  "gleam_turn supp ts i st =
     (if word_at ts i \<notin> set LEVEL then (i + 1, st)
      else if kind_before ts i 1 = Some K_ident \<and> word_at ts (i - 1) = ''fn'' then (i + 1, st)
      else
        let start = snd (qualifiedName ts i) in
        if kind_at ts (i + 1) \<noteq> Some K_lparen \<and> kind_before ts start 1 \<noteq> Some K_pipe then (i + 1, st)
        else case walkGleamPipe ts start of
          None \<Rightarrow> (i + 1, st)
        | Some pipe \<Rightarrow>
            if \<not> has_level (ch_methods pipe) then (i + 1, st)
            else if has_terminal (ch_methods pipe) then (ch_end pipe + 1, st)
            else
              let found = \<lparr>fd_line = ch_line pipe, fd_col = pl_col (tk_place (ts ! i))\<rparr>;
                  prev = kind_before ts start 1;
                  after = kind_at ts (ch_end pipe + 1)
              in (ch_end pipe + 1,
                  case precedingAssignment ts start of
                    Some assigned \<Rightarrow> mark assigned found st
                  | None \<Rightarrow>
                      if isReturnish ts start \<or> prev = Some K_lparen \<or> prev = Some K_comma \<or> after = Some K_rbrace
                      then st else report_finding supp found st))"

definition chain_turn :: "lang \<Rightarrow> suppressions \<Rightarrow> token list \<Rightarrow> nat \<Rightarrow> scan_state \<Rightarrow> nat \<times> scan_state" where
  "chain_turn language supp ts i st =
     (if word_at ts i \<in> set LEVEL \<and> kind_before ts i 1 = Some K_dot \<and> kind_at ts (i + 1) = Some K_lparen
      then
        let root = root_left ts (i - 2) in
        if i < 2 \<or> kind_at ts root \<noteq> Some K_ident then (i + 1, st)
        else case walkMethodChain ts root of
          None \<Rightarrow> (i + 1, st)
        | Some chain \<Rightarrow>
            if \<not> looksLikeLogger (ch_root chain) \<and> ch_root chain \<noteq> ''self'' \<and> ch_root chain \<noteq> ''this'' then (i + 1, st)
            else if \<not> has_level (ch_methods chain) then (i + 1, st)
            else if has_terminal (ch_methods chain) then (ch_end chain + 1, st)
            else if length (ch_methods chain) = 1 \<and> 3 \<le> ch_args chain then (ch_end chain + 1, st)
            else
              let found = \<lparr>fd_line = ch_line chain, fd_col = pl_col (tk_place (ts ! root))\<rparr>;
                  prev = kind_before ts root 1
              in (ch_end chain + 1,
                  case precedingAssignment ts root of
                    Some assignName \<Rightarrow> mark assignName found st
                  | None \<Rightarrow>
                      if isReturnish ts root \<or> prev = Some K_lparen \<or> prev = Some K_comma then st
                      else if language = Rust \<and> \<not> nextNonChainIsSemi ts (ch_end chain) then st
                      else report_finding supp found st)
      else (i + 1, st))"

definition lint_turn :: "lang \<Rightarrow> suppressions \<Rightarrow> token list \<Rightarrow> nat \<Rightarrow> scan_state \<Rightarrow> nat \<times> scan_state" where
  "lint_turn language supp ts i st =
     (case tk_kind (ts ! i) of
        K_lbrace \<Rightarrow> (i + 1, st\<lparr>sn_scopes := [] # sn_scopes st\<rparr>)
      | K_rbrace \<Rightarrow>
          (i + 1, case sn_scopes st of
             scope # outer \<Rightarrow> if outer = [] then st else flushScope supp scope (st\<lparr>sn_scopes := outer\<rparr>)
           | [] \<Rightarrow> st)
      | K_ident \<Rightarrow>
          let st1 = terminal_use ts i st
          in if language = Gleam then gleam_turn supp ts i st1 else chain_turn language supp ts i st1
      | _ \<Rightarrow> (i + 1, st))"

section \<open>The loop\<close>

lemma gleam_turn_advances: "kind_at ts i = Some K_ident \<Longrightarrow> i < fst (gleam_turn supp ts i st)"
  using walkGleamPipe_end qualifiedName_dotted [of ts i]
  by (auto simp: gleam_turn_def Let_def less_Suc_eq_le split: option.split)

lemma chain_turn_advances: "kind_at ts i = Some K_ident \<Longrightarrow> i < fst (chain_turn language supp ts i st)"
proof -
  assume k: "kind_at ts i = Some K_ident"
  have "i \<le> ch_end c" if "kind_before ts i 1 = Some K_dot" "\<not> i < 2" "kind_at ts (root_left ts (i - 2)) = Some K_ident"
      "walkMethodChain ts (root_left ts (i - 2)) = Some c" for c
  proof -
    have "dotted ts (i - 2) i"
      using that(1,2) k dotted_hop [of i ts i] by (simp add: kind_before_def dotted.here)
    then show ?thesis
      using walkMethodChain_end [OF that(4)] root_left_dotted by blast
  qed
  then show ?thesis
    by (auto simp: chain_turn_def Let_def less_Suc_eq_le split: option.split)
qed

lemma lint_turn_advances: "i < length ts \<Longrightarrow> i < fst (lint_turn language supp ts i st)"
  using gleam_turn_advances chain_turn_advances
  by (simp add: lint_turn_def kind_at_def Let_def split: kind.split)

function lint_loop :: "lang \<Rightarrow> suppressions \<Rightarrow> token list \<Rightarrow> nat \<Rightarrow> scan_state \<Rightarrow> scan_state" where
  "lint_loop language supp ts i st =
     (if i < length ts
      then case lint_turn language supp ts i st of (i', st') \<Rightarrow> lint_loop language supp ts i' st'
      else st)"
  by pat_completeness auto
termination
  by (relation "measure (\<lambda>(language, supp, ts, i, st). length ts - i)")
    (use lint_turn_advances in \<open>auto simp: case_prod_beta diff_less_mono2\<close>)

declare lint_loop.simps [simp del]

fun flush_all :: "suppressions \<Rightarrow> pending list \<Rightarrow> scan_state \<Rightarrow> scan_state" where
  "flush_all supp [] st = st"
| "flush_all supp (scope # outer) st = flush_all supp outer (flushScope supp scope (st\<lparr>sn_scopes := outer\<rparr>))"

definition analyzeSource :: "string \<Rightarrow> lang \<Rightarrow> finding list" where
  "analyzeSource source language =
     (let supp = collectSuppressions source;
          ts = tokenize source;
          st = lint_loop language supp ts 0 \<lparr>sn_scopes = [[]], sn_found = []\<rparr>
      in sn_found (flush_all supp (sn_scopes st) st))"

end
