(* ===== verification/Lint_Findings.thy ===== *)
theory Lint_Findings
  imports Lint_Scan
begin

text \<open>
  What the require-send lint reports: every finding is a chain of the source that reaches a level
  and no terminal method, on a line that is not suppressed; on a sequence of plain logging
  statements exactly the undelivered ones are found. Two texts show where it errs.
\<close>

section \<open>Every finding is a chain without delivery\<close>

definition chain_found :: "token list \<Rightarrow> lang \<Rightarrow> nat \<Rightarrow> chain \<Rightarrow> finding \<Rightarrow> bool" where
  "chain_found ts language i c f \<longleftrightarrow>
     (if language = Gleam
      then walkGleamPipe ts (snd (qualifiedName ts i)) = Some c \<and> fd_col f = pl_col (tk_place (ts ! i))
      else walkMethodChain ts (root_left ts (i - 2)) = Some c \<and> looksLikeLogger (ch_root c) \<and>
        fd_col f = pl_col (tk_place (ts ! root_left ts (i - 2))))"

definition undelivered :: "token list \<Rightarrow> lang \<Rightarrow> finding \<Rightarrow> bool" where
  "undelivered ts language f \<longleftrightarrow>
     (\<exists>i c. kind_at ts i = Some K_ident \<and> word_at ts i \<in> set LEVEL \<and> chain_found ts language i c f \<and>
        has_level (ch_methods c) \<and> \<not> has_terminal (ch_methods c) \<and> fd_line f = ch_line c)"

definition scan_ok :: "(finding \<Rightarrow> bool) \<Rightarrow> suppressions \<Rightarrow> scan_state \<Rightarrow> bool" where
  "scan_ok good supp st \<longleftrightarrow>
     (\<forall>scope \<in> set (sn_scopes st). \<forall>(name, f) \<in> set scope. good f) \<and>
     (\<forall>f \<in> set (sn_found st). good f \<and> \<not> isDisabled supp (fd_line f))"

lemma map_put_set: "set (map_put k v ps) \<subseteq> insert (k, v) (set ps)"
  by (induction ps) (auto split: if_splits)

lemma clear_scopes_set: "scope \<in> set (clear_scopes name scopes) \<Longrightarrow> \<exists>s \<in> set scopes. set scope \<subseteq> set s"
  by (induction scopes) (auto split: if_splits)

lemma mark_ok: "scan_ok good supp st \<Longrightarrow> good f \<Longrightarrow> scan_ok good supp (mark name f st)"
  using map_put_set [of name f] by (fastforce simp: scan_ok_def mark_def split: list.split)

lemma clear_ok: "scan_ok good supp st \<Longrightarrow> scan_ok good supp (clear name st)"
  using clear_scopes_set by (fastforce simp: scan_ok_def clear_def)

lemma report_ok: "scan_ok good supp st \<Longrightarrow> good f \<Longrightarrow> scan_ok good supp (report_finding supp f st)"
  by (auto simp: scan_ok_def report_finding_def)

lemma flush_ok: "scan_ok good supp st \<Longrightarrow> \<forall>(name, f) \<in> set scope. good f \<Longrightarrow> scan_ok good supp (flushScope supp scope st)"
  by (induction scope arbitrary: st) (auto simp: flushScope_def report_ok)

lemma terminal_use_ok: "scan_ok good supp st \<Longrightarrow> scan_ok good supp (terminal_use ts i st)"
  by (simp add: terminal_use_def Let_def clear_ok)

lemma gleam_turn_ok:
  assumes "scan_ok (undelivered ts Gleam) supp st" "kind_at ts i = Some K_ident"
  shows "scan_ok (undelivered ts Gleam) supp (snd (gleam_turn supp ts i st))"
proof -
  have "undelivered ts Gleam \<lparr>fd_line = ch_line c, fd_col = pl_col (tk_place (ts ! i))\<rparr>"
    if "word_at ts i \<in> set LEVEL" "walkGleamPipe ts (snd (qualifiedName ts i)) = Some c"
      "has_level (ch_methods c)" "\<not> has_terminal (ch_methods c)" for c
    unfolding undelivered_def chain_found_def using that assms(2) by auto
  then show ?thesis
    using assms(1) by (auto simp: gleam_turn_def Let_def mark_ok report_ok split: option.split)
qed

lemma self_logger: "looksLikeLogger ''self'' \<and> looksLikeLogger ''this''"
  by code_simp

lemma chain_turn_ok:
  assumes "scan_ok (undelivered ts language) supp st" "kind_at ts i = Some K_ident" "language \<noteq> Gleam"
  shows "scan_ok (undelivered ts language) supp (snd (chain_turn language supp ts i st))"
proof -
  have "undelivered ts language \<lparr>fd_line = ch_line c, fd_col = pl_col (tk_place (ts ! root_left ts (i - 2)))\<rparr>"
    if "word_at ts i \<in> set LEVEL" "walkMethodChain ts (root_left ts (i - 2)) = Some c"
      "looksLikeLogger (ch_root c) \<or> ch_root c = ''self'' \<or> ch_root c = ''this''"
      "has_level (ch_methods c)" "\<not> has_terminal (ch_methods c)" for c
    unfolding undelivered_def chain_found_def using that assms(2,3) self_logger by auto
  then show ?thesis
    using assms(1) by (auto simp: chain_turn_def Let_def mark_ok report_ok split: option.split)
qed

lemma lint_turn_ok:
  assumes "scan_ok (undelivered ts language) supp st" "i < length ts"
  shows "scan_ok (undelivered ts language) supp (snd (lint_turn language supp ts i st))"
proof (cases "tk_kind (ts ! i)")
  case K_ident
  then have "kind_at ts i = Some K_ident"
    using assms(2) by (simp add: kind_at_def)
  then show ?thesis
    using K_ident gleam_turn_ok [of ts supp "terminal_use ts i st" i] chain_turn_ok [of ts language supp "terminal_use ts i st" i]
      terminal_use_ok [OF assms(1)] by (cases "language = Gleam") (simp_all add: lint_turn_def Let_def)
next
  case K_lbrace
  then show ?thesis
    using assms(1) by (simp add: lint_turn_def scan_ok_def)
next
  case K_rbrace
  have "scan_ok (undelivered ts language) supp (flushScope supp scope (st\<lparr>sn_scopes := outer\<rparr>))"
    if "sn_scopes st = scope # outer" for scope outer
    using assms(1) that by (intro flush_ok) (auto simp: scan_ok_def)
  then show ?thesis
    using K_rbrace assms(1) by (auto simp: lint_turn_def split: list.split)
qed (use assms(1) in \<open>simp_all add: lint_turn_def\<close>)

lemma lint_loop_ok:
  "scan_ok (undelivered ts language) supp st \<Longrightarrow> scan_ok (undelivered ts language) supp (lint_loop language supp ts i st)"
proof (induction language supp ts i st rule: lint_loop.induct)
  case (1 language supp ts i st)
  show ?case
  proof (cases "i < length ts")
    case True
    obtain j st' where t: "lint_turn language supp ts i st = (j, st')"
      by force
    then have "scan_ok (undelivered ts language) supp st'"
      using lint_turn_ok [OF "1.prems" True] by simp
    then show ?thesis
      using "1.IH" [OF True t [symmetric]] True t by (simp add: lint_loop.simps [of language supp ts i])
  next
    case False
    then show ?thesis
      using "1.prems" by (simp add: lint_loop.simps [of language supp ts i])
  qed
qed

lemma flush_all_ok:
  "scan_ok good supp st \<Longrightarrow> \<forall>scope \<in> set scopes. \<forall>(name, f) \<in> set scope. good f \<Longrightarrow> scan_ok good supp (flush_all supp scopes st)"
proof (induction supp scopes st rule: flush_all.induct)
  case (2 supp scope outer st)
  have "scan_ok good supp (st\<lparr>sn_scopes := outer\<rparr>)"
    using "2.prems" by (auto simp: scan_ok_def)
  then have "scan_ok good supp (flushScope supp scope (st\<lparr>sn_scopes := outer\<rparr>))"
    using "2.prems"(2) by (intro flush_ok) auto
  then show ?case
    using 2 by simp
qed simp

lemma analyze_ok:
  assumes "f \<in> set (analyzeSource source language)"
  shows "undelivered (tokenize source) language f \<and> \<not> isDisabled (collectSuppressions source) (fd_line f)"
proof -
  let ?ts = "tokenize source" and ?supp = "collectSuppressions source"
  let ?st = "lint_loop language ?supp ?ts 0 \<lparr>sn_scopes = [[]], sn_found = []\<rparr>"
  have "scan_ok (undelivered ?ts language) ?supp ?st"
    by (rule lint_loop_ok) (simp add: scan_ok_def)
  then have "scan_ok (undelivered ?ts language) ?supp (flush_all ?supp (sn_scopes ?st) ?st)"
    by (intro flush_all_ok) (auto simp: scan_ok_def)
  then show ?thesis
    using assms by (simp add: analyzeSource_def Let_def scan_ok_def)
qed


section \<open>Statements\<close>

text \<open>
  A logging statement: logger, level, and whether a \<^verbatim>\<open>.send()\<close> follows. Its tokens, blanks between.
\<close>

type_synonym log_statement = "string \<times> string \<times> bool"

definition statement_tokens :: "log_statement \<Rightarrow> (kind \<times> string) list" where
  "statement_tokens s =
     (case s of (logger, level, sent) \<Rightarrow>
        [(K_ident, logger), (K_dot, ''.''), (K_ident, level), (K_lparen, ''(''), (K_ident, ''x''), (K_rparen, '')'')] @
        (if sent then [(K_dot, ''.''), (K_ident, ''send''), (K_lparen, ''(''), (K_rparen, '')'')] else []) @
        [(K_semi, '';'')])"

definition log_source :: "log_statement list \<Rightarrow> string" where
  "log_source ss = write_tokens (concat (map statement_tokens ss))"

fun plain_statement :: "log_statement \<Rightarrow> bool" where
  "plain_statement (logger, level, sent) =
     (plain_token (K_ident, logger) \<and> looksLikeLogger logger \<and> level \<in> set LEVEL)"

definition reads_tokens :: "token list \<Rightarrow> nat \<Rightarrow> (kind \<times> string) list \<Rightarrow> bool" where
  "reads_tokens ts p ks \<longleftrightarrow> (\<forall>j < length ks. kind_at ts (p + j) = Some (fst (ks ! j)) \<and> word_at ts (p + j) = snd (ks ! j))"

lemma reads_tokens_Cons: "reads_tokens ts p (k # ks) \<longleftrightarrow> kind_at ts p = Some (fst k) \<and> word_at ts p = snd k \<and> reads_tokens ts (Suc p) ks"
  by (auto simp: reads_tokens_def All_less_Suc2)

lemma reads_tokens_append: "reads_tokens ts p (ks @ ls) \<longleftrightarrow> reads_tokens ts p ks \<and> reads_tokens ts (p + length ks) ls"
  by (induction ks arbitrary: p) (auto simp: reads_tokens_Cons, simp_all add: reads_tokens_def)

lemma reads_tokens_all: "map (\<lambda>t. (tk_kind t, tk_value t)) ts = ks \<Longrightarrow> reads_tokens ts 0 ks"
  by (auto simp: reads_tokens_def kind_at_def word_at_def)

lemma loop_turn:
  "kind_at ts i = Some k \<Longrightarrow> lint_turn language supp ts i st = (j, st') \<Longrightarrow>
   lint_loop language supp ts i st = lint_loop language supp ts j st'"
  using kind_at_bound [of ts i] by (simp add: lint_loop.simps [of language supp ts i])

lemma drop_at: "kind_at ts i = Some k \<Longrightarrow> \<exists>t. drop i ts = t # drop (Suc i) ts \<and> tk_kind t = k"
  using Cons_nth_drop_Suc [of i ts] by (auto simp: kind_at_def split: if_splits intro!: exI [of _ "ts ! i"])

lemma call_one:
  assumes "kind_at ts q = Some K_lparen" "kind_at ts (Suc q) = Some K_ident" "kind_at ts (Suc (Suc q)) = Some K_rparen"
  shows "skipBalanced ts q K_lparen K_rparen = Suc (Suc q)" "countTopLevelArgs ts q = 1"
  using drop_at [OF assms(1)] drop_at [OF assms(2)] drop_at [OF assms(3)] assms(1)
  by (auto simp: skipBalanced_def countTopLevelArgs_def)

lemma call_none:
  assumes "kind_at ts q = Some K_lparen" "kind_at ts (Suc q) = Some K_rparen"
  shows "skipBalanced ts q K_lparen K_rparen = Suc q"
  using drop_at [OF assms(1)] drop_at [OF assms(2)] by (auto simp: skipBalanced_def)

definition at_statement :: "token list \<Rightarrow> nat \<Rightarrow> bool" where
  "at_statement ts p \<longleftrightarrow> kind_before ts p 1 \<in> {None, Some K_semi}"

lemma statement_chain:
  assumes "reads_tokens ts p (statement_tokens (logger, level, sent))" "at_statement ts p"
  shows "walkMethodChain ts p = Some \<lparr>ch_root = logger, ch_methods = (if sent then [level, ''send''] else [level]),
      ch_end = p + (if sent then 9 else 5), ch_line = pl_line (tk_place (ts ! p)), ch_args = 1\<rparr>"
proof -
  note r = assms(1) [unfolded statement_tokens_def prod.case]
  have k: "kind_at ts p = Some K_ident" "kind_at ts (Suc p) = Some K_dot" "kind_at ts (Suc (Suc p)) = Some K_ident"
      "kind_at ts (Suc (Suc (Suc p))) = Some K_lparen" "kind_at ts (Suc (Suc (Suc (Suc p)))) = Some K_ident"
      "kind_at ts (Suc (Suc (Suc (Suc (Suc p))))) = Some K_rparen"
    and w: "word_at ts p = logger" "word_at ts (Suc (Suc p)) = level"
    using r by (simp_all add: reads_tokens_Cons)
  have root: "qualifiedName ts p = (logger, p)"
    using k(1) w(1) assms(2)
    by (auto simp: qualifiedName_def qual_left.simps [of ts p] at_statement_def kind_before_def)
  have n: "another_name ts p"
    using k kind_at_bound [OF k(4)] by (simp add: another_name_def)
  have fields: "skip_fields ts p = p"
    using n k by (simp add: skip_fields.simps [of ts p] numeral_3_eq_3)
  have first: "take_methods ts p [] 0 = take_methods ts (p + 5) [level] 1"
    using n k w call_one [OF k(4-6)] by (simp add: take_methods.simps [of ts p] numeral_3_eq_3 eval_nat_numeral)
  have rest: "take_methods ts (p + 5) [level] 1 = (if sent then [level, ''send''] else [level], 1, p + (if sent then 9 else 5))"
  proof (cases sent)
    case True
    have m: "kind_at ts (p + 6) = Some K_dot" "kind_at ts (p + 7) = Some K_ident" "kind_at ts (p + 8) = Some K_lparen"
        "kind_at ts (p + 9) = Some K_rparen" "kind_at ts (p + 10) = Some K_semi" "word_at ts (p + 7) = ''send''"
      using r True by (simp_all add: reads_tokens_Cons eval_nat_numeral)
    have o': "another_name ts (p + 5)" "\<not> another_name ts (p + 9)"
      using m kind_at_bound [OF m(3)] by (simp_all add: another_name_def add.commute)
    have c: "skipBalanced ts (p + 8) K_lparen K_rparen = p + 9"
      using call_none [of ts "p + 8"] m by (simp add: add.commute)
    show ?thesis
      using m [unfolded add.commute [of p]] o' [unfolded add.commute [of p]] c [unfolded add.commute [of p]] True
      by (simp add: take_methods.simps [of ts "5 + p"] take_methods.simps [of ts "9 + p"] add.commute [of p])
  next
    case False
    have "kind_at ts (p + 6) = Some K_semi"
      using r False by (simp_all add: reads_tokens_Cons eval_nat_numeral)
    then have "\<not> another_name ts (p + 5)"
      by (simp add: another_name_def add.commute)
    then show ?thesis
      using False by (simp add: take_methods.simps [of ts "p + 5"])
  qed
  show ?thesis
    using k(1) rest by (simp add: walkMethodChain_def fields root first)
qed


lemma not_terminal: "looksLikeLogger w \<Longrightarrow> w \<notin> set TERMINAL"
proof -
  have "\<not> looksLikeLogger ''send'' \<and> \<not> looksLikeLogger ''send_with_store''"
    by code_simp
  then show "looksLikeLogger w \<Longrightarrow> w \<notin> set TERMINAL"
    by (auto simp: TERMINAL_def)
qed

lemma level_words: "l \<in> set LEVEL \<Longrightarrow> l \<notin> set TERMINAL" "''send'' \<in> set TERMINAL" "''send'' \<notin> set LEVEL"
  by (auto simp: LEVEL_def TERMINAL_def)

definition finding_at :: "token list \<Rightarrow> nat \<Rightarrow> finding" where
  "finding_at ts p = \<lparr>fd_line = pl_line (tk_place (ts ! p)), fd_col = pl_col (tk_place (ts ! p))\<rparr>"

lemma turn_other: "kind_at ts i = Some k \<Longrightarrow> k \<notin> {K_lbrace, K_rbrace, K_ident} \<Longrightarrow> lint_turn language supp ts i st = (i + 1, st)"
  by (auto simp: lint_turn_def kind_at_def split: if_splits kind.split)

lemma turn_ident:
  assumes "kind_at ts i = Some K_ident" "word_at ts i \<notin> set TERMINAL" "language \<noteq> Gleam"
  shows "lint_turn language supp ts i st = chain_turn language supp ts i st"
  using assms by (auto simp: lint_turn_def kind_at_def terminal_use_def Let_def split: if_splits)

lemma statement_length: "length (statement_tokens (logger, level, sent)) = (if sent then 11 else 7)"
  by (simp add: statement_tokens_def)

lemma statement_loop:
  assumes r: "reads_tokens ts p (statement_tokens (logger, level, sent))" and a: "at_statement ts p"
    and s: "plain_statement (logger, level, sent)" and l: "language \<noteq> Gleam"
  shows "lint_loop language supp ts p st =
      lint_loop language supp ts (p + length (statement_tokens (logger, level, sent)))
        (if sent then st else report_finding supp (finding_at ts p) st)"
proof -
  have k: "kind_at ts p = Some K_ident" "kind_at ts (p + 1) = Some K_dot" "kind_at ts (p + 2) = Some K_ident"
      "kind_at ts (p + 3) = Some K_lparen" and w: "word_at ts p = logger" "word_at ts (p + 2) = level"
    using r by (simp_all add: statement_tokens_def reads_tokens_Cons eval_nat_numeral)
  let ?e = "p + (if sent then 10 else 6)"
  have semi: "kind_at ts ?e = Some K_semi"
    using r by (auto simp: statement_tokens_def reads_tokens_Cons eval_nat_numeral)
  have before: "kind_before ts p 1 \<noteq> Some K_dot" "kind_before ts p 1 \<noteq> Some K_eq" "kind_before ts p 1 \<noteq> Some K_arrow"
      "kind_before ts p 1 \<noteq> Some K_ident" "kind_before ts p 1 \<noteq> Some K_lparen" "kind_before ts p 1 \<noteq> Some K_comma"
    using a by (auto simp: at_statement_def)
  have one: "lint_turn language supp ts p st = (p + 1, st)"
    using turn_ident [OF k(1) _ l] w(1) s not_terminal before(1) by (simp add: chain_turn_def)
  have two: "lint_turn language supp ts (p + 1) st = (p + 2, st)"
    using turn_other [OF k(2)] by simp
  have root: "root_left ts p = p"
    using before(1) by (auto simp: root_left.simps [of ts p] kind_before_def)
  have found: "precedingAssignment ts p = None" "\<not> isReturnish ts p"
    using before by (simp_all add: precedingAssignment_def isReturnish_def)
  note c = statement_chain [OF r a]
  have lv: "has_level (if sent then [level, ''send''] else [level])" "has_terminal (if sent then [level, ''send''] else [level]) = sent"
    using s level_words by (auto simp: has_level_def has_terminal_def)
  have next_semi: "\<not> sent \<Longrightarrow> nextNonChainIsSemi ts (p + 5)"
    using semi by (simp add: nextNonChainIsSemi_def add.commute)
  have "chain_turn language supp ts (p + 2) st =
      (?e, if sent then st else report_finding supp (finding_at ts p) st)"
    using k w s c lv found before next_semi
    by (simp add: chain_turn_def root kind_before_def finding_at_def Let_def add.commute numeral_3_eq_3)
  then have three: "lint_turn language supp ts (p + 2) st =
      (?e, if sent then st else report_finding supp (finding_at ts p) st)"
    using turn_ident [OF k(3) _ l] w(2) s level_words(1) by simp
  have "lint_loop language supp ts p st = lint_loop language supp ts ?e (if sent then st else report_finding supp (finding_at ts p) st)"
    using loop_turn [OF k(1) one] loop_turn [OF k(2) two] loop_turn [OF k(3) three] by simp
  also have "\<dots> = lint_loop language supp ts (?e + 1) (if sent then st else report_finding supp (finding_at ts p) st)"
    by (rule loop_turn [OF semi turn_other [OF semi]]) simp
  finally show ?thesis
    by (cases sent) (simp_all add: statement_length add.commute)
qed


text \<open>Where the statements start, and whether they deliver.\<close>

fun statement_starts :: "nat \<Rightarrow> log_statement list \<Rightarrow> (nat \<times> bool) list" where
  "statement_starts p [] = []"
| "statement_starts p (s # ss) = (p, snd (snd s)) # statement_starts (p + length (statement_tokens s)) ss"

definition missing_sends :: "token list \<Rightarrow> nat \<Rightarrow> log_statement list \<Rightarrow> finding list" where
  "missing_sends ts p ss = map (\<lambda>(i, _). finding_at ts i) (filter (\<lambda>(_, sent). \<not> sent) (statement_starts p ss))"

lemma statements_loop:
  assumes "reads_tokens ts p (concat (map statement_tokens ss))" "at_statement ts p" "list_all plain_statement ss"
    and "language \<noteq> Gleam" "length ts = p + length (concat (map statement_tokens ss))"
  shows "lint_loop language supp ts p st = fold (report_finding supp) (missing_sends ts p ss) st"
  using assms(1-3,5)
proof (induction ss arbitrary: p st)
  case Nil
  then show ?case
    by (simp add: lint_loop.simps [of language supp ts p] missing_sends_def)
next
  case (Cons s ss)
  obtain logger level sent where s: "s = (logger, level, sent)"
    by (metis prod_cases3)
  let ?q = "p + length (statement_tokens s)"
  have r: "reads_tokens ts p (statement_tokens s)" "reads_tokens ts ?q (concat (map statement_tokens ss))"
    using Cons.prems(1) by (simp_all add: reads_tokens_append)
  have "kind_at ts (?q - 1) = Some K_semi" "1 \<le> ?q"
    using r(1) by (auto simp: s statement_tokens_def reads_tokens_Cons eval_nat_numeral)
  then have "at_statement ts ?q"
    by (simp add: at_statement_def kind_before_def)
  moreover have "length ts = ?q + length (concat (map statement_tokens ss))" "list_all plain_statement ss"
    using Cons.prems(3,4) by simp_all
  ultimately have rest: "lint_loop language supp ts ?q st' = fold (report_finding supp) (missing_sends ts ?q ss) st'" for st'
    using Cons.IH r(2) by blast
  have "lint_loop language supp ts p st =
      lint_loop language supp ts ?q (if sent then st else report_finding supp (finding_at ts p) st)"
    using statement_loop [OF r(1) [unfolded s] Cons.prems(2) _ assms(4)] Cons.prems(3) s by simp
  then show ?case
    unfolding rest by (cases sent) (simp_all add: missing_sends_def s)
qed

lemma report_all: "\<not> sp_file supp \<Longrightarrow> sp_lines supp = [] \<Longrightarrow> sp_next supp = [] \<Longrightarrow>
  fold (report_finding supp) fs st = st\<lparr>sn_found := sn_found st @ fs\<rparr>"
  by (induction fs arbitrary: st) (simp_all add: report_finding_def isDisabled_def)

text \<open>A text without a hyphen has no directive.\<close>

lemma directive_hyphen: "has_directive a b src \<Longrightarrow> set a \<subseteq> set src"
  by (induction src) (auto, metis in_set_takeD set_ConsD)

lemma split_on_chars: "line \<in> set (split_on sep src) \<Longrightarrow> set line \<subseteq> set src"
  by (induction src arbitrary: line) (fastforce split: list.splits if_splits)+

lemma no_directive:
  assumes "CHR ''-'' \<notin> set source"
  shows "collectSuppressions source = \<lparr>sp_file = False, sp_lines = [], sp_next = []\<rparr>"
proof -
  have n: "\<not> has_directive a b line" if "CHR ''-'' \<in> set a" "set line \<subseteq> set source" for a b line
    using that assms directive_hyphen by blast
  have none: "lines_with P (split_on NEWLINE source) = []" if "\<And>line. set line \<subseteq> set source \<Longrightarrow> \<not> P line" for P
    using that split_on_chars by (auto simp: lines_with_def filter_empty_conv dest!: in_set_enumerate_eq [THEN iffD1] nth_mem)
  show ?thesis
    unfolding collectSuppressions_def Let_def by (simp add: n none)
qed

lemma plain_statement_tokens: "plain_statement s \<Longrightarrow> list_all plain_token (statement_tokens s)"
proof -
  assume s: "plain_statement s"
  obtain logger level sent where e: "s = (logger, level, sent)"
    by (metis prod_cases3)
  have "list_all (\<lambda>l. plain_token (K_ident, l)) (''x'' # ''send'' # LEVEL)"
    by code_simp
  then show ?thesis
    using s e by (auto simp: statement_tokens_def list_all_iff singles_def simp del: plain_token.simps) (auto simp: singles_def)
qed

lemma log_source_hyphen:
  assumes "list_all plain_token ts"
  shows "CHR ''-'' \<notin> set (write_tokens ts)"
proof -
  have "CHR ''-'' \<notin> set v" if "plain_token (k, v)" for k v
    using that by (auto simp: singles_def list_all_iff ident_char_def ident_start_def char_between_def split: if_splits)
  then show ?thesis
    using assms by (auto simp: write_tokens_def list_all_iff)
qed

lemma analyze_statements:
  assumes "list_all plain_statement ss" "language \<noteq> Gleam"
  shows "analyzeSource (log_source ss) language = missing_sends (tokenize (log_source ss)) 0 ss"
proof -
  let ?ks = "concat (map statement_tokens ss)" and ?ts = "tokenize (log_source ss)"
  let ?supp = "collectSuppressions (log_source ss)"
  have p: "list_all plain_token ?ks"
    using assms(1) plain_statement_tokens by (fastforce simp: list_all_iff)
  have m: "map (\<lambda>t. (tk_kind t, tk_value t)) ?ts = ?ks"
    unfolding tokenize_def log_source_def by (rule tokens_written [OF p])
  have supp: "?supp = \<lparr>sp_file = False, sp_lines = [], sp_next = []\<rparr>"
    unfolding log_source_def by (rule no_directive [OF log_source_hyphen [OF p]])
  have "lint_loop language ?supp ?ts 0 st = fold (report_finding ?supp) (missing_sends ?ts 0 ss) st" for st
    by (rule statements_loop [OF reads_tokens_all [OF m] _ assms(1,2)])
      (simp_all add: at_statement_def kind_before_def m [THEN arg_cong [of _ _ length], simplified])
  then show ?thesis
    by (simp add: analyzeSource_def Let_def report_all supp flushScope_def)
qed


section \<open>The two guarantees\<close>

text \<open>
  C39. Whatever the source and the language, a finding of \<open>analyzeSource\<close> is a chain of that source
  that reaches a level method and calls neither \<^verbatim>\<open>send\<close> nor \<^verbatim>\<open>send_with_store\<close>, in Rust and Dart
  on a name that looks like a logger, and its line is not suppressed.
\<close>

theorem lint_findings_undelivered:
  assumes "f \<in> set (analyzeSource source language)"
  shows "(\<exists>i c. kind_at (tokenize source) i = Some K_ident \<and> word_at (tokenize source) i \<in> set LEVEL \<and>
      chain_found (tokenize source) language i c f \<and> has_level (ch_methods c) \<and>
      \<not> has_terminal (ch_methods c) \<and> fd_line f = ch_line c) \<and>
    \<not> isDisabled (collectSuppressions source) (fd_line f)"
  using analyze_ok [OF assms] unfolding undelivered_def .

definition one_missing :: "log_statement list" where
  "one_missing = [(''log'', ''info'', True), (''audit'', ''warn'', False)]"

lemma one_missing_finding: "missing_sends (tokenize (log_source one_missing)) 0 one_missing = [\<lparr>fd_line = 1, fd_col = 31\<rparr>]"
  by code_simp

lemma one_missing_plain: "list_all plain_statement one_missing"
  by code_simp

theorem lint_findings_undelivered_witness:
  "(\<exists>i c. word_at (tokenize (log_source one_missing)) i \<in> set LEVEL \<and>
      walkMethodChain (tokenize (log_source one_missing)) (root_left (tokenize (log_source one_missing)) (i - 2)) = Some c \<and>
      \<not> has_terminal (ch_methods c) \<and> ch_line c = 1) \<and>
   \<not> isDisabled (collectSuppressions (log_source one_missing)) 1"
proof -
  have "\<lparr>fd_line = 1, fd_col = 31\<rparr> \<in> set (analyzeSource (log_source one_missing) Rust)"
    using analyze_statements [OF one_missing_plain, of Rust] one_missing_finding by simp
  from lint_findings_undelivered [OF this]
  show ?thesis
    unfolding chain_found_def by auto
qed

text \<open>
  C38. On a sequence of logging statements, each a logger, a level with one argument and perhaps
  \<^verbatim>\<open>.send()\<close>, the lint for Rust and Dart reports exactly the statements without \<^verbatim>\<open>.send()\<close>, in
  order, each at its first token.
\<close>

theorem lint_statements_exact:
  assumes "list_all plain_statement ss" "language \<noteq> Gleam"
  shows "analyzeSource (log_source ss) language = missing_sends (tokenize (log_source ss)) 0 ss \<and>
    length (analyzeSource (log_source ss) language) = length (filter (\<lambda>(logger, level, sent). \<not> sent) ss)"
proof -
  have "length (missing_sends ts p ss) = length (filter (\<lambda>(logger, level, sent). \<not> sent) ss)" for ts p
    by (induction ss arbitrary: p) (auto simp: missing_sends_def)
  then show ?thesis
    using analyze_statements [OF assms] by simp
qed

theorem lint_statements_exact_witness:
  "analyzeSource (log_source one_missing) Dart = [\<lparr>fd_line = 1, fd_col = 31\<rparr>]"
  using lint_statements_exact [OF one_missing_plain, of Dart] one_missing_finding by simp

section \<open>Where it errs\<close>

text \<open>
  A lone Rust lifetime opens a string that swallows the rest of its line, and a type annotation
  is taken for the name a chain is assigned to.
\<close>

definition QT :: string where "QT = [QUOTE]"

lemma lint_lifetime_hides:
  "analyzeSource (''fn f(x: &'' @ QT @ ''a str) { log.info(x); }'') Rust = []"
  "analyzeSource ''fn f(x: &str) { log.info(x); }'' Rust = [\<lparr>fd_line = 1, fd_col = 17\<rparr>]"
  by code_simp+

lemma lint_annotation_flagged:
  "analyzeSource ''let e: Event = log.info(x); e.send();'' Rust = [\<lparr>fd_line = 1, fd_col = 16\<rparr>]"
  "analyzeSource ''let e = log.info(x); e.send();'' Rust = []"
  by code_simp+

end
