(* ===== verification/Lint_Report.thy ===== *)
theory Lint_Report
  imports Lint_Findings
begin

text \<open>
  Around the require-send scanner: which tracked files it reads, the report, and the whole
  program.
\<close>

section \<open>Text\<close>

fun joined :: "string \<Rightarrow> string list \<Rightarrow> string" where
  "joined sep [] = []"
| "joined sep [x] = x"
| "joined sep (x # y # xs) = x @ sep @ joined sep (y # xs)"

fun contains :: "string \<Rightarrow> string \<Rightarrow> bool" where
  "contains sub [] = (sub = [])"
| "contains sub (c # cs) = (take (length sub) (c # cs) = sub \<or> contains sub cs)"

definition starts_with :: "string \<Rightarrow> string \<Rightarrow> bool" where
  "starts_with s t \<longleftrightarrow> take (length t) s = t"

abbreviation newline :: string where "newline \<equiv> [NEWLINE]"

section \<open>Files\<close>

definition SKIP_DIR :: "string list" where
  "SKIP_DIR = [''node_modules'', ''target'', ''dist'', ''build'', ''out'', ''vendor'', ''coverage'',
     ''.git'', ''.worktrees'', ''_to_delete'', ''.next'', ''.ores-lint'', ''.vendor'',
     ''deps'', ''third_party'', ''thirdparty'', ''external'', ''submodules'', ''.r2g'']"

definition is_test_path :: "string \<Rightarrow> bool" where
  "is_test_path rel =
     (let low = map lower rel in
      list_ex (\<lambda>p. p \<in> set [''test'', ''tests'', ''spec'']) (butlast (split_on CHR ''/'' low)) \<or>
      ends_with low ''_test.dart'' \<or> ends_with low ''_test.gleam'' \<or> ends_with low ''_test.rs'' \<or>
      contains ''.test.'' low \<or> contains ''.spec.'' low)"

text \<open>The parsed nested-repos.json, where it could be read.\<close>

definition nestedRepos :: "jsval option \<Rightarrow> jsval list" where
  "nestedRepos raw = (case raw of Some (JArr xs) \<Rightarrow> xs | _ \<Rightarrow> [])"

definition wanted_file :: "(jsval \<Rightarrow> string) \<Rightarrow> bool \<Rightarrow> jsval list \<Rightarrow> string \<Rightarrow> bool" where
  "wanted_file text includeTests nested rel =
     (if \<not> (ends_with rel ''.rs'' \<or> ends_with rel ''.dart'' \<or> ends_with rel ''.gleam'') then False
      else if list_ex (\<lambda>p. p \<in> set SKIP_DIR) (split_on CHR ''/'' rel) then False
      else if list_ex (\<lambda>n. JStr rel = n \<or> starts_with rel (text n @ ''/'')) nested then False
      else if \<not> includeTests \<and> is_test_path rel then False
      else True)"

text \<open>The output of \<^verbatim>\<open>git ls-files -z\<close>, or nothing where git fails.\<close>

definition trackedFiles :: "(jsval \<Rightarrow> string) \<Rightarrow> bool \<Rightarrow> jsval option \<Rightarrow> string option \<Rightarrow> string list" where
  "trackedFiles text includeTests nested_json output =
     (case output of
        None \<Rightarrow> []
      | Some out \<Rightarrow>
          filter (wanted_file text includeTests (nestedRepos nested_json))
            (filter (\<lambda>rel. rel \<noteq> []) (split_on CHR 0x00 out)))"

section \<open>The report\<close>

type_synonym scanned = "(string \<times> finding list) list"

definition all_findings :: "scanned \<Rightarrow> (string \<times> finding) list" where
  "all_findings results = concat (map (\<lambda>(file, fs). map (\<lambda>f. (file, f)) fs) results)"

definition location :: "string \<times> finding \<Rightarrow> string" where
  "location f = fst f @ '':'' @ nat_digits (fd_line (snd f)) @ '':'' @ nat_digits (fd_col (snd f))"

definition plural :: "nat \<Rightarrow> string" where
  "plural n = (if n = 1 then '''' else ''s'')"

text \<open>\<open>shown\<close> is the number of locations shown.\<close>

definition formatReport :: "nat \<Rightarrow> scanned \<Rightarrow> string" where
  "formatReport shown results =
     (let all = all_findings results in
      if all = [] then
        (if results \<noteq> []
         then ''ores-lint[require-send]: clean ('' @ nat_digits (length results) @ '' file'' @ plural (length results) @ '' scanned)'' @ newline
         else ''ores-lint[require-send]: no Rust/Dart/Gleam source to scan'' @ newline)
      else
        joined newline (
          [''ores-lint[require-send]: '' @ nat_digits (length all) @ '' finding(s) across 1 rule(s) in '' @
             nat_digits (length (filter (\<lambda>r. snd r \<noteq> []) results)) @ '' file(s)'',
           '''',
           ''  warning: logging chain never delivered (ores custom rule)  [require-send]'',
           ''    '' @ nat_digits (length all) @ '' instance(s); showing '' @ nat_digits (min (length all) shown) @ '':''] @
          map (\<lambda>f. ''      '' @ location f) (take shown all) @
          (if shown < length all then [''      ... and '' @ nat_digits (length all - shown) @ '' more''] else []) @
          ['''']) @ newline)"

definition language_of :: "string \<Rightarrow> lang" where
  "language_of rel = (if ends_with rel ''.gleam'' then Gleam else if ends_with rel ''.dart'' then Dart else Rust)"

text \<open>\<open>read\<close> is the file's text, or nothing where it is absent or cannot be read.\<close>

definition scan_files :: "(string \<Rightarrow> string option) \<Rightarrow> string list \<Rightarrow> scanned" where
  "scan_files read files =
     concat (map (\<lambda>rel. case read rel of
        None \<Rightarrow> [] | Some source \<Rightarrow> [(rel, analyzeSource source (language_of rel))]) files)"

definition lint_main :: "bool \<Rightarrow> nat \<Rightarrow> (string \<Rightarrow> string option) \<Rightarrow> string list \<Rightarrow> string" where
  "lint_main skip shown read files =
     (if skip then ''ores-lint[require-send]: skipped (ORES_LINT_SKIP_REQUIRE_SEND=1)'' @ newline
      else formatReport shown (scan_files read files))"

section \<open>What is read and reported\<close>

lemma trackedFiles_wanted:
  assumes "rel \<in> set (trackedFiles text includeTests nested output)"
  shows "(\<exists>e \<in> {''.rs'', ''.dart'', ''.gleam''}. ends_with rel e) \<and>
    set (split_on CHR ''/'' rel) \<inter> set SKIP_DIR = {} \<and> (includeTests \<or> \<not> is_test_path rel) \<and> JStr rel \<notin> set (nestedRepos nested)"
  using assms by (auto simp: trackedFiles_def wanted_file_def list_ex_iff split: option.splits if_splits)

lemma all_findings_Nil: "all_findings results = [] \<longleftrightarrow> (\<forall>(file, fs) \<in> set results. fs = [])"
  by (auto simp: all_findings_def)

text \<open>A clean report says that every file that could be read has no finding.\<close>

lemma clean_main:
  "all_findings (scan_files read files) = [] \<longleftrightarrow>
     (\<forall>rel \<in> set files. \<forall>source. read rel = Some source \<longrightarrow> analyzeSource source (language_of rel) = [])"
  unfolding all_findings_Nil by (fastforce simp: scan_files_def split: option.splits)

end
