(* ===== verification/Lint_Format.thy ===== *)
theory Lint_Format
  imports Lint_Report
begin

text \<open>
  The capped ESLint formatter (.ores-lint/eslint/formatter.mjs): one pass over the results into
  a table of rules, and the text. The table is what counting and filtering the messages gives.
\<close>

section \<open>The pass over the results\<close>

text \<open>No rule id is a name every object inherits; line 0 stands for a missing line.\<close>

record eslint_message =
  em_severity :: nat
  em_rule :: "string option"
  em_line :: nat
  em_column :: nat
  em_text :: string

record eslint_result =
  er_path :: string
  er_messages :: "eslint_message list"

record rule_entry =
  re_count :: nat
  re_examples :: "string list"
  re_severity :: nat
  re_text :: string

record format_state =
  fm_by_rule :: "(string \<times> rule_entry) list"
  fm_files :: nat
  fm_errors :: nat
  fm_warnings :: nat
  fm_parse_errors :: "string list"

definition LABELS :: "(string \<times> string) list" where
  "LABELS = [(''semi'', ''missing semicolon (ores house style)''),
     (''ores/semi'', ''missing semicolon (ores house style)''),
     (''ores/require-send'', ''logging chain never delivered (ores custom rule)'')]"

fun drop_first :: "string \<Rightarrow> string \<Rightarrow> string" where
  "drop_first sub [] = []"
| "drop_first sub (c # cs) =
     (if take (length sub) (c # cs) = sub then drop (length sub) (c # cs) else c # drop_first sub cs)"

definition example_of :: "string \<Rightarrow> eslint_message \<Rightarrow> string" where
  "example_of rel m = rel @ '':'' @ nat_digits (em_line m) @ '':'' @ nat_digits (em_column m)"

definition rule_of :: "eslint_message \<Rightarrow> string option" where
  "rule_of m = (if em_rule m = Some [] then None else em_rule m)"

definition count_message :: "nat \<Rightarrow> string \<Rightarrow> eslint_message \<Rightarrow> format_state \<Rightarrow> format_state" where
  "count_message shown rel m st =
     (let st1 = (if em_severity m = 2 then st\<lparr>fm_errors := fm_errors st + 1\<rparr> else st\<lparr>fm_warnings := fm_warnings st + 1\<rparr>) in
      case rule_of m of
        None \<Rightarrow> st1\<lparr>fm_parse_errors := fm_parse_errors st1 @ [rel @ '':'' @ nat_digits (em_line m) @ '': '' @ em_text m]\<rparr>
      | Some rule \<Rightarrow>
          let entry = (case map_of (fm_by_rule st1) rule of
                Some e \<Rightarrow> e
              | None \<Rightarrow> \<lparr>re_count = 0, re_examples = [], re_severity = em_severity m, re_text = em_text m\<rparr>);
              entry1 = entry\<lparr>re_count := re_count entry + 1\<rparr>;
              entry2 = (if length (re_examples entry1) < shown
                        then entry1\<lparr>re_examples := re_examples entry1 @ [example_of rel m]\<rparr> else entry1)
          in st1\<lparr>fm_by_rule := map_put rule entry2 (fm_by_rule st1)\<rparr>)"

definition count_result :: "nat \<Rightarrow> string \<Rightarrow> eslint_result \<Rightarrow> format_state \<Rightarrow> format_state" where
  "count_result shown cwd r st =
     (if er_messages r = [] then st
      else fold (count_message shown (drop_first (cwd @ ''/'') (er_path r))) (er_messages r) (st\<lparr>fm_files := fm_files st + 1\<rparr>))"

definition format_start :: format_state where
  "format_start = \<lparr>fm_by_rule = [], fm_files = 0, fm_errors = 0, fm_warnings = 0, fm_parse_errors = []\<rparr>"

definition count_results :: "nat \<Rightarrow> string \<Rightarrow> eslint_result list \<Rightarrow> format_state" where
  "count_results shown cwd results = fold (count_result shown cwd) results format_start"

section \<open>The text\<close>

text \<open>Two stable sorts stand for the comparison by house rule, then by frequency.\<close>

definition ordered_rules :: "(string \<times> rule_entry) list \<Rightarrow> (string \<times> rule_entry) list" where
  "ordered_rules by_rule =
     sort_key (\<lambda>e. if map_of LABELS (fst e) \<noteq> None then 0 else 1 :: nat)
       (sort_key (\<lambda>e. - int (re_count (snd e))) by_rule)"

definition rule_block :: "nat \<Rightarrow> string \<times> rule_entry \<Rightarrow> string list" where
  "rule_block shown e =
     (let rule = fst e; entry = snd e;
          sev = (if re_severity entry = 2 then ''error'' else ''warning'');
          label = (case map_of LABELS rule of Some l \<Rightarrow> l | None \<Rightarrow> re_text entry)
      in ['''', ''  '' @ sev @ '': '' @ label @ ''  ['' @ rule @ '']'',
          ''    '' @ nat_digits (re_count entry) @ '' instance(s); showing '' @ nat_digits (min (re_count entry) shown) @ '':''] @
         map (\<lambda>ex. ''      '' @ ex) (re_examples entry) @
         (if shown < re_count entry then [''      ... and '' @ nat_digits (re_count entry - shown) @ '' more''] else []))"

definition oresFormatter :: "nat \<Rightarrow> string \<Rightarrow> eslint_result list \<Rightarrow> string" where
  "oresFormatter shown cwd results =
     (let st = count_results shown cwd results;
          examined = length results;
          problems = fm_parse_errors st
      in if fm_by_rule st = [] \<and> problems = [] then
           (if examined = 0 then ''ores-lint[js]: no lintable files matched (check ignores / file extensions)'' @ newline
            else ''ores-lint[js]: clean ('' @ nat_digits examined @ '' file'' @ plural examined @ '' linted)'' @ newline)
         else
           joined newline (
             [''ores-lint[js]: '' @ nat_digits (fm_errors st + fm_warnings st) @ '' finding(s) across '' @
                nat_digits (length (fm_by_rule st)) @ '' rule(s) in '' @ nat_digits (fm_files st) @ '' of '' @
                nat_digits examined @ '' file(s) linted''] @
             concat (map (rule_block shown) (ordered_rules (fm_by_rule st))) @
             (if problems \<noteq> [] then
                ['''', ''  note: '' @ nat_digits (length problems) @
                   '' file(s) could not be parsed (usually a missing parser, not a defect):''] @
                map (\<lambda>p. ''      '' @ p) (take shown problems) @
                (if shown < length problems then [''      ... and '' @ nat_digits (length problems - shown) @ '' more''] else [])
              else []) @
             ['''']) @ newline)"

section \<open>The table is a count\<close>

text \<open>All messages with the path of their file, in order.\<close>

definition all_messages :: "string \<Rightarrow> eslint_result list \<Rightarrow> (string \<times> eslint_message) list" where
  "all_messages cwd results =
     concat (map (\<lambda>r. map (\<lambda>m. (drop_first (cwd @ ''/'') (er_path r), m)) (er_messages r)) results)"

definition of_rule :: "string \<Rightarrow> (string \<times> eslint_message) list \<Rightarrow> (string \<times> eslint_message) list" where
  "of_rule rule ms = filter (\<lambda>(rel, m). rule_of m = Some rule) ms"

text \<open>What the table should hold for a rule.\<close>

definition entry_spec :: "nat \<Rightarrow> (string \<times> eslint_message) list \<Rightarrow> string \<Rightarrow> rule_entry option" where
  "entry_spec shown ms rule =
     (case of_rule rule ms of
        [] \<Rightarrow> None
      | m # rest \<Rightarrow> Some \<lparr>re_count = length (m # rest), re_examples = take shown (map (\<lambda>(rel, x). example_of rel x) (m # rest)),
          re_severity = em_severity (snd m), re_text = em_text (snd m)\<rparr>)"

definition table_ok :: "nat \<Rightarrow> (string \<times> eslint_message) list \<Rightarrow> format_state \<Rightarrow> bool" where
  "table_ok shown ms st \<longleftrightarrow>
     distinct (map fst (fm_by_rule st)) \<and>
     (\<forall>rule. map_of (fm_by_rule st) rule = entry_spec shown ms rule) \<and>
     fm_errors st = length (filter (\<lambda>(rel, m). em_severity m = 2) ms) \<and>
     fm_errors st + fm_warnings st = length ms \<and>
     length (fm_parse_errors st) = length (filter (\<lambda>(rel, m). rule_of m = None) ms)"

lemma map_of_put: "map_of (map_put k v ps) = (map_of ps)(k \<mapsto> v)"
  by (induction ps) (auto simp: fun_eq_iff)

lemma map_put_keys: "map fst (map_put k v ps) = (if k \<in> set (map fst ps) then map fst ps else map fst ps @ [k])"
  by (induction k v ps rule: map_put.induct) (simp, simp del: set_map add: set_map [symmetric])

lemma distinct_put: "distinct (map fst ps) \<Longrightarrow> distinct (map fst (map_put k v ps))"
  by (simp add: map_put_keys)

lemma take_extended: "\<not> min (Suc (length xs)) n < n \<Longrightarrow> take n (a # map g xs @ [y]) = take n (a # map g xs)"
  by (cases n) (auto simp: min_def split: if_splits)

lemma table_step: "table_ok shown ms st \<Longrightarrow> table_ok shown (ms @ [(rel, m)]) (count_message shown rel m st)"
proof -
  assume t: "table_ok shown ms st"
  show ?thesis
  proof (cases "rule_of m")
    case None
    then have "entry_spec shown (ms @ [(rel, m)]) = entry_spec shown ms"
      by (simp add: fun_eq_iff entry_spec_def of_rule_def)
    then show ?thesis
      using t None by (simp add: table_ok_def count_message_def Let_def)
  next
    case (Some rule)
    have other: "entry_spec shown (ms @ [(rel, m)]) r = entry_spec shown ms r" if "r \<noteq> rule" for r
      using Some that by (simp add: entry_spec_def of_rule_def)
    have this_rule: "of_rule rule (ms @ [(rel, m)]) = of_rule rule ms @ [(rel, m)]"
      using Some by (simp add: of_rule_def)
    have "map_of (fm_by_rule st) rule = entry_spec shown ms rule"
      using t by (simp add: table_ok_def)
    then show ?thesis
      using t Some other
      by (cases "of_rule rule ms")
        (auto simp: table_ok_def count_message_def Let_def entry_spec_def this_rule map_of_put distinct_put take_extended
            split: option.split)
  qed
qed

lemma table_fold: "table_ok shown ms st \<Longrightarrow>
  table_ok shown (ms @ map (\<lambda>m. (rel, m)) new) (fold (count_message shown rel) new st)"
proof (induction new arbitrary: ms st)
  case (Cons m new)
  then show ?case
    using table_step [OF Cons.prems, of rel m] Cons.IH [of "ms @ [(rel, m)]"] by simp
qed simp

lemma table_result:
  assumes "table_ok shown ms st"
  shows "table_ok shown (ms @ all_messages cwd [r]) (count_result shown cwd r st)"
proof -
  have "table_ok shown ms (st\<lparr>fm_files := n\<rparr>)" for n
    using assms by (simp add: table_ok_def)
  then show ?thesis
    using assms table_fold by (simp add: count_result_def all_messages_def)
qed

lemma table_results: "table_ok shown ms st \<Longrightarrow> table_ok shown (ms @ all_messages cwd results) (fold (count_result shown cwd) results st)"
proof (induction results arbitrary: ms st)
  case (Cons r results)
  then show ?case
    using table_result [OF Cons.prems, of cwd r] Cons.IH [of "ms @ all_messages cwd [r]"]
    by (simp add: all_messages_def)
qed (simp add: all_messages_def)

lemma table_of_results: "table_ok shown (all_messages cwd results) (count_results shown cwd results)"
  using table_results [of shown "[]" format_start cwd results]
  by (simp add: count_results_def table_ok_def format_start_def entry_spec_def of_rule_def)

lemma files_counted: "fm_files (count_results shown cwd results) = length (filter (\<lambda>r. er_messages r \<noteq> []) results)"
proof -
  have m: "fm_files (count_message shown rel m st) = fm_files st" for rel m st
    by (simp add: count_message_def Let_def split: option.split)
  have f: "fm_files (fold (count_message shown rel) ms st) = fm_files st" for rel ms st
    by (induction ms arbitrary: st) (simp_all add: m)
  have "fm_files (fold (count_result shown cwd) results st) = fm_files st + length (filter (\<lambda>r. er_messages r \<noteq> []) results)" for st
    by (induction results arbitrary: st) (simp_all add: count_result_def f)
  then show ?thesis
    by (simp add: count_results_def format_start_def)
qed

text \<open>Sorting loses and adds no rule, and puts house rules first.\<close>

lemma ordered_rules_set: "set (ordered_rules by_rule) = set by_rule" "length (ordered_rules by_rule) = length by_rule"
  by (simp_all add: ordered_rules_def)

lemma ordered_rules_sorted:
  "sorted (map (\<lambda>e. if map_of LABELS (fst e) \<noteq> None then 0 else 1 :: nat) (ordered_rules by_rule))"
  unfolding ordered_rules_def by (rule sorted_sort_key)

end
