(* ===== verification/Lint_Rule.thy ===== *)
theory Lint_Rule
  imports Lint_Format
begin

text \<open>
  The vendored ESLint plugin (.ores-lint/eslint/plugin.mjs): the rule require-send as a state that
  the visitor's handlers change, and the fallback rule semi. ESLint's parser and traversal are
  the trace of events.
\<close>

section \<open>Syntax trees\<close>

text \<open>Wrappers are the nodes \<open>unwrap\<close> strips; every other node is \<open>Other\<close>.\<close>

datatype node =
    Identifier string
  | ThisExpression
  | Literal "string option"
  | Member node bool node
  | Call node "node list"
  | New node
  | Wrapper node
  | Other

fun unwrap :: "node \<Rightarrow> node" where
  "unwrap (Wrapper e) = unwrap e"
| "unwrap n = n"

lemma size_unwrap: "size (unwrap n) \<le> size n"
  by (induction n rule: unwrap.induct) auto

fun getPropertyName :: "node \<Rightarrow> string option" where
  "getPropertyName (Member object computed property) =
     (case property of
        Identifier name \<Rightarrow> if \<not> computed then Some name else None
      | Literal (Some value) \<Rightarrow> if computed then Some value else None
      | _ \<Rightarrow> None)"
| "getPropertyName _ = None"

text \<open>The empty name is as false as no name.\<close>

definition truthy_name :: "string option \<Rightarrow> string option" where
  "truthy_name n = (if n = Some [] then None else n)"

fun getQualifiedName :: "node \<Rightarrow> string option" where
  "getQualifiedName (Wrapper e) = getQualifiedName e"
| "getQualifiedName (Identifier name) = Some name"
| "getQualifiedName ThisExpression = Some ''this''"
| "getQualifiedName (Member object computed property) =
     (case (truthy_name (getQualifiedName object), truthy_name (getPropertyName (Member object computed property))) of
        (Some objectName, Some propertyName) \<Rightarrow> Some (objectName @ ''.'' @ propertyName)
      | _ \<Rightarrow> None)"
| "getQualifiedName _ = None"

text \<open>The root of a call chain and its methods from left to right.\<close>

function collectCallChain :: "node \<Rightarrow> string option \<times> string list" where
  "collectCallChain node =
     (case unwrap node of
        Call callee args \<Rightarrow>
          (case unwrap callee of
             Member object computed property \<Rightarrow>
               (case collectCallChain object of (origin, methods) \<Rightarrow>
                  (origin, methods @ (case truthy_name (getPropertyName (Member object computed property)) of
                     Some m \<Rightarrow> [m] | None \<Rightarrow> [])))
           | c \<Rightarrow> (getQualifiedName c, []))
      | n \<Rightarrow> (getQualifiedName n, []))"
  by pat_completeness auto
termination
proof (relation "measure size")
  fix node callee object property :: node and args computed
  assume "unwrap node = Call callee args" "unwrap callee = Member object computed property"
  then have "size object < size callee" "size callee < size node"
    using size_unwrap [of node] size_unwrap [of callee] by simp_all
  then show "(object, node) \<in> measure size"
    by simp
qed simp_all

declare collectCallChain.simps [simp del]

definition isTrackedModule :: "string option \<Rightarrow> string list \<Rightarrow> bool" where
  "isTrackedModule source moduleNames =
     (case source of
        None \<Rightarrow> False
      | Some s \<Rightarrow> list_ex (\<lambda>m. s = m \<or> starts_with s (m @ ''/'')) moduleNames)"

section \<open>The state of require-send\<close>

record inspected =
  in_methods :: "string list"
  in_root :: "string option"
  in_delivered :: bool
  in_event :: bool

datatype flagged = Declarator string "node option" | Assignment node node | Statement node

record rule_state =
  ru_loggers :: "string list"
  ru_factories :: "string list"
  ru_classes :: "string list"
  ru_modules :: "string list"
  ru_levels :: "string list"
  ru_terminals :: "string list"
  ru_scopes :: "(string \<times> flagged) list list"
  ru_reports :: "flagged list"

text \<open>What follows the first level method, if there is one.\<close>

definition after_level :: "string list \<Rightarrow> string list \<Rightarrow> string list option" where
  "after_level levels methods =
     (case dropWhile (\<lambda>m. m \<notin> set levels) methods of [] \<Rightarrow> None | m # rest \<Rightarrow> Some rest)"

definition inspectChain :: "rule_state \<Rightarrow> node option \<Rightarrow> inspected" where
  "inspectChain st node =
     (let (origin, methods) = (case node of None \<Rightarrow> (None, []) | Some n \<Rightarrow> collectCallChain n) in
      \<lparr>in_methods = methods, in_root = origin,
       in_delivered = (case after_level (ru_levels st) methods of
          Some rest \<Rightarrow> list_ex (\<lambda>m. m \<in> set (ru_terminals st)) rest | None \<Rightarrow> False),
       in_event = ((case origin of Some r \<Rightarrow> r \<noteq> [] \<and> r \<in> set (ru_loggers st) | None \<Rightarrow> False) \<and>
          after_level (ru_levels st) methods \<noteq> None)\<rparr>)"

definition enterScope :: "rule_state \<Rightarrow> rule_state" where
  "enterScope st = st\<lparr>ru_scopes := [] # ru_scopes st\<rparr>"

definition exitScope :: "rule_state \<Rightarrow> rule_state" where
  "exitScope st =
     (case ru_scopes st of
        [] \<Rightarrow> st
      | scope # outer \<Rightarrow> st\<lparr>ru_scopes := outer, ru_reports := ru_reports st @ map snd scope\<rparr>)"

definition markPending :: "string option \<Rightarrow> flagged \<Rightarrow> rule_state \<Rightarrow> rule_state" where
  "markPending name node st =
     (case (truthy_name name, ru_scopes st) of
        (Some n, scope # outer) \<Rightarrow> st\<lparr>ru_scopes := map_put n node scope # outer\<rparr>
      | _ \<Rightarrow> st)"

fun drop_pending :: "string \<Rightarrow> (string \<times> flagged) list list \<Rightarrow> (string \<times> flagged) list list" where
  "drop_pending name [] = []"
| "drop_pending name (scope # outer) =
     (if name \<in> fst ` set scope then filter (\<lambda>p. fst p \<noteq> name) scope # outer else scope # drop_pending name outer)"

definition clearPending :: "string option \<Rightarrow> rule_state \<Rightarrow> rule_state" where
  "clearPending name st =
     (case truthy_name name of None \<Rightarrow> st | Some n \<Rightarrow> st\<lparr>ru_scopes := drop_pending n (ru_scopes st)\<rparr>)"

definition isPending :: "string option \<Rightarrow> rule_state \<Rightarrow> bool" where
  "isPending name st =
     (case truthy_name name of None \<Rightarrow> False | Some n \<Rightarrow> list_ex (\<lambda>scope. n \<in> fst ` set scope) (ru_scopes st))"

definition known :: "string option \<Rightarrow> string list \<Rightarrow> bool" where
  "known name names = (case truthy_name name of None \<Rightarrow> False | Some n \<Rightarrow> n \<in> set names)"

definition isLoggerProducer :: "rule_state \<Rightarrow> node option \<Rightarrow> bool" where
  "isLoggerProducer st node =
     (case node of
        None \<Rightarrow> False
      | Some n \<Rightarrow>
          let current = unwrap n in
          if known (getQualifiedName current) (ru_loggers st) then True
          else (case current of
            New callee \<Rightarrow> known (getQualifiedName callee) (ru_classes st)
          | Call callee args \<Rightarrow>
              if known (getQualifiedName callee) (ru_factories st) then True
              else (case unwrap callee of
                Member object computed property \<Rightarrow>
                  getPropertyName (Member object computed property) = Some ''anew'' \<and>
                  known (getQualifiedName object) (ru_loggers st)
              | _ \<Rightarrow> False)
          | _ \<Rightarrow> False))"

definition clear_argument :: "node \<Rightarrow> rule_state \<Rightarrow> rule_state" where
  "clear_argument arg st =
     (let name = getQualifiedName (unwrap arg) in if isPending name st then clearPending name st else st)"

definition consumeTerminalUse :: "node \<Rightarrow> rule_state \<Rightarrow> rule_state" where
  "consumeTerminalUse node st =
     (let current = unwrap node;
          chain = inspectChain st (Some current);
          st1 = (if truthy_name (in_root chain) \<noteq> None \<and> list_ex (\<lambda>m. m \<in> set (ru_terminals st)) (in_methods chain)
                 then clearPending (in_root chain) st else st)
      in case current of
        Call callee args \<Rightarrow> fold clear_argument args st1
      | _ \<Rightarrow> st1)"

section \<open>The handlers\<close>

datatype specifier = Default_import string | Namespace_import string | Named_import string "string option"

datatype visit =
    Enter_scope
  | Exit_scope
  | Enter_arrow "node option"
  | Import_declaration "string option" "specifier list"
  | Variable_declarator "string option" "node option"
  | Assignment_expression node node
  | Return_statement "node option"
  | Call_expression node
  | Expression_statement node

definition LOGGER_EXPORTS :: "string list" where
  "LOGGER_EXPORTS = [''logger'', ''browserLogger'', ''edgeLogger'', ''cloudflareWorkerLogger'',
     ''nodeLogger'', ''bunLogger'', ''denoLogger'']"

definition FACTORY_EXPORTS :: "string list" where
  "FACTORY_EXPORTS = [''createLogger'', ''createBrowserLogger'', ''createEdgeLogger'',
     ''createCloudflareWorkerLogger'', ''createNodeLogger'', ''createBunLogger'', ''createDenoLogger'']"

definition CLASS_EXPORTS :: "string list" where
  "CLASS_EXPORTS = [''BaseLogger'', ''BrowserLogger'', ''EdgeLogger'', ''CloudflareWorkerLogger'',
     ''NodeLogger'', ''BunLogger'', ''DenoLogger'']"

definition import_specifier :: "specifier \<Rightarrow> rule_state \<Rightarrow> rule_state" where
  "import_specifier spec st =
     (case spec of
        Default_import localName \<Rightarrow> st\<lparr>ru_loggers := localName # ru_loggers st\<rparr>
      | Namespace_import localName \<Rightarrow>
          st\<lparr>ru_loggers := map (\<lambda>n. localName @ ''.'' @ n) LOGGER_EXPORTS @ ru_loggers st,
             ru_factories := map (\<lambda>n. localName @ ''.'' @ n) FACTORY_EXPORTS @ ru_factories st,
             ru_classes := map (\<lambda>n. localName @ ''.'' @ n) CLASS_EXPORTS @ ru_classes st\<rparr>
      | Named_import localName imported \<Rightarrow>
          (case imported of
             None \<Rightarrow> st
           | Some name \<Rightarrow>
               st\<lparr>ru_loggers := (if name \<in> set LOGGER_EXPORTS then [localName] else []) @ ru_loggers st,
                  ru_factories := (if name \<in> set FACTORY_EXPORTS then [localName] else []) @ ru_factories st,
                  ru_classes := (if name \<in> set CLASS_EXPORTS then [localName] else []) @ ru_classes st\<rparr>))"

definition add_logger :: "bool \<Rightarrow> string option \<Rightarrow> rule_state \<Rightarrow> rule_state" where
  "add_logger cond name st =
     (case truthy_name name of Some n \<Rightarrow> if cond then st\<lparr>ru_loggers := n # ru_loggers st\<rparr> else st | None \<Rightarrow> st)"

definition undelivered_event :: "inspected \<Rightarrow> bool" where
  "undelivered_event chain \<longleftrightarrow> in_event chain \<and> \<not> in_delivered chain"

fun rule_visit :: "visit \<Rightarrow> rule_state \<Rightarrow> rule_state" where
  "rule_visit Enter_scope st = enterScope st"
| "rule_visit Exit_scope st = exitScope st"
| "rule_visit (Enter_arrow body) st =
     (let st1 = enterScope st in case body of None \<Rightarrow> st1 | Some b \<Rightarrow> clear_argument b st1)"
| "rule_visit (Import_declaration source specifiers) st =
     (if \<not> isTrackedModule source (ru_modules st) then st else fold import_specifier specifiers st)"
| "rule_visit (Variable_declarator name init) st =
     (let st1 = add_logger (isLoggerProducer st init) name st in
      if truthy_name name = None then st1
      else if undelivered_event (inspectChain st1 init)
      then markPending name (Declarator (the name) init) st1 else st1)"
| "rule_visit (Assignment_expression left right) st =
     (let assignedName = getQualifiedName left;
          st1 = add_logger (isLoggerProducer st (Some right)) assignedName st
      in if undelivered_event (inspectChain st1 (Some right)) \<and> truthy_name assignedName \<noteq> None
         then markPending assignedName (Assignment left right) st1
         else consumeTerminalUse right st1)"
| "rule_visit (Return_statement argument) st =
     (case argument of
        None \<Rightarrow> st
      | Some e \<Rightarrow>
          let name = getQualifiedName (unwrap e) in
          if isPending name st then clearPending name st
          else if undelivered_event (inspectChain st (Some e)) then st
          else consumeTerminalUse e st)"
| "rule_visit (Call_expression node) st = consumeTerminalUse node st"
| "rule_visit (Expression_statement e) st =
     (if undelivered_event (inspectChain st (Some e)) then st\<lparr>ru_reports := ru_reports st @ [Statement e]\<rparr>
      else consumeTerminalUse e st)"

record rule_options =
  op_loggerNames :: "string list"
  op_moduleNames :: "string list"
  op_levelMethods :: "string list option"
  op_terminalMethods :: "string list option"

definition create_rule :: "rule_options \<Rightarrow> rule_state" where
  "create_rule options =
     \<lparr>ru_loggers = [''log'', ''logger'', ''ddlog''] @ op_loggerNames options, ru_factories = [], ru_classes = [],
      ru_modules = ''@oresoftware/next-loggers'' # op_moduleNames options,
      ru_levels = (case op_levelMethods options of Some ms \<Rightarrow> ms | None \<Rightarrow> LEVEL),
      ru_terminals = (case op_terminalMethods options of Some ms \<Rightarrow> ms | None \<Rightarrow> TERMINAL),
      ru_scopes = [], ru_reports = []\<rparr>"

definition run_rule :: "rule_options \<Rightarrow> visit list \<Rightarrow> rule_state" where
  "run_rule options visits = fold rule_visit visits (create_rule options)"

section \<open>The rule semi\<close>

text \<open>A node with its type, its last token, its role in a \<^verbatim>\<open>for\<close> head and its declaration's type.\<close>

record statement_node =
  st_type :: string
  st_last :: "(string \<times> string) option"
  st_for_head :: bool
  st_declares :: "string option"

definition NEEDS_SEMI :: "string list" where
  "NEEDS_SEMI = [''ExpressionStatement'', ''ReturnStatement'', ''ThrowStatement'', ''BreakStatement'',
     ''ContinueStatement'', ''DebuggerStatement'', ''DoWhileStatement'', ''ImportDeclaration'',
     ''ExportAllDeclaration'', ''PropertyDefinition'', ''TSTypeAliasDeclaration'',
     ''TSDeclareFunction'', ''TSImportEqualsDeclaration'']"

definition missing_semi :: "statement_node \<Rightarrow> bool" where
  "missing_semi n = (case st_last n of None \<Rightarrow> False | Some t \<Rightarrow> t \<noteq> (''Punctuator'', '';''))"

definition semi_reports :: "statement_node \<Rightarrow> bool" where
  "semi_reports n =
     (if st_type n = ''VariableDeclaration'' then \<not> st_for_head n \<and> missing_semi n
      else if st_type n \<in> {''ExportNamedDeclaration'', ''ExportDefaultDeclaration''}
      then (case st_declares n of
          Some d \<Rightarrow> d \<notin> set [''FunctionDeclaration'', ''ClassDeclaration'', ''TSInterfaceDeclaration'',
            ''TSEnumDeclaration'', ''TSModuleDeclaration''] \<and> missing_semi n
        | None \<Rightarrow> missing_semi n)
      else st_type n \<in> set NEEDS_SEMI \<and> missing_semi n)"


section \<open>Every report is an event that is never sent\<close>

text \<open>The expression a report is about.\<close>

fun flagged_expression :: "flagged \<Rightarrow> node option" where
  "flagged_expression (Declarator name init) = init"
| "flagged_expression (Assignment left right) = Some right"
| "flagged_expression (Statement e) = Some e"

definition unsent :: "rule_state \<Rightarrow> flagged \<Rightarrow> bool" where
  "unsent st f \<longleftrightarrow> undelivered_event (inspectChain st (flagged_expression f))"

text \<open>Loggers are only ever added, and the methods of the rule stay.\<close>

definition knows_more :: "rule_state \<Rightarrow> rule_state \<Rightarrow> bool" where
  "knows_more st st' \<longleftrightarrow> set (ru_loggers st) \<subseteq> set (ru_loggers st') \<and> ru_levels st' = ru_levels st \<and> ru_terminals st' = ru_terminals st"

lemma unsent_more: "knows_more st st' \<Longrightarrow> unsent st f \<Longrightarrow> unsent st' f"
  by (auto simp: unsent_def undelivered_event_def inspectChain_def knows_more_def split: option.splits prod.splits)

lemma unsent_scopes [simp]: "unsent (st\<lparr>ru_scopes := x\<rparr>) f = unsent st f" "unsent (st\<lparr>ru_reports := y\<rparr>) f = unsent st f"
  by (simp_all add: unsent_def inspectChain_def undelivered_event_def split: prod.split option.split)

definition carried :: "rule_state \<Rightarrow> flagged set" where
  "carried st = (\<Union>scope \<in> set (ru_scopes st). snd ` set scope)"

definition rule_ok :: "rule_state \<Rightarrow> bool" where
  "rule_ok st \<longleftrightarrow> (\<forall>f \<in> set (ru_reports st) \<union> carried st. unsent st f)"

text \<open>The only ways a handler changes reports and scopes.\<close>

definition rule_keeps :: "rule_state \<Rightarrow> rule_state \<Rightarrow> bool" where
  "rule_keeps st st' \<longleftrightarrow> knows_more st st' \<and> set (ru_reports st') \<subseteq> set (ru_reports st) \<and> carried st' \<subseteq> carried st"

lemma rule_keeps_refl [simp]: "rule_keeps st st"
  by (auto simp: rule_keeps_def knows_more_def)

lemma rule_keeps_trans: "rule_keeps a b \<Longrightarrow> rule_keeps b c \<Longrightarrow> rule_keeps a c"
  unfolding rule_keeps_def knows_more_def by (elim conjE, intro conjI) (erule subset_trans, assumption | simp)+

lemma rule_keeps_ok: "rule_keeps st st' \<Longrightarrow> rule_ok st \<Longrightarrow> rule_ok st'"
  using unsent_more unfolding rule_keeps_def rule_ok_def by blast

lemma drop_pending_sub: "(\<Union>scope \<in> set (drop_pending n scopes). snd ` set scope) \<subseteq> (\<Union>scope \<in> set scopes. snd ` set scope)"
  by (induction scopes) auto

lemma clearPending_rule_keeps: "rule_keeps st (clearPending name st)"
  using drop_pending_sub [of _ "ru_scopes st"]
  by (simp add: rule_keeps_def knows_more_def clearPending_def carried_def split: option.split)

lemma clear_argument_rule_keeps: "rule_keeps st (clear_argument arg st)"
  by (simp add: clear_argument_def Let_def clearPending_rule_keeps)

lemma fold_rule_keeps: "(\<And>x s. rule_keeps s (f x s)) \<Longrightarrow> rule_keeps st (fold f xs st)"
  by (induction xs arbitrary: st) (auto intro: rule_keeps_trans)

lemma consume_rule_keeps: "rule_keeps st (consumeTerminalUse node st)"
proof -
  have "rule_keeps st (fold clear_argument args st')" if "rule_keeps st st'" for args st'
    using rule_keeps_trans [OF that fold_rule_keeps [of clear_argument, OF clear_argument_rule_keeps]] .
  then show ?thesis
    using clearPending_rule_keeps by (simp add: consumeTerminalUse_def Let_def split: node.split)
qed

lemma add_logger_rule_keeps: "rule_keeps st (add_logger cond name st)"
  by (auto simp: add_logger_def rule_keeps_def knows_more_def carried_def split: option.split)

lemma import_rule_keeps: "rule_keeps st (import_specifier spec st)"
  by (auto simp: import_specifier_def rule_keeps_def knows_more_def carried_def split: specifier.split option.split)

lemma enter_rule_keeps: "rule_keeps st (enterScope st)"
  by (simp add: enterScope_def rule_keeps_def knows_more_def carried_def)

lemma exit_ok: "rule_ok st \<Longrightarrow> rule_ok (exitScope st)"
  by (auto simp: exitScope_def rule_ok_def carried_def split: list.split)

lemma map_put_values: "snd ` set (map_put n v ps) \<subseteq> insert v (snd ` set ps)"
  using map_put_set [of n v ps] by force

lemma mark_pending_ok: "rule_ok st \<Longrightarrow> unsent st f \<Longrightarrow> rule_ok (markPending name f st)"
proof (cases "\<exists>n scope outer. truthy_name name = Some n \<and> ru_scopes st = scope # outer")
  case True
  assume ok: "rule_ok st" "unsent st f"
  from True obtain n scope outer where c: "truthy_name name = Some n" "ru_scopes st = scope # outer"
    by blast
  have "carried (markPending name f st) \<subseteq> insert f (carried st)" "ru_reports (markPending name f st) = ru_reports st"
    using c map_put_values [of n f scope] by (auto simp: markPending_def carried_def)
  moreover have "unsent (markPending name f st) g = unsent st g" for g
    using c by (simp add: markPending_def)
  ultimately show ?thesis
    using ok unfolding rule_ok_def by auto
next
  case False
  then have "markPending name f st = st"
    by (auto simp: markPending_def split: option.split list.split)
  then show "rule_ok st \<Longrightarrow> ?thesis"
    by simp
qed

lemma visit_ok: "rule_ok st \<Longrightarrow> rule_ok (rule_visit v st)"
proof (cases v)
  case (Enter_arrow body)
  assume "rule_ok st"
  then show ?thesis
    using Enter_arrow rule_keeps_ok [OF rule_keeps_trans [OF enter_rule_keeps clear_argument_rule_keeps]] rule_keeps_ok [OF enter_rule_keeps]
    by (simp add: Let_def split: option.split)
next
  case (Import_declaration source specs)
  assume "rule_ok st"
  then show ?thesis
    using Import_declaration rule_keeps_ok [OF fold_rule_keeps [of import_specifier, OF import_rule_keeps]] by simp
next
  case (Variable_declarator name init)
  assume "rule_ok st"
  then have "rule_ok (add_logger (isLoggerProducer st init) name st)"
    by (rule rule_keeps_ok [OF add_logger_rule_keeps])
  then show ?thesis
    using Variable_declarator by (auto simp: Let_def unsent_def intro!: mark_pending_ok)
next
  case (Assignment_expression left right)
  assume "rule_ok st"
  then have "rule_ok (add_logger (isLoggerProducer st (Some right)) (getQualifiedName left) st)"
    by (rule rule_keeps_ok [OF add_logger_rule_keeps])
  then show ?thesis
    using Assignment_expression rule_keeps_ok [OF consume_rule_keeps] by (auto simp: Let_def unsent_def intro!: mark_pending_ok)
next
  case (Return_statement argument)
  assume "rule_ok st"
  then show ?thesis
    using Return_statement rule_keeps_ok [OF consume_rule_keeps] rule_keeps_ok [OF clearPending_rule_keeps] by (simp add: Let_def split: option.split)
next
  case (Expression_statement e)
  assume "rule_ok st"
  then show ?thesis
    using Expression_statement rule_keeps_ok [OF consume_rule_keeps]
    by (auto simp: rule_ok_def carried_def) (simp_all add: unsent_def)
qed (use rule_keeps_ok [OF enter_rule_keeps] exit_ok rule_keeps_ok [OF consume_rule_keeps] in simp_all)

text \<open>
  Whatever the traversal, every report of require-send is a chain on a known logger that reaches a
  level method and calls no terminal method after it.
\<close>

lemma rule_reports_unsent: "f \<in> set (ru_reports (run_rule options visits)) \<Longrightarrow> unsent (run_rule options visits) f"
proof -
  have "rule_ok (create_rule options)"
    by (simp add: rule_ok_def create_rule_def carried_def)
  then have "rule_ok (fold rule_visit vs (create_rule options))" for vs
    using visit_ok by (induction vs rule: rev_induct) auto
  then show "f \<in> set (ru_reports (run_rule options visits)) \<Longrightarrow> unsent (run_rule options visits) f"
    unfolding run_rule_def rule_ok_def by blast
qed

text \<open>A chain in a statement of its own is always reported, whatever came before.\<close>

lemma statement_reported:
  assumes "undelivered_event (inspectChain (run_rule options visits) (Some e))"
  shows "Statement e \<in> set (ru_reports (run_rule options (visits @ [Expression_statement e])))"
  using assms by (simp add: run_rule_def)

text \<open>A second chain assigned to a name hides the first: only the last one is pending.\<close>

definition log_call :: "string \<Rightarrow> node" where
  "log_call level = Call (Member (Identifier ''log'') False (Identifier level)) []"

lemma overwritten_event_lost:
  "ru_reports (run_rule \<lparr>op_loggerNames = [], op_moduleNames = [], op_levelMethods = None, op_terminalMethods = None\<rparr>
     [Enter_scope, Variable_declarator (Some ''e'') (Some (log_call ''info'')),
      Assignment_expression (Identifier ''e'') (log_call ''warn''),
      Call_expression (Call (Member (Identifier ''e'') False (Identifier ''send'')) []), Exit_scope]) = []"
  by code_simp

end
