(* ===== verification/Lint_Config.thy ===== *)
theory Lint_Config
  imports Lint_Rule
begin

text \<open>
  The flat-config factory (.ores-lint/eslint/base.mjs): what is installed, what is ignored, and
  the blocks. Module resolution and imports are arguments.
\<close>

section \<open>What is installed\<close>

text \<open>\<open>here\<close> and \<open>global\<close> resolve an id in this tree and in the extra paths.\<close>

definition extra_paths :: "string option \<Rightarrow> string option \<Rightarrow> string list" where
  "extra_paths global_root node_path =
     filter (\<lambda>p. p \<noteq> [])
       ((case global_root of Some r \<Rightarrow> [r] | None \<Rightarrow> []) @
        (case node_path of Some p \<Rightarrow> if p = [] then [] else split_on CHR '':'' p | None \<Rightarrow> []))"

definition tryResolve :: "(string \<Rightarrow> string option) \<Rightarrow> (string list \<Rightarrow> string \<Rightarrow> string option) \<Rightarrow> string list \<Rightarrow> string \<Rightarrow> string option" where
  "tryResolve here global extra name =
     (case here name of
        Some r \<Rightarrow> Some r
      | None \<Rightarrow> if extra \<noteq> [] then global extra name else None)"

text \<open>\<open>rules\<close>: the built-in rules of the module at a path, or nothing where the import fails.\<close>

definition coreSemiAvailable :: "(string \<Rightarrow> string option) \<Rightarrow> (string \<Rightarrow> string list option) \<Rightarrow> bool" where
  "coreSemiAvailable resolve rules =
     (case resolve ''eslint/use-at-your-own-risk'' of
        None \<Rightarrow> True
      | Some path \<Rightarrow> (case rules path of Some names \<Rightarrow> ''semi'' \<in> set names | None \<Rightarrow> True))"

text \<open>A module: its parser, and whether it parses itself.\<close>

record ts_module =
  tm_parser :: "string option"
  tm_self :: string
  tm_parses :: bool

fun loadTsSupport :: "(string \<Rightarrow> string option) \<Rightarrow> (string \<Rightarrow> ts_module option) \<Rightarrow> string list \<Rightarrow> (string \<times> string) option" where
  "loadTsSupport resolve load [] = None"
| "loadTsSupport resolve load (name # names) =
     (case Option.bind (resolve name) load of
        None \<Rightarrow> loadTsSupport resolve load names
      | Some m \<Rightarrow>
          (case if name = ''typescript-eslint'' then tm_parser m else None of
             Some p \<Rightarrow> Some (p, name)
           | None \<Rightarrow> if tm_parses m then Some (tm_self m, name) else loadTsSupport resolve load names))"

definition TS_CANDIDATES :: "string list" where
  "TS_CANDIDATES = [''typescript-eslint'', ''@typescript-eslint/parser'']"

section \<open>What is ignored\<close>

definition trim_text :: "string \<Rightarrow> string" where
  "trim_text s = rev (dropWhile is_space (rev (dropWhile is_space s)))"

definition ignore_glob :: "string \<Rightarrow> string" where
  "ignore_glob l =
     (let g = (if CHR ''/'' \<in> set l then dropWhile (\<lambda>c. c = CHR ''/'') l else ''**/'' @ l)
      in if ends_with g ''/'' then g @ ''**'' else g)"

definition legacyIgnoreFile :: "string option \<Rightarrow> string list" where
  "legacyIgnoreFile raw =
     (case raw of
        None \<Rightarrow> []
      | Some text \<Rightarrow>
          map ignore_glob
            (filter (\<lambda>l. l \<noteq> [] \<and> \<not> starts_with l ''#'' \<and> \<not> starts_with l ''!'')
              (map trim_text (split_on NEWLINE text))))"

definition nestedRepoIgnores :: "(jsval \<Rightarrow> string) \<Rightarrow> jsval option \<Rightarrow> string list" where
  "nestedRepoIgnores text raw = map (\<lambda>d. text d @ ''/**'') (nestedRepos raw)"

definition IGNORES :: "string list" where
  "IGNORES = [''**/node_modules/**'', ''**/dist/**'', ''**/build/**'', ''**/out/**'', ''**/target/**'',
     ''**/coverage/**'', ''**/.next/**'', ''**/vendor/**'', ''**/*.min.js'', ''**/*.bundle.js'', ''**/.ores-lint/**'']"

definition JS_FILES :: "string list" where
  "JS_FILES = [''**/*.js'', ''**/*.mjs'', ''**/*.cjs'', ''**/*.jsx'']"

definition TS_FILES :: "string list" where
  "TS_FILES = [''**/*.ts'', ''**/*.mts'', ''**/*.cts'', ''**/*.tsx'']"

section \<open>The blocks\<close>

record config_block =
  cb_files :: "string list option"
  cb_ignores :: "string list"
  cb_rules :: props
  cb_parser :: "string option"

definition spread :: "props \<Rightarrow> props \<Rightarrow> props" where
  "spread a b = fold (\<lambda>(k, v) ps. map_put k v ps) b a"

definition warn_with :: "jsval \<Rightarrow> jsval" where
  "warn_with options = JArr [JStr ''warn'', options]"

definition semi_rules :: "bool \<Rightarrow> props" where
  "semi_rules useCoreSemi =
     (if useCoreSemi then [(''semi'', warn_with (JStr ''always'')), (''no-extra-semi'', JStr ''warn''), (''semi-style'', warn_with (JStr ''last''))]
      else [(''ores/semi'', JStr ''warn'')])"

definition correctness :: "jsval \<Rightarrow> props" where
  "correctness requireSend =
     [(''ores/require-send'', warn_with (if truthy requireSend then requireSend else JObj [])),
      (''no-unused-vars'', warn_with (JObj [(''args'', JStr ''after-used''), (''argsIgnorePattern'', JStr ''^_''),
         (''varsIgnorePattern'', JStr ''^_''), (''caughtErrors'', JStr ''none'')])),
      (''eqeqeq'', warn_with (JStr ''smart''))] @
     map (\<lambda>r. (r, JStr ''warn'')) [''no-fallthrough'', ''no-unreachable'', ''no-dupe-keys'', ''no-dupe-else-if'',
       ''no-duplicate-case'', ''no-self-compare'', ''no-unsafe-negation''] @
     [(''no-cond-assign'', warn_with (JStr ''always'')),
      (''no-constant-condition'', warn_with (JObj [(''checkLoops'', JBool False)]))] @
     map (\<lambda>r. (r, JStr ''warn'')) [''no-async-promise-executor'', ''no-promise-executor-return'', ''no-compare-neg-zero'',
       ''no-irregular-whitespace'', ''no-template-curly-in-string'', ''valid-typeof'', ''use-isnan'', ''no-debugger'']"

definition oresConfig :: "bool \<Rightarrow> (string \<times> string) option \<Rightarrow> string list \<Rightarrow> string list \<Rightarrow> jsval \<Rightarrow> props \<Rightarrow> string list \<Rightarrow> config_block list" where
  "oresConfig useCoreSemi ts nested legacy requireSend rules ignores =
     (let base = spread (semi_rules useCoreSemi) (correctness requireSend) in
      [\<lparr>cb_files = None, cb_ignores = IGNORES @ nested @ legacy @ ignores, cb_rules = [], cb_parser = None\<rparr>,
       \<lparr>cb_files = Some JS_FILES, cb_ignores = [], cb_rules = spread base rules, cb_parser = None\<rparr>] @
      (case ts of
         None \<Rightarrow> [\<lparr>cb_files = None, cb_ignores = TS_FILES, cb_rules = [], cb_parser = None\<rparr>]
       | Some (parser, source) \<Rightarrow>
           [\<lparr>cb_files = Some TS_FILES, cb_ignores = [],
             cb_rules = spread (spread base [(''no-unused-vars'', JStr ''off'')]) rules, cb_parser = Some parser\<rparr>]))"

section \<open>What the configuration guarantees\<close>

lemma spread_get: "map_of (spread a b) k = (case map_of (rev b) k of Some v \<Rightarrow> Some v | None \<Rightarrow> map_of a k)"
proof (induction b arbitrary: a)
  case (Cons p b)
  then show ?case
    by (cases p) (auto simp: spread_def map_of_put map_add_def split: option.split)
qed (simp add: spread_def)

text \<open>A rule of the repository wins over the shared ones in every block that has rules.\<close>

lemma overrides_win:
  assumes "b \<in> set (oresConfig core ts nested legacy requireSend rules ignores)" "cb_files b \<noteq> None"
    and "map_of (rev rules) k = Some v"
  shows "map_of (cb_rules b) k = Some v"
  using assms by (auto simp: oresConfig_def Let_def spread_get split: option.splits)

text \<open>
  A block that matches TypeScript files always has a TypeScript parser; without one they are
  ignored everywhere.
\<close>

lemma typescript_parsed:
  assumes "b \<in> set (oresConfig core ts nested legacy requireSend rules ignores)" "cb_files b = Some TS_FILES"
  shows "cb_parser b \<noteq> None"
  using assms by (auto simp: oresConfig_def Let_def JS_FILES_def TS_FILES_def split: option.splits)

lemma typescript_ignored:
  "\<exists>b \<in> set (oresConfig core None nested legacy requireSend rules ignores). cb_files b = None \<and> cb_ignores b = TS_FILES"
  by (simp add: oresConfig_def Let_def)

text \<open>Comments and negated patterns of the old ignore file are dropped, and every glob is one of its lines.\<close>

lemma legacy_lines:
  assumes "g \<in> set (legacyIgnoreFile (Some text))"
  shows "\<exists>line \<in> set (split_on NEWLINE text). g = ignore_glob (trim_text line) \<and> hd (trim_text line) \<notin> {CHR ''#'', CHR ''!''}"
  using assms by (auto simp: legacyIgnoreFile_def starts_with_def neq_Nil_conv)

end
