(* ===== verification/Embed.thy ===== *)
theory Embed
  imports Lint_Config
begin

text \<open>
  The generator of the embedded schema (scripts/embed-sync-schema.mjs) and its drift gate.
  \<open>parse\<close> and \<open>print\<close> are \<^verbatim>\<open>JSON.parse\<close> and \<^verbatim>\<open>JSON.stringify(value, null, 2)\<close>; \<open>dash\<close> is the
  long dash of the header line, which is no character of the model.
\<close>

section \<open>Rendering\<close>

definition trimEnd :: "string \<Rightarrow> string" where
  "trimEnd s = rev (dropWhile is_space (rev s))"

definition canonicalSchemaText :: "(string \<Rightarrow> jsval res) \<Rightarrow> (jsval \<Rightarrow> string) \<Rightarrow> string \<Rightarrow> string res" where
  "canonicalSchemaText parse print rawText =
     (case parse rawText of
        Inl e \<Rightarrow> Inl e
      | Inr parsed \<Rightarrow>
          if \<not> truthy parsed \<or> typeof parsed \<noteq> ''object'' \<or> \<not> truthy (js_field parsed ''$defs'')
          then Inl (Err ''schema/sync.schema.json must be an object with $defs'')
          else Inr (print parsed @ newline))"

definition generated_line :: "string \<Rightarrow> string" where
  "generated_line dash =
     ''// GENERATED by langs/typescript/scripts/embed-sync-schema.mjs from schema/sync.schema.json '' @ dash @ '' DO NOT EDIT.''"

definition renderMjs :: "string \<Rightarrow> string \<Rightarrow> string" where
  "renderMjs dash schemaText =
     joined newline
       [generated_line dash,
        ''// The vendored file mirrors fiducia-interfaces/schema/sync.schema.json byte for byte;'',
        ''// langs/typescript/tests/schema-drift.test.mjs guards both copies.'',
        '''',
        ''export const SYNC_SCHEMA = '' @ trimEnd schemaText @ '';'',
        '''']"

definition raw_end :: string where "raw_end = [QUOTE, QUOTE, QUOTE]"

definition renderDart :: "string \<Rightarrow> string \<Rightarrow> string res" where
  "renderDart dash schemaText =
     (if contains raw_end schemaText
      then Inl (Err (''schema text may not contain a Dart raw-string terminator ('' @ raw_end @ '' )''))
      else Inr (joined newline
        [generated_line dash,
         ''// The vendored file mirrors fiducia-interfaces/schema/sync.schema.json byte for byte.'',
         '''',
         ''/// The canonical sync envelope JSON Schema, embedded verbatim.'',
         ''const String syncSchemaJson = r'' @ raw_end,
         trimEnd schemaText,
         raw_end @ '';'',
         '''']))"

section \<open>The program\<close>

type_synonym files = "string \<Rightarrow> string option"

definition SCHEMA_PATH :: "string \<Rightarrow> string" where "SCHEMA_PATH repo = repo @ ''/schema/sync.schema.json''"
definition MJS_PATH :: "string \<Rightarrow> string" where "MJS_PATH repo = repo @ ''/langs/typescript/src/sync-schema.mjs''"
definition DART_PATH :: "string \<Rightarrow> string" where "DART_PATH repo = repo @ ''/langs/dart/lib/src/sync_schema.dart''"

definition generate :: "(string \<Rightarrow> jsval res) \<Rightarrow> (jsval \<Rightarrow> string) \<Rightarrow> string \<Rightarrow> string \<Rightarrow> files \<Rightarrow> (string \<times> string) list res" where
  "generate parse print dash repo fs =
     (case fs (SCHEMA_PATH repo) of
        None \<Rightarrow> Inl (Err ''ENOENT'')
      | Some raw \<Rightarrow>
          (case canonicalSchemaText parse print raw of
             Inl e \<Rightarrow> Inl e
           | Inr schemaText \<Rightarrow>
               (case renderDart dash schemaText of
                  Inl e \<Rightarrow> Inl e
                | Inr dart \<Rightarrow> Inr [(MJS_PATH repo, renderMjs dash schemaText), (DART_PATH repo, dart)])))"

definition drifted :: "files \<Rightarrow> (string \<times> string) list \<Rightarrow> string list" where
  "drifted fs outputs = map fst (filter (\<lambda>(path, content). fs path \<noteq> Some content) outputs)"

definition write_outputs :: "(string \<times> string) list \<Rightarrow> files \<Rightarrow> files" where
  "write_outputs outputs fs = fold (\<lambda>(path, content) f. f(path \<mapsto> content)) outputs fs"

text \<open>The files afterwards, the paths that drifted, and the exit status.\<close>

definition embed_main :: "(string \<Rightarrow> jsval res) \<Rightarrow> (jsval \<Rightarrow> string) \<Rightarrow> string \<Rightarrow> string \<Rightarrow> bool \<Rightarrow> files \<Rightarrow> (files \<times> string list \<times> nat) res" where
  "embed_main parse print dash repo check fs =
     (case generate parse print dash repo fs of
        Inl e \<Rightarrow> Inl e
      | Inr outputs \<Rightarrow>
          if check then Inr (fs, drifted fs outputs, if drifted fs outputs \<noteq> [] then 1 else 0)
          else Inr (write_outputs outputs fs, [], 0))"

section \<open>The gate\<close>

lemma paths_apart: "SCHEMA_PATH repo \<noteq> MJS_PATH repo" "SCHEMA_PATH repo \<noteq> DART_PATH repo" "MJS_PATH repo \<noteq> DART_PATH repo"
  by (simp_all add: SCHEMA_PATH_def MJS_PATH_def DART_PATH_def)

lemma generate_paths: "generate parse print dash repo fs = Inr outputs \<Longrightarrow>
  \<exists>m d. outputs = [(MJS_PATH repo, m), (DART_PATH repo, d)]"
  by (auto simp: generate_def split: option.splits sum.splits)

lemma generate_source: "fs (SCHEMA_PATH repo) = fs' (SCHEMA_PATH repo) \<Longrightarrow>
  generate parse print dash repo fs = generate parse print dash repo fs'"
  by (simp add: generate_def)

text \<open>
  The gate passes exactly on a tree that regeneration leaves as it is, and always after one.
\<close>

lemma gate_after_regeneration:
  assumes "embed_main parse print dash repo False fs = Inr (fs', notes, status)"
  shows "embed_main parse print dash repo True fs' = Inr (fs', [], 0)"
    and "embed_main parse print dash repo False fs' = Inr (fs', [], 0)"
proof -
  obtain outputs where o: "generate parse print dash repo fs = Inr outputs" "fs' = write_outputs outputs fs"
    using assms by (auto simp: embed_main_def split: sum.splits)
  obtain m d where md: "outputs = [(MJS_PATH repo, m), (DART_PATH repo, d)]"
    using generate_paths [OF o(1)] by blast
  have fs': "fs' = fs(MJS_PATH repo \<mapsto> m, DART_PATH repo \<mapsto> d)"
    by (simp add: o(2) md write_outputs_def)
  have "generate parse print dash repo fs' = Inr outputs"
    using generate_source [of fs repo fs'] o(1) paths_apart [of repo] by (simp add: fs')
  moreover have "drifted fs' outputs = []" "write_outputs outputs fs' = fs'"
    using paths_apart [of repo] by (auto simp: drifted_def md fs' write_outputs_def fun_eq_iff)
  ultimately show "embed_main parse print dash repo True fs' = Inr (fs', [], 0)"
    "embed_main parse print dash repo False fs' = Inr (fs', [], 0)"
    by (simp_all add: embed_main_def)
qed

lemma updates_same:
  assumes "a \<noteq> b"
  shows "f(a \<mapsto> x, b \<mapsto> y) = f \<longleftrightarrow> f a = Some x \<and> f b = Some y"
proof
  assume "f(a \<mapsto> x, b \<mapsto> y) = f"
  then have "(f(a \<mapsto> x, b \<mapsto> y)) a = f a" "(f(a \<mapsto> x, b \<mapsto> y)) b = f b"
    by simp_all
  then show "f a = Some x \<and> f b = Some y"
    using assms by simp
qed (simp add: fun_upd_idem)

lemma gate_exact:
  "embed_main parse print dash repo True fs = Inr (fs'', notes, 0) \<longleftrightarrow>
     fs'' = fs \<and> notes = [] \<and> embed_main parse print dash repo False fs = Inr (fs, [], 0)"
proof (cases "generate parse print dash repo fs")
  case (Inr outputs)
  then obtain m d where md: "outputs = [(MJS_PATH repo, m), (DART_PATH repo, d)]"
    using generate_paths by blast
  have w: "write_outputs outputs fs = fs(MJS_PATH repo \<mapsto> m, DART_PATH repo \<mapsto> d)"
    by (simp add: md write_outputs_def)
  have "drifted fs outputs = [] \<longleftrightarrow> write_outputs outputs fs = fs"
    unfolding w updates_same [OF paths_apart(3)] by (auto simp: drifted_def md)
  then show ?thesis
    using Inr by (auto simp: embed_main_def)
qed (simp add: embed_main_def)

text \<open>The raw string of the Dart file ends where the schema does.\<close>

lemma contains_iff: "contains sub s \<longleftrightarrow> (\<exists>pre post. s = pre @ sub @ post)"
proof
  show "contains sub s \<Longrightarrow> \<exists>pre post. s = pre @ sub @ post"
  proof (induction s)
    case (Cons c s)
    then consider "take (length sub) (c # s) = sub" | "contains sub s"
      by auto
    then show ?case
    proof cases
      case 1
      then have "c # s = [] @ sub @ drop (length sub) (c # s)"
        by (metis append_Nil append_take_drop_id)
      then show ?thesis by blast
    next
      case 2
      then show ?thesis
        using Cons.IH by (metis append_Cons)
    qed
  qed simp
next
  have here: "contains sub (sub @ post)" for post
    by (cases "sub @ post") (simp_all, metis append_eq_conv_conj)
  have "contains sub (pre @ sub @ post)" for pre post
    by (induction pre) (simp_all add: here)
  then show "\<exists>pre post. s = pre @ sub @ post \<Longrightarrow> contains sub s"
    by blast
qed

lemma contains_trim: "contains sub (trimEnd s) \<Longrightarrow> contains sub s"
proof -
  obtain t where "s = trimEnd s @ t"
    unfolding trimEnd_def by (metis rev_append rev_rev_ident takeWhile_dropWhile_id)
  then show "contains sub (trimEnd s) \<Longrightarrow> contains sub s"
    unfolding contains_iff by (metis append.assoc)
qed

lemma dart_text_closed: "renderDart dash t = Inr d \<Longrightarrow> \<not> contains raw_end (trimEnd t)"
  using contains_trim by (auto simp: renderDart_def split: if_splits)


text \<open>
  C40. After a regeneration the drift gate passes and regenerating again changes nothing; and the
  gate passes on a tree exactly when regeneration would leave that tree as it is.
\<close>

theorem drift_gate:
  assumes "embed_main parse print dash repo False fs = Inr (fs', notes, status)"
  shows "embed_main parse print dash repo True fs' = Inr (fs', [], 0) \<and>
    embed_main parse print dash repo False fs' = Inr (fs', [], 0) \<and>
    (embed_main parse print dash repo True fs = Inr (fs, [], 0) \<longleftrightarrow> fs' = fs)"
proof -
  have "notes = [] \<and> status = 0"
    using assms by (auto simp: embed_main_def split: sum.splits)
  then show ?thesis
    using gate_after_regeneration [OF assms] gate_exact [of parse print dash repo fs fs "[]"] assms by auto
qed

definition sample_tree :: files where
  "sample_tree = [SCHEMA_PATH ''/r'' \<mapsto> ''{}'', MJS_PATH ''/r'' \<mapsto> ''old'']"

theorem drift_gate_witness:
  "\<exists>fs'. embed_main (\<lambda>_. Inr (JObj [(''$defs'', JObj [])])) (\<lambda>_. ''{}'') ''-'' ''/r'' True fs' = Inr (fs', [], 0) \<and> fs' \<noteq> sample_tree"
proof -
  let ?run = "embed_main (\<lambda>_. Inr (JObj [(''$defs'', JObj [])])) (\<lambda>_. ''{}'') ''-'' ''/r''"
  have c: "\<not> contains raw_end (''{}'' @ newline)"
    by code_simp
  obtain fs' drift st where r: "?run False sample_tree = Inr (fs', drift, st)" and d: "fs' (DART_PATH ''/r'') \<noteq> None"
    using c paths_apart [of "''/r''"]
    by (auto simp: embed_main_def generate_def sample_tree_def canonicalSchemaText_def renderDart_def write_outputs_def)
  have "fs' \<noteq> sample_tree"
    using d paths_apart [of "''/r''"] by (auto simp: sample_tree_def)
  then show ?thesis
    using drift_gate [OF r] by blast
qed

end
