(* ===== verification/Spec2Isabelle.thy ===== *)
theory Spec2Isabelle
  imports Adapters Hlc Zod_Canonical Rust_Canonical Otel Write_Path Wiring Htmx Embed
begin

text \<open>
  Verification of the fiducia-sync browser SDK (\<^verbatim>\<open>src/langs/typescript/src\<close>) with its Rust
  reconcile core (\<^verbatim>\<open>src/src/lib.rs\<close>, \<^verbatim>\<open>src/src/hlc.rs\<close>) and the Rust copy of the schema
  validator (\<^verbatim>\<open>src/src/schema.rs\<close>).

  The program. A browser application keeps a replica of server tables and a durable queue of
  its own writes. The client (client.mjs) decides with the core what an incoming change does to
  the replica, queues writes and sends them. It works over one of two adapters with one
  interface, IndexedDB (store.mjs) and a localStorage snapshot (local-storage.mjs). Two
  transports bring changes (transports/backend.mjs, transports/supabase.mjs, both through
  transports/decode.mjs), one of them takes writes; start.mjs wires a session together and
  catches up by cursor pages. Beside this stand the canonical schema with its validator
  (sync-schema.mjs, validate.mjs), the hybrid logical clock (hlc.mjs), the patch merge
  (merge.mjs), the OpenTelemetry adapter (telemetry.mjs) and the htmx extension (htmx.mjs). The
  repository's own tools are part of the development too: the lint that looks for log events that
  are never sent (\<^verbatim>\<open>.ores-lint\<close>) and the generator of the embedded schema
  (\<^verbatim>\<open>scripts/embed-sync-schema.mjs\<close>).

  Conventions. A JavaScript value is a \<open>jsval\<close>; numbers are exact rationals, infinities or NaN;
  a character is one code point below 256. A throw is a value of \<open>js_error\<close>, an asynchronous
  operation maps a state to a result and the next state (\<open>op\<close>), and what a rejection leaves
  behind is the state it returns. Clocks, random numbers, the network, the platform's parsers
  and application callbacks are arguments. Where the code interleaves, the model has steps and
  quantifies over their order.

  Theories, in the order of the imports:

  \<^item> Sync_Prelude: values, results and composition, lists keyed by a field, shared lemmas.
  \<^item> Write_Policy, Sync_Core, Replica: policies and their validation (client.mjs); the envelopes
    and decisions of the core and its JSON boundary (lib.rs, wasm.rs, core.mjs); records, queued
    writes and the abstract \<open>plane\<close> of rows, queue and cursors with the operation each adapter
    promises on it.
  \<^item> Store_Contract: the interface of an adapter as the locale \<open>store_contract\<close>, and \<open>reliable_store\<close>
    above it for adapters without faults, one law for each operation: succeed as the abstract operation does, or reject and leave the
    plane alone. Client_Contract proves once, inside, that the client over any such adapter does
    to the plane what it does over the abstract operations.
  \<^item> Deep_Merge (merge.mjs), Telemetry and Otel (the hooks of client.mjs, telemetry.mjs).
  \<^item> Sync_Client, Reconciliation, Protocol, Write_Outcome: every operation of \<open>makeSyncClient\<close>;
    the invariant of the plane and what \<open>applyChange\<close> does to it; the client as a state machine
    whose steps are the serialised gate bodies, with runs, lost and retired writes; what callers
    of writes and flushes are told.
  \<^item> Decode, Convergence, Sync_Start, Write_Path: the decoders and the request of a write;
    redelivery and reordering of changes; \<open>pullAll\<close> and hydration (start.mjs); URL, posting and
    checking as the whole \<open>backendSend\<close>.
  \<^item> Object_Store, Idb_Store, Local_Storage: keyed collections (locale \<open>keyed_store\<close>); the two adapters on their
    own states, transactions with a plan of faults and one JSON document with quota faults, each
    an interpretation of the contract locales. Adapters states the properties of the client over
    the adapters it runs on.
  \<^item> Open_Store: opening with schema upgrades, races against other tabs and refusals, and the
    choice of a store. Stream: \<open>connectBackend\<close> as a state machine of socket, event source,
    timer and token requests. Wiring: the session of \<open>startSync\<close> over IndexedDB, the stream and
    the Supabase channel.
  \<^item> Validate, Schema_Semantics, Sync_Schema, Envelopes: the validator, a reference semantics of
    schemas, the embedded document and its envelopes against the decoders and the client.
    Zod_Schemas, Zod_Nodes, Zod_Agreement, Zod_Canonical: \<open>zodSchemas\<close> as the tree of calls it
    makes and where it agrees with the validator. Rust_Schema, Rust_Values, Rust_Agreement,
    Rust_Canonical: the Rust validator on the values of serde_json, and where it loads and accepts
    what the JavaScript one does.
  \<^item> Hlc: both clocks, both encoders and the decoder. Htmx: intents of elements.
  \<^item> Lint_Tokens, Lint_Chains, Lint_Scan, Lint_Findings, Lint_Report (require-send.mjs): the
    tokenizer with its positions, the walks over chains and pipes, \<open>analyzeSource\<close> with its
    scopes of pending events, what its findings mean, and the program around it. Lint_Format,
    Lint_Rule, Lint_Config (eslint/formatter.mjs, plugin.mjs, base.mjs): the report as a table of
    counts, the rule as a state that visits of nodes change, the configuration blocks. Embed: the
    generator and its drift gate.

  What is shown. Refinement: over either adapter a change does exactly the abstract
  reconciliation, under faults it does so completely or not at all, and the public operations
  are runs of gate bodies whatever happens during their requests. Invariants: queue order, ids
  and a queued write for every dirty row hold in every reachable state, in a session with both
  transports too; stored versions go forward, but for one operation; the stream has one
  connection at a time. Safety: no write leaves the queue but by its acknowledgement, its echo
  or a newer server change, no unsynced edit is overwritten but by a conflict, no cursor passes
  an undelivered change, nothing happens after a stop. Functional: outcomes reported are true,
  a flush that returns has retired what it found, merging, requests and validation do what they
  say. Round trips and equivalences: clock encodings, the two clocks, the validator and its
  semantics, the schema and the decoders, the validator, its zod image and its Rust copy, a regenerated tree
  and the drift gate. The lint: it ends on every text, reports undelivered chains only, and on
  plain statements exactly those. Deviations of the
  code from its documentation are lemmas of the theory they belong to.

  Bounds and fuel. \<open>applyChange\<close> retries with fuel, and one attempt is shown to suffice.
  \<open>pullAll\<close> has the code's own page limit. The validator counts down from 65, its depth cap of
  64 plus one, and the merge from its cap, so both are total. \<open>openStore\<close> makes at most eight
  upgrade attempts, seventeen requests in all; a lone page needs two. Versions are
  integers with the 64-bit range of the core as a hypothesis where the boundary checks it;
  the clock's wrap-around and clamps are written out.

  Not modelled: the dynamic import of the core, the awaiting of single IndexedDB requests and of
  a commit, \<open>mintWriteKey\<close> (an argument), re-exports and type declarations, the admin entry,
  the Dart client, the Postgres side, and the shell drivers of
  the lint. Environment variables, git, the file system, ESLint's parser and traversal and JSON
  printing are arguments of the tool models. A connection whose peer never
  answers is a step that never comes. The locale laws are about finished operations; time between
  them appears as the interleaving of steps.
\<close>

end
